(* ===== verification/CMem.thy ===== *)
theory CMem
  imports Main "HOL-Library.Word" "HOL-Library.Monad_Syntax"
begin

text \<open>
  The C memory the components share. An array is a list of its cells and an access carries
  its bound: \<open>rd\<close>, \<open>put\<close>, \<open>slice\<close> and \<open>for_n\<close> live in the option monad, where
  \<open>None\<close> is what C leaves undefined (an access outside an object, a NULL or uninitialised
  pointer that is followed). A theorem that a function returns \<open>Some\<close> is therefore a
  memory-safety theorem. The lemmas turn every sequence of writes into one \<open>put\<close> and
  every counted loop into an invariant.
\<close>

unbundle bit_operations_syntax

type_synonym byte = "8 word"
type_synonym u16 = "16 word"
type_synonym u32 = "32 word"

named_theorems mem_write \<open>writes as \<open>put\<close>\<close>
named_theorems mem_read \<open>reads from a list with a known prefix\<close>
named_theorems c_bind \<open>inversion of the option monad\<close>

section \<open>Array accesses\<close>

definition rd :: "'a list \<Rightarrow> nat \<Rightarrow> 'a option" where
  "rd buf i = (if i < length buf then Some (buf ! i) else None)"

definition put :: "'a list \<Rightarrow> nat \<Rightarrow> 'a list \<Rightarrow> 'a list option" where
  "put buf off xs =
     (if off + length xs \<le> length buf
      then Some (take off buf @ xs @ drop (off + length xs) buf) else None)"

definition wr :: "'a list \<Rightarrow> nat \<Rightarrow> 'a \<Rightarrow> 'a list option" where
  "wr buf i x = (if i < length buf then Some (buf[i := x]) else None)"

definition slice :: "'a list \<Rightarrow> nat \<Rightarrow> nat \<Rightarrow> 'a list option" where
  "slice buf off n = (if off + n \<le> length buf then Some (take n (drop off buf)) else None)"

text \<open>A C loop \<open>for (i = lo; i < lo + n; i++)\<close> over a state.\<close>

primrec for_n :: "nat \<Rightarrow> nat \<Rightarrow> (nat \<Rightarrow> 's \<Rightarrow> 's option) \<Rightarrow> 's \<Rightarrow> 's option" where
  "for_n i 0 f s = Some s"
| "for_n i (Suc k) f s = Option.bind (f i s) (for_n (Suc i) k f)"

lemmas [c_bind] = bind_eq_Some_conv

lemma bind_map_option [simp]: "Option.bind (map_option f x) g = Option.bind x (\<lambda>y. g (f y))"
  by (cases x) simp_all

section \<open>Writes\<close>

lemma wr_put [mem_write]: "wr buf i x = put buf i [x]"
  by (auto simp: wr_def put_def upd_conv_take_nth_drop)

lemma put_put:
  "Option.bind (put buf off xs) (\<lambda>b. put b (off + length xs) ys) = put buf off (xs @ ys)"
  by (auto simp: put_def ac_simps)

text \<open>Consecutive writes fuse, also in front of a continuation.\<close>

lemma put_put_at [mem_write]:
  "off' = off + length xs \<Longrightarrow>
     Option.bind (put buf off xs) (\<lambda>b. put b off' ys) = put buf off (xs @ ys)"
  by (simp add: put_put)

lemma put_put_then [mem_write]:
  assumes "off' = off + length xs"
  shows "Option.bind (put buf off xs) (\<lambda>b. Option.bind (put b off' ys) k)
           = Option.bind (put buf off (xs @ ys)) k"
proof -
  have "Option.bind (put buf off xs) (\<lambda>b. Option.bind (put b off' ys) k)
      = Option.bind (Option.bind (put buf off xs) (\<lambda>b. put b off' ys)) k"
    by simp
  then show ?thesis by (simp only: put_put_at[OF assms])
qed

lemma put_Nil: "off \<le> length buf \<Longrightarrow> put buf off [] = Some buf"
  by (simp add: put_def)

lemma put_0_Nil [simp]: "put d 0 [] = Some d"
  by (simp add: put_def)

lemma put_whole: "length buf = length xs \<Longrightarrow> put buf 0 xs = Some xs"
  by (simp add: put_def)

lemma put_length: "put buf off xs = Some b \<Longrightarrow> length b = length buf"
  by (auto simp: put_def split: if_splits)

lemma put_fits: "off + length xs \<le> length buf \<Longrightarrow> \<exists>b. put buf off xs = Some b"
  by (simp add: put_def)

lemma put_None_iff: "put buf off xs = None \<longleftrightarrow> length buf < off + length xs"
  by (auto simp: put_def)

lemma put_take_drop:
  "put buf off xs = Some b \<Longrightarrow>
     b = take off buf @ xs @ drop (off + length xs) buf \<and> off + length xs \<le> length buf"
  by (auto simp: put_def split: if_splits)

section \<open>Reads\<close>

lemma rd_append [mem_read]:
  "rd (xs @ ys) i = (if i < length xs then Some (xs ! i) else rd ys (i - length xs))"
  by (auto simp: rd_def nth_append)

lemma rd_Cons [mem_read]: "rd (x # xs) i = (case i of 0 \<Rightarrow> Some x | Suc j \<Rightarrow> rd xs j)"
  by (auto simp: rd_def split: nat.split)

lemma rd_at [mem_read]: "rd (pre @ ys) (length pre + i) = rd ys i"
  by (simp add: rd_append)

lemma rd_at0 [mem_read]: "rd (pre @ ys) (length pre) = rd ys 0"
  using rd_at[of pre ys 0] by simp

lemma rd_at_Suc [mem_read]: "rd (pre @ ys) (Suc (length pre + i)) = rd ys (Suc i)"
  using rd_at[of pre ys "Suc i"] by simp

lemma rd_Some_iff: "rd buf i = Some x \<longleftrightarrow> i < length buf \<and> buf ! i = x"
  by (auto simp: rd_def)

lemma rd_None_iff: "rd buf i = None \<longleftrightarrow> length buf \<le> i"
  by (auto simp: rd_def)

lemma slice_at [mem_read]: "slice (pre @ xs @ post) (length pre) (length xs) = Some xs"
  by (simp add: slice_def)

lemma slice_length: "slice buf off n = Some xs \<Longrightarrow> length xs = n"
  by (auto simp: slice_def split: if_splits)

section \<open>Counted loops\<close>

lemma for_n_append:
  "for_n i (m + n) f s = Option.bind (for_n i m f s) (for_n (i + m) n f)"
  by (induction m arbitrary: i s) (auto simp: bind_assoc split: bind_splits)

lemma for_n_cong:
  "(\<And>j s. i \<le> j \<Longrightarrow> j < i + n \<Longrightarrow> f j s = g j s) \<Longrightarrow> for_n i n f s = for_n i n g s"
proof (induction n arbitrary: i s)
  case 0
  then show ?case by simp
next
  case (Suc n)
  have "for_n (Suc i) n f = for_n (Suc i) n g"
    by (rule ext) (rule Suc.IH, simp add: Suc.prems)
  then show ?case using Suc.prems[of i] by simp
qed

lemma for_n_invariant:
  assumes "P i s"
    and "\<And>j s. i \<le> j \<Longrightarrow> j < i + n \<Longrightarrow> P j s \<Longrightarrow> \<exists>s'. f j s = Some s' \<and> P (Suc j) s'"
  shows "\<exists>s'. for_n i n f s = Some s' \<and> P (i + n) s'"
  using assms
proof (induction n arbitrary: i s)
  case 0
  then show ?case by simp
next
  case (Suc n)
  obtain s1 where s1: "f i s = Some s1" "P (Suc i) s1"
    using Suc.prems(1) Suc.prems(2)[of i s] by auto
  have "\<exists>s'. for_n (Suc i) n f s1 = Some s' \<and> P (Suc i + n) s'"
    by (rule Suc.IH[OF s1(2)]) (use Suc.prems(2) in auto)
  then show ?case using s1 by simp
qed

text \<open>A row-major double loop visits the cells of the flat array in order.\<close>

lemma for_n_nested:
  "for_n i r (\<lambda>k. for_n (k * c) c f) s = for_n (i * c) (r * c) f s"
proof (induction r arbitrary: i s)
  case 0
  then show ?case by simp
next
  case (Suc r)
  have "for_n (i * c) (Suc r * c) f s
      = Option.bind (for_n (i * c) c f s) (for_n (i * c + c) (r * c) f)"
    using for_n_append[of "i * c" c "r * c" f s] by (simp add: add.commute)
  moreover have "for_n (i * c + c) (r * c) f = for_n (Suc i) r (\<lambda>k. for_n (k * c) c f)"
    by (rule ext) (simp add: Suc.IH add.commute)
  ultimately show ?case by simp
qed

lemma for_n_shift: "for_n (a + i) n f s = for_n i n (\<lambda>j. f (a + j)) s"
  by (induction n arbitrary: i s) (auto simp flip: add_Suc_right split: bind_splits)

text \<open>A loop on an image of the state is the image of the loop.\<close>

lemma for_n_image:
  assumes "\<And>j s. f j (h s) = map_option h (g j s)"
  shows "for_n i n f (h s) = map_option h (for_n i n g s)"
proof (induction n arbitrary: i s)
  case 0
  then show ?case by simp
next
  case (Suc n)
  then show ?case by (cases "g i s") (simp_all add: assms)
qed

section \<open>Machine words\<close>

text \<open>The product of two non-negative ints; its overflow is undefined.\<close>

definition int_mul :: "nat \<Rightarrow> nat \<Rightarrow> nat option" where
  "int_mul a b = (if a * b < 2 ^ 31 then Some (a * b) else None)"

lemma unat_add_of_nat:
  fixes a :: "'a::len word"
  assumes "unat a + n < 2 ^ LENGTH('a)"
  shows "unat (a + of_nat n) = unat a + n"
proof -
  have "unat (of_nat n :: 'a word) = n"
    using assms by (simp add: unat_of_nat take_bit_nat_eq_self_iff)
  then show ?thesis using assms by (metis unat_add_lem)
qed

lemma unat_of_nat_small: "n < 2 ^ LENGTH('a) \<Longrightarrow> unat (of_nat n :: 'a::len word) = n"
  by (simp add: unat_of_nat take_bit_nat_eq_self_iff)

lemma and_255: "w AND 0xff = take_bit 8 (w :: 'a::len word)"
  by (simp add: take_bit_eq_mask mask_eq_exp_minus_1)

lemma ucast_16_32_16 [simp]: "ucast (ucast (v :: u16) :: u32) = v"
  by (rule bit_word_eqI) (auto simp: bit_simps)

lemma ucast_8_32_8 [simp]: "ucast (ucast (v :: byte) :: u32) = v"
  by (rule bit_word_eqI) (auto simp: bit_simps)

text \<open>A loop that adds up the sizes of the elements of a list.\<close>

lemma for_n_sum_from:
  fixes b :: "'w::len word"
  assumes "\<And>j b. j < length xs \<Longrightarrow> g (i + j) b = Some (b + of_nat (w (xs ! j)))"
  shows "for_n i (length xs) g b = Some (b + of_nat (sum_list (map w xs)))"
  using assms
proof (induction xs arbitrary: i b)
  case Nil
  then show ?case by simp
next
  case (Cons x xs)
  have "g i b = Some (b + of_nat (w x))" using Cons.prems[of 0 b] by simp
  moreover have "for_n (Suc i) (length xs) g (b + of_nat (w x))
      = Some (b + of_nat (w x) + of_nat (sum_list (map w xs)))"
  proof (rule Cons.IH)
    fix j c assume "j < length xs"
    then show "g (Suc i + j) c = Some (c + of_nat (w (xs ! j)))"
      using Cons.prems[of "Suc j" c] by simp
  qed
  ultimately show ?case by (simp add: add.assoc)
qed

lemmas for_n_sum = for_n_sum_from[where i = 0, simplified]

text \<open>Little-endian bytes of a word.\<close>

definition le16 :: "u16 \<Rightarrow> byte list" where
  "le16 v = [ucast (v AND 0xff), ucast (drop_bit 8 v AND 0xff)]"

definition le32 :: "u32 \<Rightarrow> byte list" where
  "le32 v = [ucast (v AND 0xff), ucast (drop_bit 8 v AND 0xff),
             ucast (drop_bit 16 v AND 0xff), ucast (drop_bit 24 v AND 0xff)]"

lemma length_le16 [simp]: "length (le16 v) = 2"
  by (simp add: le16_def)

lemma length_le32 [simp]: "length (le32 v) = 4"
  by (simp add: le32_def)

section \<open>C strings\<close>

text \<open>
  A pointer to bytes: not yet written, NULL, or the start of an allocation that holds the
  bytes \<open>s\<close> and then a terminating zero. A zero inside \<open>s\<close> ends the string earlier.
\<close>

datatype cptr = Uninit | Null | Str "byte list"

definition cbytes :: "byte list \<Rightarrow> byte list" where
  "cbytes s = takeWhile (\<lambda>b. b \<noteq> 0) s"

definition cstrlen :: "cptr \<Rightarrow> nat option" where
  "cstrlen p = (case p of Str s \<Rightarrow> Some (length (cbytes s)) | _ \<Rightarrow> None)"

lemma length_cbytes_le: "length (cbytes s) \<le> length s"
  by (simp add: cbytes_def length_takeWhile_le)

lemma take_cbytes: "n \<le> length (cbytes s) \<Longrightarrow> take n s = take n (cbytes s)"
  unfolding cbytes_def by (metis takeWhile_eq_take take_take min.absorb1 min.absorb2 length_take nle_le)

lemma nth_cbytes: "i < length (cbytes s) \<Longrightarrow> s ! i = cbytes s ! i"
  by (simp add: cbytes_def takeWhile_nth)

lemma cbytes_idem [simp]: "cbytes (cbytes s) = cbytes s"
  by (simp add: cbytes_def)

text \<open>
  The allocator as the environment decides it: whether a request of so many bytes is met,
  and what a fresh block holds.
\<close>

record allocator =
  alloc_ok :: "nat \<Rightarrow> bool"
  garbage :: "nat \<Rightarrow> byte"

definition heap_block :: "allocator \<Rightarrow> nat \<Rightarrow> byte list" where
  "heap_block env n = map (garbage env) [0..<n]"

lemma length_heap_block [simp]: "length (heap_block env n) = n"
  by (simp add: heap_block_def)

text \<open>The cell \<open>i\<close> of the allocation a pointer starts, its terminating zero included.\<close>

definition cptr_rd :: "cptr \<Rightarrow> nat \<Rightarrow> byte option" where
  "cptr_rd p i = (case p of Str s \<Rightarrow> rd (s @ [0]) i | _ \<Rightarrow> None)"

text \<open>\<open>memcpy(&dst[off], p, n)\<close>.\<close>

definition cptr_slice :: "cptr \<Rightarrow> nat \<Rightarrow> byte list option" where
  "cptr_slice p n = (case p of Str s \<Rightarrow> slice (s @ [0]) 0 n | _ \<Rightarrow> None)"

lemma cptr_slice_cbytes [mem_read]:
  "cptr_slice (Str s) (length (cbytes s)) = Some (cbytes s)"
  using length_cbytes_le[of s] take_cbytes[of "length (cbytes s)" s]
  by (simp add: cptr_slice_def slice_def)

text \<open>A loop that writes the cells of a list one after the other writes the list.\<close>

lemma for_n_writes:
  assumes "\<And>j. j < n \<Longrightarrow> g (i + j) = Some (xs ! j)" and "length xs = n" and "off \<le> length buf"
  shows "for_n i n (\<lambda>j b. do { c \<leftarrow> g j; wr b (off + (j - i)) c }) buf = put buf off xs"
proof -
  have "for_n (i + m) (n - m) (\<lambda>j b. do { c \<leftarrow> g j; wr b (off + (j - i)) c }) b
      = put b (off + m) (drop m xs)" if "m \<le> n" "length b = length buf"
      "off + m \<le> length buf" for m b
    using that
  proof (induction "n - m" arbitrary: m b)
    case 0
    then show ?case using assms(2) by (simp add: put_Nil)
  next
    case (Suc k)
    then have m: "m < n" and k: "k = n - Suc m" by auto
    have dr: "drop m xs = xs ! m # drop (Suc m) xs"
      using m assms(2) by (simp add: Cons_nth_drop_Suc)
    have "for_n (i + m) (n - m) (\<lambda>j b. do { c \<leftarrow> g j; wr b (off + (j - i)) c }) b
        = Option.bind (put b (off + m) [xs ! m])
            (for_n (i + Suc m) (n - Suc m) (\<lambda>j b. do { c \<leftarrow> g j; wr b (off + (j - i)) c }))"
      using Suc.hyps(2) k assms(1)[OF m] by (simp add: wr_put flip: Suc.hyps(2))
    also have "\<dots> = Option.bind (put b (off + m) [xs ! m]) (\<lambda>b. put b (off + Suc m) (drop (Suc m) xs))"
    proof (cases "put b (off + m) [xs ! m]")
      case None
      then show ?thesis by simp
    next
      case (Some b')
      then have "length b' = length buf" "off + Suc m \<le> length buf"
        using put_length[OF Some] Suc.prems(2) by (auto simp: put_def split: if_splits)
      then show ?thesis using Some Suc.hyps(1)[OF k, of b'] m by simp
    qed
    also have "\<dots> = put b (off + m) (drop m xs)"
      by (simp add: put_put_at dr)
    finally show ?case .
  qed
  from this[of 0 buf] assms(3) show ?thesis by simp
qed

end
