(* ===== verification/WireHeader.thy ===== *)
theory WireHeader
  imports CMem
begin

text \<open>
  The byte accessors and the message header of the database protocol (cidbmessages.h and the
  header functions of cidbmessages.c): the little-endian setters and getters, the 22-byte
  header written field by field at fixed offsets, and its round trip.
\<close>

section \<open>Accessors of cidbmessages.h\<close>

definition cidb_set_uchar :: "byte list \<Rightarrow> nat \<Rightarrow> u16 \<Rightarrow> byte list option" where
  "cidb_set_uchar dst off val = wr dst off (ucast (val AND 0xff))"

definition cidb_set_ushort :: "byte list \<Rightarrow> nat \<Rightarrow> u16 \<Rightarrow> byte list option" where
  "cidb_set_ushort dst off val = do {
     d \<leftarrow> wr dst off (ucast (val AND 0xff));
     wr d (off + 1) (ucast (drop_bit 8 val AND 0xff)) }"

definition cidb_set_ulong :: "byte list \<Rightarrow> nat \<Rightarrow> u32 \<Rightarrow> byte list option" where
  "cidb_set_ulong dst off val = do {
     d \<leftarrow> wr dst off (ucast (val AND 0xff));
     d \<leftarrow> wr d (off + 1) (ucast (drop_bit 8 val AND 0xff));
     d \<leftarrow> wr d (off + 2) (ucast (drop_bit 16 val AND 0xff));
     wr d (off + 3) (ucast (drop_bit 24 val AND 0xff)) }"

text \<open>The getters are C expressions of type int; their 32 bits are read here as a word.\<close>

definition CIDB_GET_UCHAR :: "byte list \<Rightarrow> nat \<Rightarrow> u32 option" where
  "CIDB_GET_UCHAR dst off = do { a \<leftarrow> rd dst off; Some (ucast a AND 0xff) }"

definition CIDB_GET_USHORT :: "byte list \<Rightarrow> nat \<Rightarrow> u32 option" where
  "CIDB_GET_USHORT dst off = do {
     a \<leftarrow> rd dst off; b \<leftarrow> rd dst (off + 1);
     Some ((ucast a AND 0xff) OR push_bit 8 (ucast b AND 0xff)) }"

definition CIDB_GET_ULONG :: "byte list \<Rightarrow> nat \<Rightarrow> u32 option" where
  "CIDB_GET_ULONG dst off = do {
     a \<leftarrow> rd dst off; b \<leftarrow> rd dst (off + 1); c \<leftarrow> rd dst (off + 2); d \<leftarrow> rd dst (off + 3);
     Some ((ucast a AND 0xff) OR push_bit 8 (ucast b AND 0xff) OR
           push_bit 16 (ucast c AND 0xff) OR push_bit 24 (ucast d AND 0xff)) }"

subsection \<open>What they write and read\<close>

lemma set_uchar_put [mem_write]: "cidb_set_uchar dst off v = put dst off [ucast (v AND 0xff)]"
  by (simp add: cidb_set_uchar_def wr_put)

lemma set_ushort_put [mem_write]: "cidb_set_ushort dst off v = put dst off (le16 v)"
  by (simp add: cidb_set_ushort_def le16_def mem_write)

lemma set_ulong_put [mem_write]: "cidb_set_ulong dst off v = put dst off (le32 v)"
  by (simp add: cidb_set_ulong_def le32_def mem_write)

lemma low_byte: "ucast (ucast (v AND 0xff :: u16) :: byte) = (v AND 0xff)"
  unfolding and_255 by (rule bit_word_eqI) (auto simp: bit_simps)

lemma join_le16:
  "(ucast (ucast (v AND 0xff) :: byte) AND 0xff) OR
     push_bit 8 (ucast (ucast (drop_bit 8 v AND 0xff) :: byte) AND 0xff) = (ucast (v :: u16) :: u32)"
  unfolding and_255 by (rule bit_word_eqI) (auto simp: bit_simps dest: bit_imp_le_length)

lemma join_le32:
  "(ucast (ucast (v AND 0xff) :: byte) AND 0xff) OR
     push_bit 8 (ucast (ucast (drop_bit 8 v AND 0xff) :: byte) AND 0xff) OR
     push_bit 16 (ucast (ucast (drop_bit 16 v AND 0xff) :: byte) AND 0xff) OR
     push_bit 24 (ucast (ucast (drop_bit 24 v AND 0xff) :: byte) AND 0xff) = (v :: u32)"
proof (unfold and_255, rule bit_word_eqI)
  fix n assume "n < LENGTH(32)"
  then consider "n < 8" | "8 \<le> n" "n < 16" | "16 \<le> n" "n < 24" | "24 \<le> n" "n < 32"
    by fastforce
  then show "bit (take_bit 8 (ucast (ucast (take_bit 8 v) :: byte) :: u32) OR
     push_bit 8 (take_bit 8 (ucast (ucast (take_bit 8 (drop_bit 8 v)) :: byte))) OR
     push_bit 16 (take_bit 8 (ucast (ucast (take_bit 8 (drop_bit 16 v)) :: byte))) OR
     push_bit 24 (take_bit 8 (ucast (ucast (take_bit 8 (drop_bit 24 v)) :: byte)))) n = bit v n"
    by cases (auto simp: bit_simps)
qed

lemma get_uchar_at [mem_read]:
  "CIDB_GET_UCHAR (pre @ b # post) (length pre) = Some (ucast b)"
  unfolding CIDB_GET_UCHAR_def and_255
  by (simp add: mem_read) (rule bit_word_eqI, auto simp: bit_simps dest: bit_imp_le_length)

lemma get_ushort_at [mem_read]:
  "CIDB_GET_USHORT (pre @ le16 v @ post) (length pre) = Some (ucast v)"
  using join_le16[of v] rd_at[of pre "le16 v @ post" 1]
  by (simp add: CIDB_GET_USHORT_def mem_read le16_def)

lemma get_ulong_at [mem_read]:
  "CIDB_GET_ULONG (pre @ le32 v @ post) (length pre) = Some v"
  using join_le32[of v] rd_at[of pre "le32 v @ post" 1]
    rd_at[of pre "le32 v @ post" 2] rd_at[of pre "le32 v @ post" 3]
  by (simp add: CIDB_GET_ULONG_def mem_read le32_def eval_nat_numeral)

section \<open>The message header\<close>

record CIDBMsgHeader =
  ClientId :: u16
  msgCommand :: byte
  msgSubcommand :: byte
  msgId :: u32
  msgFlags :: u16
  dataSize :: u32
  partSize :: u32
  h_offset :: u32

text \<open>\<open>data\<close> is NULL or the block it points to.\<close>

record CIDBMsg =
  header :: CIDBMsgHeader
  data :: "byte list option"

abbreviation CIDBMSG_MSG_TOTAL_SIZE :: nat where "CIDBMSG_MSG_TOTAL_SIZE \<equiv> 2048"
abbreviation CIDBMSG_HEADER_SIZE :: nat where "CIDBMSG_HEADER_SIZE \<equiv> 22"
abbreviation CIDBMSG_DATA_SIZE :: nat where "CIDBMSG_DATA_SIZE \<equiv> 2026"

definition cidbmsg_prepare_header ::
  "byte list option \<Rightarrow> CIDBMsgHeader option \<Rightarrow> (byte list option \<times> u32) option" where
  "cidbmsg_prepare_header dst hdr =
     (case dst of
        None \<Rightarrow> Some (None, 0)
      | Some d \<Rightarrow>
          (case hdr of
             None \<Rightarrow> do {
               d \<leftarrow> put d 0 (replicate CIDBMSG_HEADER_SIZE 0);
               Some (Some d, of_nat CIDBMSG_HEADER_SIZE) }
           | Some h \<Rightarrow> do {
               d \<leftarrow> cidb_set_ushort d 0 (ClientId h);
               d \<leftarrow> cidb_set_uchar d 2 (ucast (msgCommand h));
               d \<leftarrow> cidb_set_uchar d 3 (ucast (msgSubcommand h));
               d \<leftarrow> cidb_set_ulong d 4 (msgId h);
               d \<leftarrow> cidb_set_ushort d 8 (msgFlags h);
               d \<leftarrow> cidb_set_ulong d 10 (dataSize h);
               d \<leftarrow> cidb_set_ulong d 14 (partSize h);
               d \<leftarrow> cidb_set_ulong d 18 (h_offset h);
               Some (Some d, of_nat CIDBMSG_HEADER_SIZE) }))"

text \<open>
  \<open>memset(header, 0, 22)\<close> on the C structure: its 24 bytes hold the fields in order with two
  bytes of padding after \<open>msgFlags\<close>, so the memset clears all of them but the two high bytes
  of \<open>offset\<close>.
\<close>

definition memset_header_22 :: "CIDBMsgHeader \<Rightarrow> CIDBMsgHeader" where
  "memset_header_22 h =
     \<lparr>ClientId = 0, msgCommand = 0, msgSubcommand = 0, msgId = 0, msgFlags = 0,
      dataSize = 0, partSize = 0, h_offset = h_offset h AND 0xffff0000\<rparr>"

definition cidbmsg_read_header ::
  "CIDBMsgHeader option \<Rightarrow> byte list option \<Rightarrow> (CIDBMsgHeader option \<times> u32) option" where
  "cidbmsg_read_header hdr src =
     (case hdr of
        None \<Rightarrow> Some (None, 0)
      | Some h \<Rightarrow>
          (case src of
             None \<Rightarrow> Some (Some (memset_header_22 h), of_nat CIDBMSG_HEADER_SIZE)
           | Some s \<Rightarrow> do {
               a \<leftarrow> CIDB_GET_USHORT s 0;
               b \<leftarrow> CIDB_GET_UCHAR s 2;
               c \<leftarrow> CIDB_GET_UCHAR s 3;
               d \<leftarrow> CIDB_GET_ULONG s 4;
               e \<leftarrow> CIDB_GET_USHORT s 8;
               f \<leftarrow> CIDB_GET_ULONG s 10;
               g \<leftarrow> CIDB_GET_ULONG s 14;
               i \<leftarrow> CIDB_GET_ULONG s 18;
               Some (Some \<lparr>ClientId = ucast a, msgCommand = ucast b, msgSubcommand = ucast c,
                           msgId = d, msgFlags = ucast e, dataSize = f, partSize = g, h_offset = i\<rparr>,
                     of_nat CIDBMSG_HEADER_SIZE) }))"

definition cidbmsg_mkmessage ::
  "u16 \<Rightarrow> byte \<Rightarrow> byte \<Rightarrow> u32 \<Rightarrow> CIDBMsgHeader \<Rightarrow> CIDBMsgHeader" where
  "cidbmsg_mkmessage cid command subcommand mid h =
     h\<lparr>ClientId := cid, msgCommand := command, msgSubcommand := subcommand, msgId := mid,
       msgFlags := 0, dataSize := 0, partSize := 0, h_offset := 0\<rparr>"

subsection \<open>The header on the wire\<close>

definition enc_header :: "CIDBMsgHeader \<Rightarrow> byte list" where
  "enc_header h =
     le16 (ClientId h) @ [msgCommand h, msgSubcommand h] @ le32 (msgId h) @ le16 (msgFlags h) @
     le32 (dataSize h) @ le32 (partSize h) @ le32 (h_offset h)"

lemma length_enc_header [simp]: "length (enc_header h) = 22"
  by (simp add: enc_header_def)

lemma low_byte_byte: "ucast (ucast (b :: byte) AND 0xff :: u16) = b"
  unfolding and_255 by (rule bit_word_eqI) (auto simp: bit_simps dest: bit_imp_le_length)

lemma prepare_header_put:
  "cidbmsg_prepare_header (Some d) (Some h)
     = map_option (\<lambda>d. (Some d, 22)) (put d 0 (enc_header h))"
  by (simp add: cidbmsg_prepare_header_def mem_write low_byte_byte enc_header_def
        map_conv_bind_option o_def)

lemma prepare_header_null:
  "cidbmsg_prepare_header None h = Some (None, 0)"
  by (simp add: cidbmsg_prepare_header_def)

lemma read_header_enc:
  "cidbmsg_read_header (Some h0) (Some (enc_header h @ post)) = Some (Some h, 22)"
proof -
  let ?A = "le16 (ClientId h)" and ?B = "[msgCommand h]" and ?C = "[msgSubcommand h]"
    and ?D = "le32 (msgId h)" and ?E = "le16 (msgFlags h)" and ?F = "le32 (dataSize h)"
    and ?G = "le32 (partSize h)" and ?H = "le32 (h_offset h)"
  let ?w = "enc_header h @ post"
  have w: "?w = ?A @ ?B @ ?C @ ?D @ ?E @ ?F @ ?G @ ?H @ post"
    by (simp add: enc_header_def)
  have "CIDB_GET_USHORT ?w 0 = Some (ucast (ClientId h))"
    using get_ushort_at[of "[]" "ClientId h"] by (simp add: w)
  moreover have "CIDB_GET_UCHAR ?w 2 = Some (ucast (msgCommand h))"
    using get_uchar_at[of ?A "msgCommand h"] by (simp add: w)
  moreover have "CIDB_GET_UCHAR ?w 3 = Some (ucast (msgSubcommand h))"
    using get_uchar_at[of "?A @ ?B" "msgSubcommand h"] by (simp add: w)
  moreover have "CIDB_GET_ULONG ?w 4 = Some (msgId h)"
    using get_ulong_at[of "?A @ ?B @ ?C" "msgId h"] by (simp add: w)
  moreover have "CIDB_GET_USHORT ?w 8 = Some (ucast (msgFlags h))"
    using get_ushort_at[of "?A @ ?B @ ?C @ ?D" "msgFlags h"] by (simp add: w)
  moreover have "CIDB_GET_ULONG ?w 10 = Some (dataSize h)"
    using get_ulong_at[of "?A @ ?B @ ?C @ ?D @ ?E" "dataSize h"] by (simp add: w)
  moreover have "CIDB_GET_ULONG ?w 14 = Some (partSize h)"
    using get_ulong_at[of "?A @ ?B @ ?C @ ?D @ ?E @ ?F" "partSize h"] by (simp add: w)
  moreover have "CIDB_GET_ULONG ?w 18 = Some (h_offset h)"
    using get_ulong_at[of "?A @ ?B @ ?C @ ?D @ ?E @ ?F @ ?G" "h_offset h"] by (simp add: w)
  ultimately show ?thesis
    by (simp add: cidbmsg_read_header_def del: length_enc_header)
qed

section \<open>Properties\<close>

text \<open>
  \<open>cidbmsg_prepare_header\<close> and \<open>cidbmsg_read_header\<close> are inverse: in a buffer of at least 22
  bytes the writer changes exactly the first 22, and the reader, whatever its structure held,
  gets every field back at its full width.
\<close>

theorem header_roundtrip:
  assumes "CIDBMSG_HEADER_SIZE \<le> length d"
  shows "\<exists>d'. cidbmsg_prepare_header (Some d) (Some h) = Some (Some d', 22) \<and>
    drop CIDBMSG_HEADER_SIZE d' = drop CIDBMSG_HEADER_SIZE d \<and> length d' = length d \<and>
    cidbmsg_read_header (Some h0) (Some d') = Some (Some h, 22)"
proof -
  have "put d 0 (enc_header h) = Some (enc_header h @ drop 22 d)"
    using assms by (simp add: put_def)
  then show ?thesis using assms by (simp add: prepare_header_put read_header_enc)
qed

definition sample_header :: CIDBMsgHeader where
  "sample_header = \<lparr>ClientId = 0x1234, msgCommand = 3, msgSubcommand = 0x80, msgId = 0xdeadbeef,
     msgFlags = 0xffff, dataSize = 7, partSize = 7, h_offset = 0x80000000\<rparr>"

theorem header_roundtrip_witness:
  "\<exists>d'. cidbmsg_prepare_header (Some (replicate 30 0xee)) (Some sample_header) = Some (Some d', 22) \<and>
    drop CIDBMSG_HEADER_SIZE d' = drop CIDBMSG_HEADER_SIZE (replicate 30 0xee) \<and>
    length d' = length (replicate 30 (0xee :: byte)) \<and>
    cidbmsg_read_header (Some (memset_header_22 sample_header)) (Some d') = Some (Some sample_header, 22)"
  by (rule header_roundtrip) simp

end
