(* ===== verification/WireString.thy ===== *)
theory WireString
  imports WireHeader
begin

text \<open>
  Strings of the database protocol (cidbmessages.c): a one-byte length, or 255 and two more
  bytes when the string is longer, then the bytes. The locales \<open>wire_writer\<close> and
  \<open>wire_codec\<close> state what the message code relies on: a writer puts an encoding at the
  position it is given and returns its size, a reader finds the value there again. The loops
  over string lists and table cells are proved once for every codec.
\<close>

section \<open>The code\<close>

definition cidbmsg_strlen :: "byte list \<Rightarrow> nat \<Rightarrow> (u16 \<times> u32) option" where
  "cidbmsg_strlen msg p = do {
     len \<leftarrow> CIDB_GET_UCHAR msg p;
     if (ucast len :: u16) = 255
     then do { len \<leftarrow> CIDB_GET_USHORT msg (p + 1); Some (ucast len, 3) }
     else Some (ucast len, 1) }"

definition cidbmsg_set_strlen :: "byte list \<Rightarrow> nat \<Rightarrow> u16 \<Rightarrow> (byte list \<times> u32) option" where
  "cidbmsg_set_strlen msg p len =
     (if 255 \<le> len
      then do {
        msg \<leftarrow> cidb_set_uchar msg p 0xff;
        msg \<leftarrow> cidb_set_ushort msg (p + 1) len;
        Some (msg, 3) }
      else do {
        msg \<leftarrow> cidb_set_uchar msg p len;
        Some (msg, 1) })"

definition cidbmsg_read_str :: "allocator \<Rightarrow> byte list \<Rightarrow> nat \<Rightarrow> u16 \<Rightarrow> cptr option" where
  "cidbmsg_read_str env msg p len =
     (if \<not> alloc_ok env (unat len + 1) then Some Null
      else do {
        buffer \<leftarrow> for_n 0 (unat len) (\<lambda>k buffer. do { c \<leftarrow> rd msg (p + k); wr buffer k c })
                    (heap_block env (unat len + 1));
        buffer \<leftarrow> wr buffer (unat len) 0;
        Some (Str (take (unat len) buffer)) })"

text \<open>\<open>strlen\<close> assigned to an \<open>unsigned short\<close>, with NULL read as the empty string.\<close>

definition strlen_or_0 :: "cptr \<Rightarrow> u16 option" where
  "strlen_or_0 p = (if p = Null then Some 0 else map_option of_nat (cstrlen p))"

definition cidbmsg_write_string :: "byte list \<Rightarrow> nat \<Rightarrow> cptr \<Rightarrow> (byte list \<times> u32) option" where
  "cidbmsg_write_string msg p str = do {
     len \<leftarrow> strlen_or_0 str;
     (msg, bytes) \<leftarrow> cidbmsg_set_strlen msg p len;
     for_n 0 (unat len)
       (\<lambda>i (msg, bytes). do {
          c \<leftarrow> cptr_rd str i;
          msg \<leftarrow> wr msg (p + unat bytes) c;
          Some (msg, bytes + 1) })
       (msg, bytes) }"

text \<open>
  \<open>want\<close> says whether the caller passes a place for the string (\<open>str\<close> not NULL); the
  result is the string stored there and the number of bytes read.
\<close>

definition cidbmsg_read_string ::
  "allocator \<Rightarrow> byte list option \<Rightarrow> nat \<Rightarrow> bool \<Rightarrow> (cptr option \<times> u32) option" where
  "cidbmsg_read_string env msg p want =
     (case msg of
        None \<Rightarrow> Some (None, 0)
      | Some msg \<Rightarrow> do {
          (len, bytes) \<leftarrow> cidbmsg_strlen msg p;
          if want
          then if \<not> alloc_ok env (unat len + 1) then None
            else do {
              (str, bytes) \<leftarrow> for_n 0 (unat len)
                 (\<lambda>i (str, bytes). do {
                    c \<leftarrow> rd msg (p + unat bytes);
                    str \<leftarrow> wr str i c;
                    Some (str, bytes + 1) })
                 (heap_block env (unat len + 1), bytes);
              str \<leftarrow> wr str (unat len) 0;
              Some (Some (Str (take (unat len) str)), bytes) }
          else Some (None, bytes + ucast len) })"

section \<open>The encoding\<close>

definition enc_len :: "nat \<Rightarrow> byte list" where
  "enc_len n = (if 255 \<le> n then 255 # le16 (of_nat n) else [of_nat n])"

definition enc_str :: "byte list \<Rightarrow> byte list" where
  "enc_str s = enc_len (length s) @ s"

text \<open>The bytes a pointer stands for when it is sent, and what the receiver holds for it.\<close>

definition sent_bytes :: "cptr \<Rightarrow> byte list" where
  "sent_bytes p = (case p of Str s \<Rightarrow> cbytes s | _ \<Rightarrow> [])"

definition enc_cptr :: "cptr \<Rightarrow> byte list" where
  "enc_cptr p = enc_str (sent_bytes p)"

definition received :: "cptr \<Rightarrow> cptr" where
  "received p = Str (sent_bytes p)"

definition sendable :: "cptr \<Rightarrow> bool" where
  "sendable p \<longleftrightarrow> p \<noteq> Uninit \<and> length (sent_bytes p) < 2 ^ 16"

definition receivable :: "allocator \<Rightarrow> cptr \<Rightarrow> bool" where
  "receivable env p \<longleftrightarrow> sendable p \<and> alloc_ok env (length (sent_bytes p) + 1)"

lemma length_enc_len: "length (enc_len n) = (if 255 \<le> n then 3 else 1)"
  by (simp add: enc_len_def)

lemma length_enc_str: "length (enc_str s) = (if 255 \<le> length s then 3 else 1) + length s"
  by (simp add: enc_str_def length_enc_len)

lemma length_enc_len_le: "length (enc_len n) \<le> 3"
  by (simp add: length_enc_len)

subsection \<open>Lengths\<close>

lemma u16_ge_255: "n < 2 ^ 16 \<Longrightarrow> 255 \<le> (of_nat n :: u16) \<longleftrightarrow> 255 \<le> n"
  by (simp add: word_le_nat_alt unat_of_nat_small)

lemma set_strlen_put:
  assumes "n < 2 ^ 16"
  shows "cidbmsg_set_strlen msg p (of_nat n)
           = map_option (\<lambda>m. (m, of_nat (length (enc_len n)))) (put msg p (enc_len n))"
proof (cases "255 \<le> n")
  case True
  then show ?thesis using assms
    by (simp add: cidbmsg_set_strlen_def u16_ge_255 mem_write enc_len_def map_conv_bind_option o_def)
next
  case False
  then have "ucast ((of_nat n :: u16) AND 0xff) = (of_nat n :: byte)"
    unfolding and_255 by (intro bit_word_eqI) (auto simp: bit_simps)
  then show ?thesis using assms False
    by (simp add: cidbmsg_set_strlen_def u16_ge_255 mem_write enc_len_def map_conv_bind_option o_def)
qed

lemma strlen_enc_len:
  assumes "n < 2 ^ 16"
  shows "cidbmsg_strlen (pre @ enc_len n @ post) (length pre)
           = Some (of_nat n, of_nat (length (enc_len n)))"
proof (cases "255 \<le> n")
  case True
  then show ?thesis using assms get_uchar_at[of pre 255 "le16 (of_nat n) @ post"]
      get_ushort_at[of "pre @ [255]" "of_nat n" post]
    by (simp add: cidbmsg_strlen_def enc_len_def)
next
  case False
  then have "take_bit 8 n = n" by (simp add: take_bit_nat_eq_self_iff)
  then have "bit n k \<longleftrightarrow> k < 8 \<and> bit n k" for k
    by (metis bit_take_bit_iff)
  then have "ucast (ucast (of_nat n :: byte) :: u32) = (of_nat n :: u16)"
    by (intro bit_word_eqI) (auto simp: bit_simps)
  moreover have "(of_nat n :: u16) \<noteq> 255"
    using u16_ge_255[OF assms] False by auto
  ultimately show ?thesis using False get_uchar_at[of pre "of_nat n" post]
    by (simp add: cidbmsg_strlen_def enc_len_def)
qed

section \<open>Codecs\<close>

text \<open>
  What the message code expects of a routine that writes one value at a position, and of the
  pair of a writer and a reader. \<open>view\<close> is what the reader finds for a written value.
\<close>

locale wire_writer =
  fixes enc :: "'a \<Rightarrow> byte list"
    and writes :: "byte list \<Rightarrow> nat \<Rightarrow> 'a \<Rightarrow> (byte list \<times> u32) option"
    and writable :: "'a \<Rightarrow> bool"
  assumes writes_put: "writable a \<Longrightarrow>
    writes buf off a = map_option (\<lambda>b. (b, of_nat (length (enc a)))) (put buf off (enc a))"
begin

definition write_step :: "nat \<Rightarrow> 'a list \<Rightarrow> nat \<Rightarrow> byte list \<times> u32 \<Rightarrow> (byte list \<times> u32) option" where
  "write_step base arr i = (\<lambda>(m, pos). do {
     x \<leftarrow> rd arr i; (m, k) \<leftarrow> writes m (base + unat pos) x; Some (m, pos + k) })"

lemma write_from:
  assumes "\<forall>x \<in> set xs. writable x" and "unat pos + length (concat (map enc xs)) < 2 ^ 32"
    and "base + unat pos \<le> length m"
  shows "for_n (length done) (length xs) (write_step base (done @ xs)) (m, pos)
     = map_option (\<lambda>m. (m, pos + of_nat (length (concat (map enc xs))))) (put m (base + unat pos) (concat (map enc xs)))"
  using assms
proof (induction xs arbitrary: "done" m pos)
  case Nil
  then show ?case by (simp add: put_Nil)
next
  case (Cons x xs)
  have pos: "unat (pos + of_nat (length (enc x))) = unat pos + length (enc x)"
    by (rule unat_add_of_nat) (use Cons.prems(2) in simp)
  have step: "write_step base (done @ x # xs) (length done) (m, pos)
    = map_option (\<lambda>b. (b, pos + of_nat (length (enc x)))) (put m (base + unat pos) (enc x))"
    using Cons.prems(1) by (simp add: write_step_def mem_read writes_put map_conv_bind_option o_def)
  show ?case
  proof (cases "put m (base + unat pos) (enc x)")
    case None
    then have "put m (base + unat pos) (concat (map enc (x # xs))) = None"
      by (simp add: put_None_iff)
    then show ?thesis using None by (simp add: step)
  next
    case (Some b)
    have "for_n (length (done @ [x])) (length xs) (write_step base ((done @ [x]) @ xs))
        (b, pos + of_nat (length (enc x)))
      = map_option (\<lambda>m. (m, pos + of_nat (length (enc x)) + of_nat (length (concat (map enc xs)))))
          (put b (base + unat pos + length (enc x)) (concat (map enc xs)))"
      using Cons.IH[of "pos + of_nat (length (enc x))" b "done @ [x]"] Cons.prems pos
        put_take_drop[OF Some] put_length[OF Some] by (simp add: add.assoc)
    moreover have "put b (base + unat pos + length (enc x)) (concat (map enc xs)) = put m (base + unat pos) (concat (map enc (x # xs)))"
      using put_put[of m "base + unat pos" "enc x" "concat (map enc xs)"] Some by simp
    ultimately show ?thesis
      using Some by (simp add: step add.assoc)
  qed
qed

lemma write_all:
  assumes "\<forall>x \<in> set xs. writable x" and "unat pos + length (concat (map enc xs)) < 2 ^ 32"
    and "base + unat pos \<le> length m"
  shows "for_n 0 (length xs) (write_step base xs) (m, pos)
     = map_option (\<lambda>m. (m, pos + of_nat (length (concat (map enc xs))))) (put m (base + unat pos) (concat (map enc xs)))"
  using write_from[OF assms, of "[]"] by simp

end

locale wire_codec = wire_writer +
  fixes reads :: "byte list \<Rightarrow> nat \<Rightarrow> ('a \<times> u32) option"
    and readable :: "'a \<Rightarrow> bool"
    and view :: "'a \<Rightarrow> 'a"
  assumes reads_enc: "readable a \<Longrightarrow>
    reads (pre @ enc a @ post) (length pre) = Some (view a, of_nat (length (enc a)))"
begin

definition read_step :: "nat \<Rightarrow> byte list \<Rightarrow> nat \<Rightarrow> 'a list \<times> u32 \<Rightarrow> ('a list \<times> u32) option" where
  "read_step base buf i = (\<lambda>(arr, pos). do {
     (x, k) \<leftarrow> reads buf (base + unat pos); arr \<leftarrow> wr arr i x; Some (arr, pos + k) })"

lemma read_from:
  assumes "\<forall>x \<in> set xs. readable x" and "base + unat pos = length pre"
    and "unat pos + length (concat (map enc xs)) < 2 ^ 32"
    and "length arr = i + length xs"
  shows "for_n i (length xs) (read_step base (pre @ concat (map enc xs) @ post)) (arr, pos)
     = Some (take i arr @ map view xs, pos + of_nat (length (concat (map enc xs))))"
  using assms
proof (induction xs arbitrary: i pre pos arr)
  case Nil
  then show ?case by simp
next
  case (Cons x xs)
  have pos: "unat (pos + of_nat (length (enc x))) = unat pos + length (enc x)"
    using unat_add_of_nat[of pos "length (enc x)"] Cons.prems(2,3) by simp
  have "read_step base (pre @ concat (map enc (x # xs)) @ post) i (arr, pos)
    = Some (arr[i := view x], pos + of_nat (length (enc x)))"
    using Cons.prems(1,2,4) reads_enc[of x pre "concat (map enc xs) @ post"]
    by (simp add: read_step_def wr_def)
  moreover have "for_n (Suc i) (length xs) (read_step base ((pre @ enc x) @ concat (map enc xs) @ post))
      (arr[i := view x], pos + of_nat (length (enc x)))
    = Some (take (Suc i) (arr[i := view x]) @ map view xs,
        pos + of_nat (length (enc x)) + of_nat (length (concat (map enc xs))))"
    by (rule Cons.IH) (use Cons.prems pos in auto)
  moreover have "take (Suc i) (arr[i := view x]) = take i arr @ [view x]"
    using Cons.prems(4) by (simp add: take_Suc_conv_app_nth)
  ultimately show ?case by (simp add: add.assoc)
qed

lemma read_all:
  assumes "\<forall>x \<in> set xs. readable x" and "base + unat pos = length pre"
    and "unat pos + length (concat (map enc xs)) < 2 ^ 32" and "length arr = length xs"
  shows "for_n 0 (length xs) (read_step base (pre @ concat (map enc xs) @ post)) (arr, pos)
     = Some (map view xs, pos + of_nat (length (concat (map enc xs))))"
  using read_from[OF assms(1-3), of arr 0 post] assms(4) by simp

end

section \<open>The string routines are codecs\<close>

lemma strlen_or_0_sendable:
  "sendable p \<Longrightarrow> strlen_or_0 p = Some (of_nat (length (sent_bytes p)))"
  by (cases p) (auto simp: strlen_or_0_def sendable_def sent_bytes_def cstrlen_def)

lemma cptr_rd_sent:
  assumes "i < length (sent_bytes p)"
  shows "cptr_rd p i = Some (sent_bytes p ! i)"
proof (cases p)
  case (Str s)
  then have i: "i < length (cbytes s)" using assms by (simp add: sent_bytes_def)
  then have "i < length s" using length_cbytes_le[of s] by simp
  then show ?thesis using Str nth_cbytes[OF i]
    by (simp add: cptr_rd_def sent_bytes_def rd_def nth_append)
qed (use assms in \<open>auto simp: sent_bytes_def\<close>)

lemma unat_len_of_sendable:
  "sendable p \<Longrightarrow> unat (of_nat (length (sent_bytes p)) :: u16) = length (sent_bytes p)"
  by (rule unat_of_nat_small) (simp add: sendable_def)

text \<open>The byte loop of \<open>cidbmsg_write_string\<close>, its position kept in a 32-bit word.\<close>

lemma write_bytes_loop:
  fixes b :: u32
  assumes "\<And>j. j < length xs \<Longrightarrow> g (i + j) = Some (xs ! j)"
    and "unat b + length xs < 2 ^ 32" and "p + unat b \<le> length m"
  shows "for_n i (length xs)
      (\<lambda>i (msg, bytes). do { c \<leftarrow> g i; msg \<leftarrow> wr msg (p + unat bytes) c; Some (msg, bytes + 1) })
      (m, b)
    = map_option (\<lambda>m. (m, b + of_nat (length xs))) (put m (p + unat b) xs)"
  using assms
proof (induction xs arbitrary: i m b)
  case Nil
  then show ?case by (simp add: put_Nil)
next
  case (Cons x xs)
  have g0: "g i = Some x" using Cons.prems(1)[of 0] by simp
  have b1: "unat (b + 1) = unat b + 1"
    using unat_add_of_nat[of b 1] Cons.prems(2) by simp
  show ?case
  proof (cases "put m (p + unat b) [x]")
    case None
    then have "put m (p + unat b) (x # xs) = None" by (simp add: put_None_iff)
    then show ?thesis using None by (simp add: g0 wr_put)
  next
    case (Some m')
    have IH: "for_n (Suc i) (length xs)
        (\<lambda>i (msg, bytes). do { c \<leftarrow> g i; msg \<leftarrow> wr msg (p + unat bytes) c; Some (msg, bytes + 1) })
        (m', b + 1)
      = map_option (\<lambda>m. (m, b + 1 + of_nat (length xs))) (put m' (p + unat (b + 1)) xs)"
    proof (rule Cons.IH)
      fix j assume "j < length xs"
      then show "g (Suc i + j) = Some (xs ! j)" using Cons.prems(1)[of "Suc j"] by simp
    qed (use Cons.prems b1 put_take_drop[OF Some] put_length[OF Some] in auto)
    have "put m' (p + unat (b + 1)) xs = put m (p + unat b) (x # xs)"
      using put_put[of m "p + unat b" "[x]" xs] Some b1 by (simp add: add.assoc)
    then show ?thesis using Some IH by (simp add: g0 wr_put add.assoc)
  qed
qed

lemma write_string_put:
  assumes "sendable s"
  shows "cidbmsg_write_string m p s
     = map_option (\<lambda>m. (m, of_nat (length (enc_cptr s)))) (put m p (enc_cptr s))"
proof -
  let ?xs = "sent_bytes s" and ?h = "enc_len (length (sent_bytes s))"
  have n: "length ?xs < 2 ^ 16"
    using assms by (simp add: sendable_def)
  have h: "unat (of_nat (length ?h) :: u32) = length ?h"
    by (rule unat_of_nat_small) (use length_enc_len_le[of "length ?xs"] in simp)
  show ?thesis
  proof (cases "put m p ?h")
    case None
    then have "put m p (enc_cptr s) = None"
      by (simp add: put_None_iff enc_cptr_def enc_str_def)
    then show ?thesis using None n
      by (simp add: cidbmsg_write_string_def strlen_or_0_sendable[OF assms] set_strlen_put)
  next
    case (Some m')
    have "for_n 0 (length ?xs)
      (\<lambda>i (msg, bytes). do { c \<leftarrow> cptr_rd s i; msg \<leftarrow> wr msg (p + unat bytes) c; Some (msg, bytes + 1) })
      (m', of_nat (length ?h) :: u32)
     = map_option (\<lambda>m. (m, of_nat (length ?h) + of_nat (length ?xs)))
        (put m' (p + length ?h) ?xs)"
    proof -
      have "unat (of_nat (length ?h) :: u32) + length ?xs < 2 ^ 32"
        unfolding h using n length_enc_len_le[of "length ?xs"] by simp
      moreover have "p + unat (of_nat (length ?h) :: u32) \<le> length m'"
        unfolding h using put_take_drop[OF Some] put_length[OF Some] by simp
      ultimately show ?thesis
        using write_bytes_loop[of ?xs "cptr_rd s" 0 "of_nat (length ?h)" p m']
          cptr_rd_sent[of _ s] unfolding h by simp
    qed
    moreover have "put m' (p + length ?h) ?xs = put m p (enc_cptr s)"
      using put_put[of m p ?h ?xs] Some by (simp add: enc_cptr_def enc_str_def)
    ultimately show ?thesis using Some n
      by (simp add: cidbmsg_write_string_def strlen_or_0_sendable[OF assms] set_strlen_put
          unat_len_of_sendable[OF assms] enc_cptr_def enc_str_def)
  qed
qed

subsection \<open>Reading\<close>

lemma read_bytes_loop:
  fixes b :: u32
  assumes "p + unat b = length pre" and "unat b + length xs < 2 ^ 32"
    and "i + length xs \<le> length arr"
  shows "for_n i (length xs)
      (\<lambda>i (str, bytes). do {
         c \<leftarrow> rd (pre @ xs @ post) (p + unat bytes); str \<leftarrow> wr str i c; Some (str, bytes + 1) })
      (arr, b)
    = Some (take i arr @ xs @ drop (i + length xs) arr, b + of_nat (length xs))"
  using assms
proof (induction xs arbitrary: i arr b pre)
  case Nil
  then show ?case by simp
next
  case (Cons x xs)
  have b1: "unat (b + 1) = unat b + 1"
    using unat_add_of_nat[of b 1] Cons.prems(2) by simp
  have "rd (pre @ (x # xs) @ post) (p + unat b) = Some x"
    by (simp add: Cons.prems(1) mem_read)
  moreover have "wr arr i x = Some (arr[i := x])"
    using Cons.prems(3) by (simp add: wr_def)
  moreover have "for_n (Suc i) (length xs)
      (\<lambda>i (str, bytes). do {
         c \<leftarrow> rd ((pre @ [x]) @ xs @ post) (p + unat bytes); str \<leftarrow> wr str i c; Some (str, bytes + 1) })
      (arr[i := x], b + 1)
    = Some (take (Suc i) (arr[i := x]) @ xs @ drop (Suc i + length xs) (arr[i := x]),
            b + 1 + of_nat (length xs))"
    by (rule Cons.IH) (use Cons.prems b1 in auto)
  moreover have "take (Suc i) (arr[i := x]) = take i arr @ [x]"
    using Cons.prems(3) by (simp add: take_Suc_conv_app_nth)
  ultimately show ?case by (simp add: add.assoc)
qed

lemma read_string_enc:
  assumes "receivable env s"
  shows "cidbmsg_read_string env (Some (pre @ enc_cptr s @ post)) (length pre) True
     = Some (Some (received s), of_nat (length (enc_cptr s)))"
proof -
  let ?xs = "sent_bytes s" and ?h = "enc_len (length (sent_bytes s))"
  have s: "sendable s" and al: "alloc_ok env (length ?xs + 1)"
    using assms by (auto simp: receivable_def)
  have n: "length ?xs < 2 ^ 16" using s by (simp add: sendable_def)
  have h: "unat (of_nat (length ?h) :: u32) = length ?h"
    by (rule unat_of_nat_small) (use length_enc_len_le[of "length ?xs"] in simp)
  have len: "cidbmsg_strlen (pre @ enc_cptr s @ post) (length pre)
      = Some (of_nat (length ?xs), of_nat (length ?h))"
    using strlen_enc_len[OF n, of pre "?xs @ post"] by (simp add: enc_cptr_def enc_str_def)
  have "for_n 0 (length ?xs)
      (\<lambda>i (str, bytes). do {
         c \<leftarrow> rd ((pre @ ?h) @ ?xs @ post) (length pre + unat bytes);
         str \<leftarrow> wr str i c; Some (str, bytes + 1) })
      (heap_block env (length ?xs + 1), of_nat (length ?h) :: u32)
    = Some (take 0 (heap_block env (length ?xs + 1)) @ ?xs
             @ drop (0 + length ?xs) (heap_block env (length ?xs + 1)),
            of_nat (length ?h) + of_nat (length ?xs))"
    by (rule read_bytes_loop) (use h n length_enc_len_le[of "length ?xs"] in auto)
  moreover have "wr (?xs @ drop (length ?xs) (heap_block env (length ?xs + 1))) (length ?xs) 0
     = Some ((?xs @ drop (length ?xs) (heap_block env (length ?xs + 1)))[length ?xs := 0])"
    by (simp add: wr_def)
  ultimately show ?thesis
    using al unat_len_of_sendable[OF s] len
    by (simp add: cidbmsg_read_string_def received_def enc_cptr_def enc_str_def)
qed

lemma read_str_enc:
  assumes "alloc_ok env (length xs + 1)" and "length xs < 2 ^ 16"
  shows "cidbmsg_read_str env (pre @ xs @ post) (length pre) (of_nat (length xs)) = Some (Str xs)"
proof -
  have "for_n 0 (length xs) (\<lambda>k b. do { c \<leftarrow> rd (pre @ xs @ post) (length pre + k); wr b (0 + (k - 0)) c })
      (heap_block env (length xs + 1)) = put (heap_block env (length xs + 1)) 0 xs"
    by (rule for_n_writes) (auto simp: rd_def nth_append)
  moreover have "wr (xs @ drop (length xs) (heap_block env (length xs + 1))) (length xs) 0
     = Some ((xs @ drop (length xs) (heap_block env (length xs + 1)))[length xs := 0])"
    by (simp add: wr_def)
  ultimately show ?thesis using assms
    by (simp add: cidbmsg_read_str_def unat_of_nat_small put_def)
qed

section \<open>The two codecs of the message code\<close>

text \<open>
  \<open>cidbmsg_read_string(&data[pos], &stringlist[i])\<close>: the place is never NULL. A table cell is
  written with \<open>_cidbmsg_set_strlen\<close> and \<open>memcpy\<close> and read with \<open>_cidbmsg_strlen\<close> and
  \<open>_cidbmsg_read_str\<close>.
\<close>

definition read_string_into :: "allocator \<Rightarrow> byte list \<Rightarrow> nat \<Rightarrow> (cptr \<times> u32) option" where
  "read_string_into env msg p = do {
     (s, bytes) \<leftarrow> cidbmsg_read_string env (Some msg) p True;
     str \<leftarrow> s;
     Some (str, bytes) }"

definition write_cell :: "byte list \<Rightarrow> nat \<Rightarrow> cptr \<Rightarrow> (byte list \<times> u32) option" where
  "write_cell msg p cell = do {
     len \<leftarrow> strlen_or_0 cell;
     (msg, k) \<leftarrow> cidbmsg_set_strlen msg p len;
     msg \<leftarrow> (if cell \<noteq> Null
            then do { s \<leftarrow> cptr_slice cell (unat len); put msg (p + unat k) s }
            else Some msg);
     Some (msg, k + ucast len) }"

definition read_cell :: "allocator \<Rightarrow> byte list \<Rightarrow> nat \<Rightarrow> (cptr \<times> u32) option" where
  "read_cell env msg p = do {
     (len, off) \<leftarrow> cidbmsg_strlen msg p;
     s \<leftarrow> cidbmsg_read_str env msg (p + unat off) len;
     Some (s, off + ucast len) }"

lemma ucast_of_nat_u16: "n < 2 ^ 16 \<Longrightarrow> (ucast (of_nat n :: u16) :: u32) = of_nat n"
  by (simp add: unsigned_of_nat take_bit_nat_eq_self)

lemma write_cell_put:
  assumes "sendable s"
  shows "write_cell m p s = map_option (\<lambda>m. (m, of_nat (length (enc_cptr s)))) (put m p (enc_cptr s))"
proof -
  let ?xs = "sent_bytes s" and ?h = "enc_len (length (sent_bytes s))"
  have n: "length ?xs < 2 ^ 16" using assms by (simp add: sendable_def)
  have h: "unat (of_nat (length ?h) :: u32) = length ?h"
    by (rule unat_of_nat_small) (use length_enc_len_le[of "length ?xs"] in simp)
  have body: "(if s \<noteq> Null
       then do { c \<leftarrow> cptr_slice s (unat (of_nat (length ?xs) :: u16));
                 put m' (p + unat (of_nat (length ?h) :: u32)) c }
       else Some m') = put m' (p + length ?h) ?xs" if "p + length ?h \<le> length m'" for m'
    using that assms unfolding h unat_len_of_sendable[OF assms]
    by (cases s) (auto simp: sent_bytes_def sendable_def mem_read put_Nil)
  show ?thesis
  proof (cases "put m p ?h")
    case None
    then have "put m p (enc_cptr s) = None"
      by (simp add: put_None_iff enc_cptr_def enc_str_def)
    then show ?thesis using None n
      by (simp add: write_cell_def strlen_or_0_sendable[OF assms] set_strlen_put)
  next
    case (Some m')
    have "put m' (p + length ?h) ?xs = put m p (enc_cptr s)"
      using put_put[of m p ?h ?xs] Some by (simp add: enc_cptr_def enc_str_def)
    moreover have "p + length ?h \<le> length m'"
      using put_take_drop[OF Some] put_length[OF Some] by simp
    ultimately show ?thesis using Some n body[of m']
      by (simp add: write_cell_def strlen_or_0_sendable[OF assms] set_strlen_put
          ucast_of_nat_u16 enc_cptr_def enc_str_def
          map_conv_bind_option o_def split del: if_split)
  qed
qed

lemma read_cell_enc:
  assumes "receivable env s"
  shows "read_cell env (pre @ enc_cptr s @ post) (length pre)
     = Some (received s, of_nat (length (enc_cptr s)))"
proof -
  let ?xs = "sent_bytes s" and ?h = "enc_len (length (sent_bytes s))"
  have n: "length ?xs < 2 ^ 16" and al: "alloc_ok env (length ?xs + 1)"
    using assms by (auto simp: receivable_def sendable_def)
  have h: "unat (of_nat (length ?h) :: u32) = length ?h"
    by (rule unat_of_nat_small) (use length_enc_len_le[of "length ?xs"] in simp)
  have "cidbmsg_strlen (pre @ enc_cptr s @ post) (length pre)
      = Some (of_nat (length ?xs), of_nat (length ?h))"
    using strlen_enc_len[OF n, of pre "?xs @ post"] by (simp add: enc_cptr_def enc_str_def)
  moreover have "cidbmsg_read_str env (pre @ enc_cptr s @ post) (length pre + length ?h)
      (of_nat (length ?xs)) = Some (Str ?xs)"
    using read_str_enc[OF al n, of "pre @ ?h" post] by (simp add: enc_cptr_def enc_str_def)
  ultimately show ?thesis
    using h n by (simp add: read_cell_def ucast_of_nat_u16 received_def enc_cptr_def enc_str_def)
qed

interpretation str_codec: wire_codec enc_cptr cidbmsg_write_string sendable
    "read_string_into env" "receivable env" received for env
  by unfold_locales (simp_all add: write_string_put read_string_into_def read_string_enc)

interpretation cell_codec: wire_codec enc_cptr write_cell sendable
    "read_cell env" "receivable env" received for env
  by unfold_locales (simp_all add: write_cell_put read_cell_enc)

section \<open>Properties\<close>

text \<open>
  A string of up to 65535 bytes written with \<open>cidbmsg_write_string\<close> at a position of a
  message with room for it is found there by \<open>cidbmsg_read_string\<close>: both advance by the same
  number of bytes, the writer changes nothing outside them, and the reader's copy holds the
  bytes up to the terminating zero (NULL arrives as the empty string). The switch to the
  three-byte length at 255 is included.
\<close>

theorem string_roundtrip:
  assumes "receivable env s" and "p + length (enc_cptr s) \<le> length m"
  shows "\<exists>m'. cidbmsg_write_string m p s = Some (m', of_nat (length (enc_cptr s))) \<and>
    cidbmsg_read_string env (Some m') p True
      = Some (Some (Str (sent_bytes s)), of_nat (length (enc_cptr s))) \<and>
    take p m' = take p m \<and>
    drop (p + length (enc_cptr s)) m' = drop (p + length (enc_cptr s)) m"
proof -
  let ?m = "take p m @ enc_cptr s @ drop (p + length (enc_cptr s)) m"
  have "sendable s" using assms(1) by (simp add: receivable_def)
  moreover have "put m p (enc_cptr s) = Some ?m" using assms(2) by (simp add: put_def)
  ultimately have "cidbmsg_write_string m p s = Some (?m, of_nat (length (enc_cptr s)))"
    by (simp add: write_string_put)
  moreover have "cidbmsg_read_string env (Some ?m) p True
      = Some (Some (Str (sent_bytes s)), of_nat (length (enc_cptr s)))"
    using read_string_enc[OF assms(1), of "take p m"] assms(2) by (simp add: received_def)
  ultimately show ?thesis using assms(2) by auto
qed

theorem string_roundtrip_witness:
  "\<exists>m'. cidbmsg_write_string (replicate 400 0) 5 (Str (replicate 300 65))
      = Some (m', of_nat (length (enc_cptr (Str (replicate 300 65))))) \<and>
    cidbmsg_read_string \<lparr>alloc_ok = \<lambda>_. True, garbage = \<lambda>_. 1\<rparr> (Some m') 5 True
      = Some (Some (Str (sent_bytes (Str (replicate 300 65)))),
              of_nat (length (enc_cptr (Str (replicate 300 65))))) \<and>
    take 5 m' = take 5 (replicate 400 0) \<and>
    drop (5 + length (enc_cptr (Str (replicate 300 65)))) m'
      = drop (5 + length (enc_cptr (Str (replicate 300 65)))) (replicate 400 0)"
  by (rule string_roundtrip)
     (simp_all add: receivable_def sendable_def sent_bytes_def cbytes_def enc_cptr_def length_enc_str)

end
