(* ===== verification/WireTable.thy ===== *)
theory WireTable
  imports WireString
begin

text \<open>
  Tables of the database protocol (cidbmessages.c): dimensions, column names and the
  row-major cells. Both loops of the reader and of the writer run over the codec of
  \<open>WireString\<close>; the row index is the 16-bit \<open>rowidx\<close> of the code. The table functions
  are a codec again, for tables whose cells fit that index.
\<close>

section \<open>The code\<close>

text \<open>\<open>column_names\<close> and \<open>fields\<close> are NULL or an array of pointers.\<close>

record CIDBTable =
  nrows :: u16
  ncols :: u16
  column_names :: "cptr list option"
  table_fields :: "cptr list option"

definition zero_table :: CIDBTable where
  "zero_table = \<lparr>nrows = 0, ncols = 0, column_names = None, table_fields = None\<rparr>"

definition cidbmsg_read_table ::
  "allocator \<Rightarrow> byte list option \<Rightarrow> nat \<Rightarrow> CIDBTable option \<Rightarrow> (CIDBTable option \<times> u32) option" where
  "cidbmsg_read_table env msg p table =
     (case msg of None \<Rightarrow> Some (table, 0) | Some msg \<Rightarrow>
     (case table of None \<Rightarrow> Some (None, 0) | Some _ \<Rightarrow> do {
        r \<leftarrow> CIDB_GET_USHORT msg p;
        c \<leftarrow> CIDB_GET_USHORT msg (p + 2);
        let r = ucast r :: u16; c = ucast c :: u16;
            names = (if c \<noteq> 0 \<and> alloc_ok env (8 * unat c)
                     then Some (replicate (unat c) Uninit) else None);
            cells = (if c \<noteq> 0 \<and> r \<noteq> 0 \<and> alloc_ok env (8 * unat r * unat c)
                     then Some (replicate (unat r * unat c) Uninit) else None)
        in do {
        (names, bytes) \<leftarrow> for_n 0 (unat c)
           (\<lambda>j (names, bytes). do {
              (s, k) \<leftarrow> read_cell env msg (p + unat bytes);
              arr \<leftarrow> names; arr \<leftarrow> wr arr j s;
              Some (Some arr, bytes + k) })
           (names, 4);
        (cells, bytes) \<leftarrow> for_n 0 (unat r)
           (\<lambda>i st. do {
              prod \<leftarrow> int_mul i (unat c);
              let rowidx = of_nat prod :: u16 in
              for_n 0 (unat c)
                (\<lambda>j (cells, bytes). do {
                   (s, k) \<leftarrow> read_cell env msg (p + unat bytes);
                   arr \<leftarrow> cells; arr \<leftarrow> wr arr (unat rowidx + j) s;
                   Some (Some arr, bytes + k) }) st })
           (cells, bytes);
        Some (Some \<lparr>nrows = r, ncols = c, column_names = names, table_fields = cells\<rparr>, bytes) } }))"

text \<open>The bytes one cell adds to a size: \<open>len >= 255 ? bytes += 3 : bytes++; bytes += len\<close>.\<close>

definition add_cell_size :: "u32 \<Rightarrow> u16 \<Rightarrow> u32" where
  "add_cell_size bytes len = (if 255 \<le> len then bytes + 3 else bytes + 1) + ucast len"

definition cidbmsg_table_get_size :: "CIDBTable option \<Rightarrow> u32 option" where
  "cidbmsg_table_get_size table =
     (case table of None \<Rightarrow> Some 0 | Some t \<Rightarrow> do {
        bytes \<leftarrow> for_n 0 (unat (ncols t))
          (\<lambda>j bytes. do {
             arr \<leftarrow> column_names t; name \<leftarrow> rd arr j; n \<leftarrow> cstrlen name;
             Some (add_cell_size bytes (of_nat n)) }) 4;
        for_n 0 (unat (nrows t))
          (\<lambda>i bytes. do {
             prod \<leftarrow> int_mul i (unat (ncols t));
             let rowidx = of_nat prod :: u16 in
             for_n 0 (unat (ncols t))
               (\<lambda>j bytes. do {
                  arr \<leftarrow> table_fields t; cell \<leftarrow> rd arr (unat rowidx + j); len \<leftarrow> strlen_or_0 cell;
                  Some (add_cell_size bytes len) }) bytes }) bytes })"

definition cidbmsg_write_table ::
  "byte list option \<Rightarrow> nat \<Rightarrow> CIDBTable option \<Rightarrow> (byte list option \<times> u32) option" where
  "cidbmsg_write_table msg p table =
     (case msg of None \<Rightarrow> Some (None, 0) | Some msg \<Rightarrow>
     (case table of
        None \<Rightarrow> do { msg \<leftarrow> put msg p (replicate 4 0); Some (Some msg, 4) }
      | Some t \<Rightarrow> do {
          msg \<leftarrow> cidb_set_ushort msg p (nrows t);
          msg \<leftarrow> cidb_set_ushort msg (p + 2) (ncols t);
          (msg, bytes) \<leftarrow> for_n 0 (unat (ncols t))
            (\<lambda>j (msg, bytes). do {
               arr \<leftarrow> column_names t; name \<leftarrow> rd arr j;
               (msg, k) \<leftarrow> write_cell msg (p + unat bytes) name;
               Some (msg, bytes + k) })
            (msg, 4);
          (msg, bytes) \<leftarrow> for_n 0 (unat (nrows t))
            (\<lambda>i st. do {
               prod \<leftarrow> int_mul i (unat (ncols t));
               let rowidx = of_nat prod :: u16 in
               for_n 0 (unat (ncols t))
                 (\<lambda>j (msg, bytes). do {
                    arr \<leftarrow> table_fields t; cell \<leftarrow> rd arr (unat rowidx + j);
                    (msg, k) \<leftarrow> write_cell msg (p + unat bytes) cell;
                    Some (msg, bytes + k) }) st })
            (msg, bytes);
          Some (Some msg, bytes) }))"

text \<open>
  The loops of \<open>cidbmsg_table_free\<close>, with the 16-bit counter of the code compared to an
  int. A freed pointer is not valid any more; \<open>None\<close> is a pointer freed twice, an
  uninitialised one, or a loop that does not end.
\<close>

partial_function (option) free_cells :: "cptr list \<Rightarrow> nat \<Rightarrow> u16 \<Rightarrow> cptr list option" where
  "free_cells arr n i =
     (if unat i < n
      then do {
        c \<leftarrow> rd arr (unat i);
        if c = Uninit then None
        else do {
          arr \<leftarrow> wr arr (unat i) (if c = Null then Null else Uninit);
          free_cells arr n (i + 1) } }
      else Some arr)"

definition cidbmsg_table_free :: "CIDBTable option \<Rightarrow> CIDBTable option option" where
  "cidbmsg_table_free table =
     (case table of None \<Rightarrow> Some None | Some t \<Rightarrow> do {
        _ \<leftarrow> (case column_names t of None \<Rightarrow> Some []
              | Some arr \<Rightarrow> free_cells arr (unat (ncols t)) 0);
        _ \<leftarrow> (case table_fields t of None \<Rightarrow> Some []
              | Some arr \<Rightarrow> do {
                  prod \<leftarrow> int_mul (unat (ncols t)) (unat (nrows t));
                  free_cells arr prod 0 });
        Some (Some zero_table) })"

section \<open>Tables on the wire\<close>

definition t_names :: "CIDBTable \<Rightarrow> cptr list" where
  "t_names t = (case column_names t of None \<Rightarrow> [] | Some xs \<Rightarrow> xs)"

definition t_cells :: "CIDBTable \<Rightarrow> cptr list" where
  "t_cells t = (case table_fields t of None \<Rightarrow> [] | Some xs \<Rightarrow> xs)"

definition enc_table :: "CIDBTable \<Rightarrow> byte list" where
  "enc_table t = le16 (nrows t) @ le16 (ncols t) @
     concat (map enc_cptr (t_names t)) @ concat (map enc_cptr (t_cells t))"

text \<open>
  A table the code can send: the arrays have the announced dimensions, the cells fit the
  16-bit row index, every string has a 16-bit length and no column name is NULL.
\<close>

definition table_shape :: "CIDBTable \<Rightarrow> bool" where
  "table_shape t \<longleftrightarrow>
     length (t_names t) = unat (ncols t) \<and>
     length (t_cells t) = unat (nrows t) * unat (ncols t) \<and>
     unat (nrows t) * unat (ncols t) \<le> 2 ^ 16"

definition table_ok :: "CIDBTable \<Rightarrow> bool" where
  "table_ok t \<longleftrightarrow> table_shape t \<and>
     (\<forall>x \<in> set (t_names t). sendable x \<and> x \<noteq> Null) \<and> (\<forall>x \<in> set (t_cells t). sendable x) \<and>
     length (enc_table t) < 2 ^ 32"

definition table_readable :: "allocator \<Rightarrow> CIDBTable \<Rightarrow> bool" where
  "table_readable env t \<longleftrightarrow> table_shape t \<and>
     (\<forall>x \<in> set (t_names t) \<union> set (t_cells t). receivable env x) \<and>
     length (enc_table t) < 2 ^ 32 \<and>
     alloc_ok env (8 * unat (ncols t)) \<and> alloc_ok env (8 * unat (nrows t) * unat (ncols t))"

definition received_table :: "CIDBTable \<Rightarrow> CIDBTable" where
  "received_table t =
     \<lparr>nrows = nrows t, ncols = ncols t,
      column_names = (if ncols t = 0 then None else Some (map received (t_names t))),
      table_fields = (if ncols t = 0 \<or> nrows t = 0 then None else Some (map received (t_cells t)))\<rparr>"

subsection \<open>The row index\<close>

lemma row_index:
  fixes c r :: u16
  assumes "unat r * unat c \<le> 2 ^ 16" and "i < unat r" and "0 < unat c"
  shows "int_mul i (unat c) = Some (i * unat c)" and "unat (of_nat (i * unat c) :: u16) = i * unat c"
proof -
  have "(i + 1) * unat c \<le> unat r * unat c"
    using assms(2) by (intro mult_le_mono1) simp
  then have lt: "i * unat c < 2 ^ 16"
    using assms(1,3) by simp
  then show "int_mul i (unat c) = Some (i * unat c)"
    by (simp add: int_mul_def)
  from lt show "unat (of_nat (i * unat c) :: u16) = i * unat c"
    by (intro unat_of_nat_small) simp
qed

text \<open>With the cells within the row index, the double loops visit the cells in order.\<close>

lemma row_loops:
  fixes c r :: u16
  assumes "unat r * unat c \<le> 2 ^ 16"
  shows "for_n 0 (unat r)
      (\<lambda>i st. do { prod \<leftarrow> int_mul i (unat c);
                   let rowidx = of_nat prod :: u16 in
                   for_n 0 (unat c) (\<lambda>j. f (unat rowidx + j)) st }) s
     = for_n 0 (unat r * unat c) f s"
proof (cases "unat c = 0")
  case True
  have "for_n i n (\<lambda>i st. do { prod \<leftarrow> int_mul i (unat c);
       let rowidx = of_nat prod :: u16 in
       for_n 0 (unat c) (\<lambda>j. f (unat rowidx + j)) st }) s = Some s" for i n
    by (induction n arbitrary: i) (simp_all add: True int_mul_def)
  then show ?thesis using True by simp
next
  case False
  have "for_n 0 (unat r)
      (\<lambda>i st. do { prod \<leftarrow> int_mul i (unat c);
                   let rowidx = of_nat prod :: u16 in
                   for_n 0 (unat c) (\<lambda>j. f (unat rowidx + j)) st }) s
    = for_n 0 (unat r) (\<lambda>i. for_n (i * unat c) (unat c) f) s"
  proof (rule for_n_cong)
    fix i st assume "i < 0 + unat r"
    with row_index[OF assms] False
    show "do { prod \<leftarrow> int_mul i (unat c);
           let rowidx = of_nat prod :: u16 in
           for_n 0 (unat c) (\<lambda>j. f (unat rowidx + j)) st } = for_n (i * unat c) (unat c) f st"
      using for_n_shift[of "i * unat c" 0 "unat c" f st] by simp
  qed
  then show ?thesis using for_n_nested[of 0 "unat r" "unat c" f s] by simp
qed

section \<open>Writing\<close>

lemma t_names_arr: "length (t_names t) = n \<Longrightarrow> 0 < n \<Longrightarrow> column_names t = Some (t_names t)"
  by (cases "column_names t") (auto simp: t_names_def)

lemma t_cells_arr: "length (t_cells t) = n \<Longrightarrow> 0 < n \<Longrightarrow> table_fields t = Some (t_cells t)"
  by (cases "table_fields t") (auto simp: t_cells_def)

lemma no_cells:
  "table_shape t \<Longrightarrow> unat (nrows t) * unat (ncols t) = 0 \<Longrightarrow> t_cells t = []"
  unfolding table_shape_def by (metis length_0_conv)

lemma write_names:
  assumes "table_shape t"
  shows "for_n 0 (unat (ncols t))
      (\<lambda>j (msg, bytes). do {
         arr \<leftarrow> column_names t; name \<leftarrow> rd arr j;
         (msg, k) \<leftarrow> write_cell msg (p + unat bytes) name; Some (msg, bytes + k) }) s
    = for_n 0 (length (t_names t)) (cell_codec.write_step p (t_names t)) s"
proof (cases "unat (ncols t) = 0")
  case True
  then show ?thesis using assms by (simp add: table_shape_def)
next
  case False
  then have "column_names t = Some (t_names t)" "length (t_names t) = unat (ncols t)"
    using assms t_names_arr[of t] by (auto simp: table_shape_def)
  then show ?thesis
    by (simp add: cell_codec.write_step_def[abs_def] case_prod_unfold)
qed

lemma write_fields:
  assumes "table_shape t"
  shows "for_n 0 (unat (nrows t) * unat (ncols t))
      (\<lambda>j (msg, bytes). do {
         arr \<leftarrow> table_fields t; cell \<leftarrow> rd arr j;
         (msg, k) \<leftarrow> write_cell msg (p + unat bytes) cell; Some (msg, bytes + k) }) s
    = for_n 0 (length (t_cells t)) (cell_codec.write_step p (t_cells t)) s"
proof (cases "unat (nrows t) * unat (ncols t) = 0")
  case True
  then have "length (t_cells t) = 0" using assms by (simp add: table_shape_def)
  then show ?thesis unfolding True by simp
next
  case False
  then have "table_fields t = Some (t_cells t)" "length (t_cells t) = unat (nrows t) * unat (ncols t)"
    using assms t_cells_arr[of t] by (auto simp: table_shape_def)
  then show ?thesis
    by (simp add: cell_codec.write_step_def[abs_def] case_prod_unfold)
qed

text \<open>The table writer puts the encoding at its position and returns the encoding's length.\<close>

lemma write_table_put:
  assumes ok: "table_ok t"
  shows "cidbmsg_write_table (Some m) p (Some t)
    = map_option (\<lambda>m. (Some m, of_nat (length (enc_table t)))) (put m p (enc_table t))"
proof -
  let ?h = "le16 (nrows t) @ le16 (ncols t)"
  let ?N = "concat (map enc_cptr (t_names t))" and ?C = "concat (map enc_cptr (t_cells t))"
  have shape: "table_shape t" and rc: "unat (nrows t) * unat (ncols t) \<le> 2 ^ 16"
    and len: "4 + length ?N + length ?C < 2 ^ 32"
    and okN: "\<forall>x \<in> set (t_names t). sendable x" and okC: "\<forall>x \<in> set (t_cells t). sendable x"
    using ok by (auto simp: table_ok_def table_shape_def enc_table_def)
  define W where "W = (\<lambda>j (msg, bytes :: u32). do {
       arr \<leftarrow> table_fields t; cell \<leftarrow> rd arr j;
       (msg, k) \<leftarrow> write_cell msg (p + unat bytes) cell; Some (msg, bytes + k) })"
  have rows: "for_n 0 (unat (nrows t))
      (\<lambda>i st. do { prod \<leftarrow> int_mul i (unat (ncols t));
                   let rowidx = of_nat prod :: u16 in
                   for_n 0 (unat (ncols t)) (\<lambda>j. W (unat rowidx + j)) st }) s
     = for_n 0 (length (t_cells t)) (cell_codec.write_step p (t_cells t)) s" for s
    unfolding row_loops[OF rc, of W] unfolding W_def by (rule write_fields[OF shape])
  have unfold: "cidbmsg_write_table (Some m) p (Some t) = do {
      msg \<leftarrow> put m p ?h;
      (msg, bytes) \<leftarrow> for_n 0 (length (t_names t)) (cell_codec.write_step p (t_names t)) (msg, 4);
      (msg, bytes) \<leftarrow> for_n 0 (length (t_cells t)) (cell_codec.write_step p (t_cells t)) (msg, bytes);
      Some (Some msg, bytes) }"
    unfolding rows[symmetric] write_names[OF shape, symmetric]
    by (simp add: cidbmsg_write_table_def mem_write W_def)
  show ?thesis
  proof (cases "put m p ?h")
    case None
    then have "put m p (enc_table t) = None" by (simp add: put_None_iff enc_table_def)
    then show ?thesis using None by (simp add: unfold)
  next
    case h: (Some m1)
    have fit: "p + 4 \<le> length m1" using put_take_drop[OF h] put_length[OF h] by simp
    have N: "for_n 0 (length (t_names t)) (cell_codec.write_step p (t_names t)) (m1, 4)
      = map_option (\<lambda>m. (m, 4 + of_nat (length ?N))) (put m1 (p + 4) ?N)"
      using cell_codec.write_all[OF okN, of 4 p m1] fit len by simp
    have hN: "put m1 (p + 4) ?N = put m p (?h @ ?N)"
      using put_put[of m p ?h ?N] h by simp
    show ?thesis
    proof (cases "put m p (?h @ ?N)")
      case None
      then have "put m p (enc_table t) = None" by (simp add: put_None_iff enc_table_def)
      then show ?thesis using None h N by (simp add: unfold hN)
    next
      case hN': (Some m2)
      have u: "unat (4 + of_nat (length ?N) :: u32) = 4 + length ?N"
        using unat_add_of_nat[of "4 :: u32" "length ?N"] len by simp
      have "for_n 0 (length (t_cells t)) (cell_codec.write_step p (t_cells t)) (m2, 4 + of_nat (length ?N))
        = map_option (\<lambda>m. (m, 4 + of_nat (length ?N) + of_nat (length ?C)))
            (put m2 (p + (4 + length ?N)) ?C)"
        using cell_codec.write_all[OF okC, of "4 + of_nat (length ?N)" p m2] u len
          put_take_drop[OF hN'] put_length[OF hN'] by simp
      moreover have "put m2 (p + (4 + length ?N)) ?C = put m p (enc_table t)"
      proof -
        have e: "p + length (?h @ ?N) = p + (4 + length ?N)" by simp
        show ?thesis
          using put_put[of m p "?h @ ?N" ?C, unfolded e] hN' by (simp add: enc_table_def)
      qed
      ultimately show ?thesis
        using h N hN' by (simp add: unfold hN enc_table_def map_conv_bind_option o_def add.assoc)
    qed
  qed
qed

section \<open>Sizes\<close>

lemma add_cell_size_enc:
  "n < 2 ^ 16 \<Longrightarrow>
     add_cell_size b (of_nat n) = b + of_nat (length (enc_len n) + n)"
  by (simp add: add_cell_size_def u16_ge_255 length_enc_len ucast_of_nat_u16)

lemma length_enc_cptr: "length (enc_cptr p) = length (enc_len (length (sent_bytes p))) + length (sent_bytes p)"
  by (simp add: enc_cptr_def enc_str_def)

lemma cstrlen_sendable:
  "sendable p \<Longrightarrow> p \<noteq> Null \<Longrightarrow> cstrlen p = Some (length (sent_bytes p))"
  by (cases p) (auto simp: cstrlen_def sendable_def sent_bytes_def)

lemma size_names:
  assumes "table_ok t"
  shows "for_n 0 (unat (ncols t))
      (\<lambda>j bytes. do {
         arr \<leftarrow> column_names t; name \<leftarrow> rd arr j; n \<leftarrow> cstrlen name;
         Some (add_cell_size bytes (of_nat n)) }) b
    = Some (b + of_nat (length (concat (map enc_cptr (t_names t)))))"
proof (cases "unat (ncols t) = 0")
  case True
  then show ?thesis using assms by (simp add: table_ok_def table_shape_def)
next
  case False
  have n: "length (t_names t) = unat (ncols t)" "column_names t = Some (t_names t)"
    using assms False t_names_arr[of t] by (auto simp: table_ok_def table_shape_def)
  have "for_n 0 (length (t_names t))
      (\<lambda>j bytes. do {
         arr \<leftarrow> column_names t; name \<leftarrow> rd arr j; n \<leftarrow> cstrlen name;
         Some (add_cell_size bytes (of_nat n)) }) b
    = Some (b + of_nat (sum_list (map (\<lambda>x. length (enc_cptr x)) (t_names t))))"
  proof (rule for_n_sum)
    fix j c assume j: "j < length (t_names t)"
    then have x: "sendable (t_names t ! j)" "t_names t ! j \<noteq> Null"
      using assms by (auto simp: table_ok_def)
    then have "length (sent_bytes (t_names t ! j)) < 2 ^ 16" by (simp add: sendable_def)
    then show "do { arr \<leftarrow> column_names t; name \<leftarrow> rd arr j; n \<leftarrow> cstrlen name;
         Some (add_cell_size c (of_nat n)) } = Some (c + of_nat (length (enc_cptr (t_names t ! j))))"
      using j x n by (simp add: rd_def cstrlen_sendable add_cell_size_enc length_enc_cptr)
  qed
  then show ?thesis using n by (simp add: length_concat comp_def)
qed

lemma size_fields:
  assumes "table_ok t"
  shows "for_n 0 (unat (nrows t) * unat (ncols t))
      (\<lambda>j bytes. do {
         arr \<leftarrow> table_fields t; cell \<leftarrow> rd arr j; len \<leftarrow> strlen_or_0 cell;
         Some (add_cell_size bytes len) }) b
    = Some (b + of_nat (length (concat (map enc_cptr (t_cells t)))))"
proof (cases "unat (nrows t) * unat (ncols t) = 0")
  case True
  then have "t_cells t = []" using assms no_cells by (simp add: table_ok_def)
  then show ?thesis unfolding True by simp
next
  case False
  have n: "length (t_cells t) = unat (nrows t) * unat (ncols t)" "table_fields t = Some (t_cells t)"
    using assms False t_cells_arr[of t] by (auto simp: table_ok_def table_shape_def)
  have "for_n 0 (length (t_cells t))
      (\<lambda>j bytes. do {
         arr \<leftarrow> table_fields t; cell \<leftarrow> rd arr j; len \<leftarrow> strlen_or_0 cell;
         Some (add_cell_size bytes len) }) b
    = Some (b + of_nat (sum_list (map (\<lambda>x. length (enc_cptr x)) (t_cells t))))"
  proof (rule for_n_sum)
    fix j c assume j: "j < length (t_cells t)"
    then have x: "sendable (t_cells t ! j)"
      using assms by (auto simp: table_ok_def)
    then have "length (sent_bytes (t_cells t ! j)) < 2 ^ 16" by (simp add: sendable_def)
    then show "do { arr \<leftarrow> table_fields t; cell \<leftarrow> rd arr j; len \<leftarrow> strlen_or_0 cell;
         Some (add_cell_size c len) } = Some (c + of_nat (length (enc_cptr (t_cells t ! j))))"
      using j n by (simp add: rd_def strlen_or_0_sendable[OF x] add_cell_size_enc length_enc_cptr)
  qed
  then show ?thesis using n by (simp add: length_concat comp_def)
qed

lemma table_get_size_enc:
  assumes ok: "table_ok t"
  shows "cidbmsg_table_get_size (Some t) = Some (of_nat (length (enc_table t)))"
proof -
  have rc: "unat (nrows t) * unat (ncols t) \<le> 2 ^ 16"
    using ok by (simp add: table_ok_def table_shape_def)
  define W where "W = (\<lambda>j (bytes :: u32). do {
       arr \<leftarrow> table_fields t; cell \<leftarrow> rd arr j; len \<leftarrow> strlen_or_0 cell;
       Some (add_cell_size bytes len) })"
  have rows: "for_n 0 (unat (nrows t))
      (\<lambda>i st. do { prod \<leftarrow> int_mul i (unat (ncols t));
                   let rowidx = of_nat prod :: u16 in
                   for_n 0 (unat (ncols t)) (\<lambda>j. W (unat rowidx + j)) st }) b
     = Some (b + of_nat (length (concat (map enc_cptr (t_cells t)))))" for b
    unfolding row_loops[OF rc, of W] unfolding W_def by (rule size_fields[OF ok])
  then show ?thesis
    by (simp add: cidbmsg_table_get_size_def size_names[OF ok] W_def enc_table_def)
qed

section \<open>Reading\<close>

text \<open>The reader keeps its array behind a pointer; over an allocated one it is the codec's loop.\<close>

lemma read_loop_ptr:
  "for_n i n (\<lambda>j (names, bytes). do {
       (s, k) \<leftarrow> read_cell env msg (p + unat bytes);
       arr \<leftarrow> names; arr \<leftarrow> wr arr j s; Some (Some arr, bytes + k) }) (Some arr, b)
   = map_option (\<lambda>(arr, b). (Some arr, b)) (for_n i n (cell_codec.read_step env p msg) (arr, b))"
proof -
  have "for_n i n (\<lambda>j (names, bytes). do {
       (s, k) \<leftarrow> read_cell env msg (p + unat bytes);
       arr \<leftarrow> names; arr \<leftarrow> wr arr j s; Some (Some arr, bytes + k) }) ((\<lambda>(arr, b). (Some arr, b)) (arr, b))
   = map_option (\<lambda>(arr, b). (Some arr, b)) (for_n i n (cell_codec.read_step env p msg) (arr, b))"
    by (rule for_n_image)
       (auto simp: cell_codec.read_step_def map_conv_bind_option o_def split: prod.splits bind_splits)
  then show ?thesis by simp
qed

text \<open>The reader finds in front of it the table that was written, whatever follows.\<close>

lemma read_table_enc:
  assumes ok: "table_readable env t"
  shows "cidbmsg_read_table env (Some (pre @ enc_table t @ post)) (length pre) (Some t0)
    = Some (Some (received_table t), of_nat (length (enc_table t)))"
proof -
  let ?r = "unat (nrows t)" and ?c = "unat (ncols t)"
  let ?h = "le16 (nrows t) @ le16 (ncols t)"
  let ?N = "concat (map enc_cptr (t_names t))" and ?C = "concat (map enc_cptr (t_cells t))"
  let ?msg = "pre @ enc_table t @ post"
  define p where "p = length pre"
  have shape: "table_shape t" and rc: "?r * ?c \<le> 2 ^ 16"
    and lN: "length (t_names t) = ?c" and lC: "length (t_cells t) = ?r * ?c"
    and len: "4 + length ?N + length ?C < 2 ^ 32"
    and okN: "\<forall>x \<in> set (t_names t). receivable env x"
    and okC: "\<forall>x \<in> set (t_cells t). receivable env x"
    and al: "alloc_ok env (8 * ?c)" "alloc_ok env (8 * ?r * ?c)"
    using ok by (auto simp: table_readable_def table_shape_def enc_table_def)
  have msg: "?msg = (pre @ ?h) @ ?N @ (?C @ post)" "?msg = (pre @ ?h @ ?N) @ ?C @ post"
    by (simp_all add: enc_table_def)
  define R where "R = (\<lambda>j (names, bytes :: u32). do {
       (s, k) \<leftarrow> read_cell env ?msg (p + unat bytes);
       arr \<leftarrow> names; arr \<leftarrow> wr arr j s; Some (Some arr, bytes + k) })"
  define n0 where "n0 = (if ncols t \<noteq> 0 then Some (replicate ?c Uninit) else None)"
  define c0 where "c0 = (if ncols t \<noteq> 0 \<and> nrows t \<noteq> 0 then Some (replicate (?r * ?c) Uninit) else None)"
  have r: "CIDB_GET_USHORT ?msg p = Some (ucast (nrows t))"
    using get_ushort_at[of pre "nrows t" "le16 (ncols t) @ ?N @ ?C @ post"]
    by (simp add: enc_table_def p_def)
  have c: "CIDB_GET_USHORT ?msg (p + 2) = Some (ucast (ncols t))"
    using get_ushort_at[of "pre @ le16 (nrows t)" "ncols t" "?N @ ?C @ post"]
    by (simp add: enc_table_def p_def)
  have rows: "for_n 0 ?r
      (\<lambda>i st. do { prod \<leftarrow> int_mul i ?c; let rowidx = of_nat prod :: u16 in
                   for_n 0 ?c (\<lambda>j. R (unat rowidx + j)) st }) st
     = for_n 0 (?r * ?c) R st" for st
    by (rule row_loops[OF rc])
  have unfold: "cidbmsg_read_table env (Some ?msg) p (Some t0) = do {
      (names, bytes) \<leftarrow> for_n 0 ?c R (n0, 4);
      (cells, bytes) \<leftarrow> for_n 0 (?r * ?c) R (c0, bytes);
      Some (Some \<lparr>nrows = nrows t, ncols = ncols t, column_names = names, table_fields = cells\<rparr>, bytes) }"
    unfolding rows[symmetric]
    by (simp add: cidbmsg_read_table_def r c[unfolded add_2_eq_Suc'] al Let_def n0_def c0_def R_def unat_eq_0)
  have N: "for_n 0 ?c R (n0, 4)
     = Some (if ncols t = 0 then None else Some (map received (t_names t)), 4 + of_nat (length ?N))"
  proof (cases "ncols t = 0")
    case True
    then show ?thesis using lN by (simp add: n0_def)
  next
    case False
    have "for_n 0 (length (t_names t)) (cell_codec.read_step env p ((pre @ ?h) @ ?N @ (?C @ post)))
        (replicate ?c Uninit, 4) = Some (map received (t_names t), 4 + of_nat (length ?N))"
      by (rule cell_codec.read_all) (use okN lN len p_def in auto)
    then show ?thesis using False lN
      by (simp add: R_def read_loop_ptr n0_def msg(1))
  qed
  have u: "unat (4 + of_nat (length ?N) :: u32) = 4 + length ?N"
    using unat_add_of_nat[of "4 :: u32" "length ?N"] len by simp
  have C: "for_n 0 (?r * ?c) R (c0, 4 + of_nat (length ?N))
     = Some (if ncols t = 0 \<or> nrows t = 0 then None else Some (map received (t_cells t)),
             4 + of_nat (length ?N) + of_nat (length ?C))"
  proof (cases "ncols t = 0 \<or> nrows t = 0")
    case True
    then have z: "?r * ?c = 0" by auto
    then have "t_cells t = []" by (rule no_cells[OF shape])
    with z True show ?thesis unfolding z by (simp add: c0_def)
  next
    case False
    have "for_n 0 (length (t_cells t)) (cell_codec.read_step env p ((pre @ ?h @ ?N) @ ?C @ post))
        (replicate (?r * ?c) Uninit, 4 + of_nat (length ?N))
      = Some (map received (t_cells t), 4 + of_nat (length ?N) + of_nat (length ?C))"
      by (rule cell_codec.read_all) (use okC lC len u p_def in auto)
    then show ?thesis using False lC
      by (simp add: R_def read_loop_ptr c0_def msg(2))
  qed
  show ?thesis
    using unfold N C by (simp add: p_def received_table_def enc_table_def add.assoc)
qed

section \<open>The table functions as the message code calls them\<close>

text \<open>\<open>cidbmsg_write_table(&data[p], &dbmsg->table)\<close> and its reader: neither pointer is NULL.\<close>

definition write_table_into :: "byte list \<Rightarrow> nat \<Rightarrow> CIDBTable \<Rightarrow> (byte list \<times> u32) option" where
  "write_table_into msg p t = do {
     (m, k) \<leftarrow> cidbmsg_write_table (Some msg) p (Some t);
     m \<leftarrow> m;
     Some (m, k) }"

definition read_table_into :: "allocator \<Rightarrow> byte list \<Rightarrow> nat \<Rightarrow> (CIDBTable \<times> u32) option" where
  "read_table_into env msg p = do {
     (t, k) \<leftarrow> cidbmsg_read_table env (Some msg) p (Some zero_table);
     t \<leftarrow> t;
     Some (t, k) }"

interpretation table_codec: wire_codec enc_table write_table_into table_ok
    "read_table_into env" "table_readable env" received_table for env
  by unfold_locales
     (simp_all add: write_table_into_def write_table_put read_table_into_def read_table_enc
       map_conv_bind_option o_def)

section \<open>Freeing\<close>

lemma free_cells_returns:
  assumes "n < 2 ^ 16" and "n \<le> length arr" and "unat i \<le> n"
    and "\<And>j. unat i \<le> j \<Longrightarrow> j < n \<Longrightarrow> arr ! j \<noteq> Uninit"
  shows "\<exists>arr'. free_cells arr n i = Some arr'"
  using assms
proof (induction "n - unat i" arbitrary: arr i)
  case 0
  then show ?case by (simp add: free_cells.simps)
next
  case (Suc k)
  let ?arr = "arr[unat i := if arr ! unat i = Null then Null else Uninit]"
  have i: "unat i < n" using Suc.hyps(2) by simp
  then have i1: "unat (i + 1) = unat i + 1"
    using unat_add_of_nat[of i 1] Suc.prems(1) by simp
  have "\<exists>arr'. free_cells ?arr n (i + 1) = Some arr'"
    by (rule Suc.hyps(1)) (use Suc.hyps(2) Suc.prems i i1 in auto)
  then show ?case
    using i Suc.prems by (subst free_cells.simps) (auto simp: rd_def wr_def)
qed

text \<open>The loop returns only when the 16-bit counter can reach the bound.\<close>

lemma free_cells_bound: "free_cells arr n i = Some r \<Longrightarrow> n < 2 ^ 16"
proof (rule free_cells.raw_induct[where P = "\<lambda>arr n i r. n < 2 ^ 16"])
  fix f :: "cptr list \<Rightarrow> nat \<Rightarrow> u16 \<Rightarrow> cptr list option" and arr n i r
  assume IH: "\<And>arr n i r. f arr n i = Some r \<Longrightarrow> n < 2 ^ 16"
    and eq: "(if unat i < n then do {
        c \<leftarrow> rd arr (unat i);
        if c = Uninit then None
        else do { arr \<leftarrow> wr arr (unat i) (if c = Null then Null else Uninit); f arr n (i + 1) } }
      else Some arr) = Some r"
  show "n < 2 ^ 16"
  proof (cases "unat i < n")
    case True
    with eq obtain arr' where "f arr' n (i + 1) = Some r"
      by (auto simp: c_bind split: if_splits)
    then show ?thesis by (rule IH)
  next
    case False
    have "unat i < 2 ^ LENGTH(16)" by (rule unsigned_less)
    with False show ?thesis by simp
  qed
qed

lemma free_cells_iff:
  assumes "length arr = n" and "\<forall>x \<in> set arr. x \<noteq> Uninit"
  shows "(\<exists>r. free_cells arr n 0 = Some r) \<longleftrightarrow> n < 2 ^ 16"
proof
  assume "n < 2 ^ 16"
  then show "\<exists>r. free_cells arr n 0 = Some r"
    using assms by (intro free_cells_returns) auto
qed (auto dest: free_cells_bound)

section \<open>Properties\<close>

text \<open>
  C33: A table with at most 65536 cells goes over the wire: \<open>cidbmsg_table_get_size\<close> computes
  exactly the number of bytes \<open>cidbmsg_write_table\<close> writes, so a block of that size is filled
  and not overrun, and \<open>cidbmsg_read_table\<close> consumes that number and rebuilds dimensions,
  column names and cells, row by row, whatever its structure held before.
\<close>

theorem table_roundtrip:
  assumes "table_ok t" and "table_readable env t" and "length block = length (enc_table t)"
  shows "cidbmsg_table_get_size (Some t) = Some (of_nat (length block)) \<and>
    (\<exists>d. cidbmsg_write_table (Some block) 0 (Some t) = Some (Some d, of_nat (length block)) \<and>
         length d = length block \<and>
         cidbmsg_read_table env (Some d) 0 (Some t0)
           = Some (Some (received_table t), of_nat (length block)))"
  using read_table_enc[OF assms(2), of "[]" "[]" t0] assms(3) put_whole[OF assms(3)]
  by (simp add: table_get_size_enc[OF assms(1)] write_table_put[OF assms(1)])

definition sample_table :: CIDBTable where
  "sample_table = \<lparr>nrows = 2, ncols = 2, column_names = Some [Str [110], Str [111, 112]],
     table_fields = Some [Str [1], Null, Str [2, 3], Str []]\<rparr>"

theorem table_roundtrip_witness:
  "cidbmsg_table_get_size (Some sample_table)
      = Some (of_nat (length (replicate (length (enc_table sample_table)) (9 :: byte)))) \<and>
    (\<exists>d. cidbmsg_write_table (Some (replicate (length (enc_table sample_table)) 9)) 0 (Some sample_table)
           = Some (Some d, of_nat (length (replicate (length (enc_table sample_table)) (9 :: byte)))) \<and>
         length d = length (replicate (length (enc_table sample_table)) (9 :: byte)) \<and>
         cidbmsg_read_table \<lparr>alloc_ok = \<lambda>_. True, garbage = \<lambda>_. 1\<rparr> (Some d) 0 (Some zero_table)
           = Some (Some (received_table sample_table),
                   of_nat (length (replicate (length (enc_table sample_table)) (9 :: byte)))))"
  by (rule table_roundtrip)
     (simp_all add: table_ok_def table_readable_def table_shape_def sample_table_def t_names_def
       t_cells_def receivable_def sendable_def sent_bytes_def cbytes_def enc_table_def enc_cptr_def
       length_enc_str)



end
