(* ===== verification/WireMessage.thy ===== *)
theory WireMessage
  imports WireTable
begin

text \<open>
  The messages of the database protocol: \<open>cidbmsg_write_message\<close> (a switch that computes the
  size, the header, the allocation, a switch that writes the payload) and
  \<open>cidbmsg_read_message\<close>. The abstract payload \<open>wire\<close> says in one equation per command what
  goes over the network; the writer is proved to produce it in a block of exactly the computed
  size and the reader to recover the message from it.
\<close>

section \<open>Messages\<close>

abbreviation CIDBMSG_CMD_REGISTER :: byte where "CIDBMSG_CMD_REGISTER \<equiv> 0x01"
abbreviation CIDBMSG_CMD_CALLER_LIST :: byte where "CIDBMSG_CMD_CALLER_LIST \<equiv> 0x02"
abbreviation CIDBMSG_CMD_READ_CALLER :: byte where "CIDBMSG_CMD_READ_CALLER \<equiv> 0x03"
abbreviation CIDBMSG_CMD_WRITE_CALLER :: byte where "CIDBMSG_CMD_WRITE_CALLER \<equiv> 0x04"
abbreviation CIDBMSG_CMD_WRITE_CALL :: byte where "CIDBMSG_CMD_WRITE_CALL \<equiv> 0x05"
abbreviation CIDBMSG_CMD_CALL_LIST :: byte where "CIDBMSG_CMD_CALL_LIST \<equiv> 0x06"
abbreviation CIDBMSG_CMD_SHOWTABLES :: byte where "CIDBMSG_CMD_SHOWTABLES \<equiv> 0x07"
abbreviation CIDBMSG_CMD_DESCRIBE_TABLE :: byte where "CIDBMSG_CMD_DESCRIBE_TABLE \<equiv> 0x08"
abbreviation CIDBMSG_CMD_DELETE_CALLER :: byte where "CIDBMSG_CMD_DELETE_CALLER \<equiv> 0x09"
abbreviation CIDBMSG_CMD_LIST_INFO :: byte where "CIDBMSG_CMD_LIST_INFO \<equiv> 0x0a"
abbreviation CIDBMSG_CMD_LISTEN :: byte where "CIDBMSG_CMD_LISTEN \<equiv> 0x0b"
abbreviation CIDBMSG_SUBCMD_QUERY :: byte where "CIDBMSG_SUBCMD_QUERY \<equiv> 0x80"
abbreviation CIDBMSG_SUBCMD_RESP :: byte where "CIDBMSG_SUBCMD_RESP \<equiv> 0x81"

text \<open>\<open>stringlist\<close> is NULL or an array of pointers.\<close>

record CIDBMessage =
  cmd :: byte
  subcmd :: byte
  msgid :: u32
  clientid :: u16
  errcode :: u16
  userid :: u16
  flags :: u32
  nstrings :: u16
  stringlist :: "cptr list option"
  table :: CIDBTable
  m_index :: u32
  m_offset :: u32
  m_count :: u16
  m_mask :: u32
  maxentries :: u32

definition zero_message :: CIDBMessage where
  "zero_message =
     \<lparr>cmd = 0, subcmd = 0, msgid = 0, clientid = 0, errcode = 0, userid = 0, flags = 0,
      nstrings = 0, stringlist = None, table = zero_table, m_index = 0, m_offset = 0,
      m_count = 0, m_mask = 0, maxentries = 0\<rparr>"

section \<open>Sizes\<close>

text \<open>\<open>dbmsg->stringlist && dbmsg->stringlist[i]\<close>: the string, if both tests succeed.\<close>

definition string_at :: "CIDBMessage \<Rightarrow> nat \<Rightarrow> cptr option" where
  "string_at m i = (case stringlist m of
      None \<Rightarrow> Some Null
    | Some arr \<Rightarrow> do { s \<leftarrow> rd arr i; if s = Uninit then None else Some s })"

text \<open>\<open>len = strlen(s); if (len >= 255) size += 2; size += len\<close>, skipped for NULL.\<close>

definition add_string_size :: "u32 \<Rightarrow> cptr \<Rightarrow> u32 option" where
  "add_string_size sz s =
     (if s = Null then Some sz
      else do {
        n \<leftarrow> cstrlen s;
        let len = of_nat n :: u16 in
        Some ((if 255 \<le> len then sz + 2 else sz) + ucast len) })"

text \<open>The size of a counted list of strings, as in the two table descriptions.\<close>

definition add_strings_size :: "CIDBMessage \<Rightarrow> u32 \<Rightarrow> u32 option" where
  "add_strings_size m sz =
     (if stringlist m = None then Some sz
      else for_n 0 (unat (nstrings m))
             (\<lambda>i sz. do { s \<leftarrow> string_at m i; add_string_size (sz + 1) s }) sz)"

text \<open>
  The first switch. The outer option is undefined behaviour, the inner one the early
  \<open>return 0\<close> of a message with an unknown command or subcommand.
\<close>

definition cidbmsg_payload_size :: "CIDBMessage \<Rightarrow> u32 option option" where
  "cidbmsg_payload_size m =
    (let q = (subcmd m = CIDBMSG_SUBCMD_QUERY); r = (subcmd m = CIDBMSG_SUBCMD_RESP);
         ret = (\<lambda>n. Some (Some n));
         with_table = (\<lambda>n. do { k \<leftarrow> cidbmsg_table_get_size (Some (table m)); ret (n + k) })
     in
     if cmd m = CIDBMSG_CMD_REGISTER then
       if q then ret 0 else if r then ret 4 else Some None
     else if cmd m = CIDBMSG_CMD_CALLER_LIST then
       if q then do { s \<leftarrow> string_at m 0; n \<leftarrow> add_string_size 3 s; ret n }
       else if r then with_table 2 else Some None
     else if cmd m = CIDBMSG_CMD_READ_CALLER then
       if q then do { s \<leftarrow> string_at m 0; n \<leftarrow> add_string_size 5 s; ret n }
       else if r then with_table 2 else Some None
     else if cmd m = CIDBMSG_CMD_WRITE_CALLER then
       if q then with_table 4 else if r then ret 6 else Some None
     else if cmd m = CIDBMSG_CMD_WRITE_CALL then
       if q then with_table 0 else if r then ret 6 else Some None
     else if cmd m = CIDBMSG_CMD_CALL_LIST then
       if q then ret 6 else if r then with_table 2 else Some None
     else if cmd m = CIDBMSG_CMD_SHOWTABLES then
       if q then ret 0
       else if r then do { n \<leftarrow> add_strings_size m 4; ret n } else Some None
     else if cmd m = CIDBMSG_CMD_DELETE_CALLER then
       if q then
         if stringlist m = None then ret 6
         else do {
           s \<leftarrow> string_at m 0; n \<leftarrow> add_string_size 6 s;
           s \<leftarrow> string_at m 1; n \<leftarrow> add_string_size n s;
           ret n }
       else if r then ret 2 else Some None
     else if cmd m = CIDBMSG_CMD_LIST_INFO then
       if q then ret 0 else if r then ret 6 else Some None
     else if cmd m = CIDBMSG_CMD_DESCRIBE_TABLE then
       if q then do { s \<leftarrow> string_at m 0; n \<leftarrow> add_string_size 1 s; ret n }
       else if r then do { n \<leftarrow> add_strings_size m 4; ret n } else Some None
     else if cmd m = CIDBMSG_CMD_LISTEN then
       if q then ret 4 else ret 2
     else Some None)"

section \<open>Writing\<close>

text \<open>
  The loop \<open>pos = 4; for (i = 0; i < nstrings; i++) pos += cidbmsg_write_string(...)\<close>; the
  string list is followed in it.
\<close>

definition write_strings :: "CIDBMessage \<Rightarrow> byte list \<Rightarrow> byte list option" where
  "write_strings m d = do {
     (d, pos) \<leftarrow> for_n 0 (unat (nstrings m))
       (\<lambda>i (d, pos). do {
          arr \<leftarrow> stringlist m; s \<leftarrow> rd arr i;
          (d, k) \<leftarrow> cidbmsg_write_string d (unat pos) s;
          Some (d, pos + k) })
       (d, 4 :: u32);
     Some d }"

text \<open>A string when the list and its first entry are not NULL, otherwise a zero length byte.\<close>

definition write_first_string :: "CIDBMessage \<Rightarrow> byte list \<Rightarrow> nat \<Rightarrow> byte list option" where
  "write_first_string m d p = do {
     s \<leftarrow> string_at m 0;
     if s \<noteq> Null then do { (d, k) \<leftarrow> cidbmsg_write_string d p s; Some d }
     else cidb_set_uchar d p 0 }"

text \<open>The second switch, on the allocated block.\<close>

definition cidbmsg_write_payload :: "CIDBMessage \<Rightarrow> byte list \<Rightarrow> byte list option" where
  "cidbmsg_write_payload m d =
    (let q = (subcmd m = CIDBMSG_SUBCMD_QUERY);
         err_table = do {
           d \<leftarrow> cidb_set_ushort d 0 (errcode m);
           (d, k) \<leftarrow> write_table_into d 2 (table m); Some d };
         err_index = do {
           d \<leftarrow> cidb_set_ushort d 0 (errcode m);
           cidb_set_ulong d 2 (m_index m) };
         err_strings = do {
           d \<leftarrow> cidb_set_ushort d 0 (errcode m);
           if stringlist m \<noteq> None
           then do { d \<leftarrow> cidb_set_ushort d 2 (nstrings m); write_strings m d }
           else cidb_set_ushort d 2 0 }
     in
     if cmd m = CIDBMSG_CMD_REGISTER then
       if q then Some d
       else do { d \<leftarrow> cidb_set_ushort d 0 (errcode m); cidb_set_ushort d 2 (clientid m) }
     else if cmd m = CIDBMSG_CMD_CALLER_LIST then
       if q then do { d \<leftarrow> cidb_set_ushort d 0 (userid m); write_first_string m d 2 }
       else err_table
     else if cmd m = CIDBMSG_CMD_READ_CALLER then
       if q then do {
         d \<leftarrow> cidb_set_ushort d 0 (userid m);
         d \<leftarrow> cidb_set_ushort d 2 (ucast (flags m));
         write_first_string m d 4 }
       else err_table
     else if cmd m = CIDBMSG_CMD_WRITE_CALLER then
       if q then do {
         d \<leftarrow> cidb_set_ushort d 0 (userid m);
         d \<leftarrow> cidb_set_ushort d 2 (ucast (flags m));
         (d, k) \<leftarrow> write_table_into d 4 (table m); Some d }
       else err_index
     else if cmd m = CIDBMSG_CMD_WRITE_CALL then
       if q then do { (d, k) \<leftarrow> write_table_into d 0 (table m); Some d }
       else err_index
     else if cmd m = CIDBMSG_CMD_CALL_LIST then
       if q then do { d \<leftarrow> cidb_set_ulong d 0 (m_offset m); cidb_set_ushort d 4 (m_count m) }
       else err_table
     else if cmd m = CIDBMSG_CMD_SHOWTABLES then
       if q then Some d else err_strings
     else if cmd m = CIDBMSG_CMD_DESCRIBE_TABLE then
       if q then
         (case stringlist m of
            Some arr \<Rightarrow> do { s \<leftarrow> rd arr 0; (d, k) \<leftarrow> cidbmsg_write_string d 0 s; Some d }
          | None \<Rightarrow> cidb_set_ushort d 0 0)
       else err_strings
     else if cmd m = CIDBMSG_CMD_DELETE_CALLER then
       if q then do {
         d \<leftarrow> cidb_set_ushort d 0 (userid m);
         d \<leftarrow> cidb_set_ushort d 2 (nstrings m);
         write_strings m d }
       else cidb_set_ushort d 0 (errcode m)
     else if cmd m = CIDBMSG_CMD_LIST_INFO then
       if q then Some d
       else do { d \<leftarrow> cidb_set_ushort d 0 (errcode m); cidb_set_ulong d 2 (maxentries m) }
     else if cmd m = CIDBMSG_CMD_LISTEN then
       if q then cidb_set_ulong d 0 (m_mask m) else cidb_set_ushort d 0 (errcode m)
     else Some d)"

text \<open>
  The function: \<open>memset(&msg->header, 0, sizeof(CIDBMSG_HEADER_SIZE))\<close> clears the four bytes of
  an int, the early returns leave the rest of the header as it was, the second memset clears 22.
\<close>

definition first_header :: "CIDBMessage \<Rightarrow> CIDBMsgHeader \<Rightarrow> CIDBMsgHeader" where
  "first_header m h =
     (h\<lparr>ClientId := 0, msgCommand := 0, msgSubcommand := 0\<rparr>)
       \<lparr>msgCommand := cmd m, msgSubcommand := subcmd m, ClientId := clientid m, msgId := msgid m\<rparr>"

definition second_header :: "CIDBMessage \<Rightarrow> u32 \<Rightarrow> CIDBMsgHeader \<Rightarrow> CIDBMsgHeader" where
  "second_header m sz h =
     (memset_header_22 h)
       \<lparr>msgCommand := cmd m, msgSubcommand := subcmd m, ClientId := clientid m, msgId := msgid m,
        dataSize := sz\<rparr>"

definition cidbmsg_write_message ::
  "allocator \<Rightarrow> CIDBMessage option \<Rightarrow> CIDBMsg option \<Rightarrow> (CIDBMsg option \<times> u32) option" where
  "cidbmsg_write_message env dbmsg msg =
     (case dbmsg of None \<Rightarrow> Some (msg, 0) | Some m \<Rightarrow>
     (case msg of None \<Rightarrow> Some (None, 0) | Some g \<Rightarrow>
       let g = g\<lparr>header := first_header m (header g)\<rparr> in do {
       sz \<leftarrow> cidbmsg_payload_size m;
       case sz of
         None \<Rightarrow> Some (Some g, 0)
       | Some n \<Rightarrow>
           let g = g\<lparr>header := second_header m n (header g)\<rparr> in
           if n \<noteq> 0
           then if alloc_ok env (unat n)
             then do {
               d \<leftarrow> cidbmsg_write_payload m (heap_block env (unat n));
               Some (Some (g\<lparr>data := Some d\<rparr>), n) }
             else None
           else Some (Some (g\<lparr>data := None\<rparr>), 0) }))"

section \<open>Reading\<close>

text \<open>\<open>cidbmsg_read_string(&msg->data[p], &dbmsg->stringlist[0])\<close> on a fresh list of one.\<close>

definition read_one_string :: "allocator \<Rightarrow> byte list \<Rightarrow> nat \<Rightarrow> CIDBMessage \<Rightarrow> CIDBMessage option" where
  "read_one_string env d p m =
     (if alloc_ok env 8
      then do {
        (s, k) \<leftarrow> read_string_into env d p;
        Some (m\<lparr>nstrings := 1, stringlist := Some [s]\<rparr>) }
      else None)"

text \<open>The count at 2 and the strings from 4 on.\<close>

definition read_strings :: "allocator \<Rightarrow> byte list \<Rightarrow> CIDBMessage \<Rightarrow> CIDBMessage option" where
  "read_strings env d m = do {
     n \<leftarrow> CIDB_GET_USHORT d 2;
     let n = ucast n :: u16; m = m\<lparr>nstrings := n\<rparr> in
     if n = 0 then Some m
     else if alloc_ok env (8 * unat n)
     then do {
       (arr, pos) \<leftarrow> for_n 0 (unat n)
         (\<lambda>i (arr, pos). do {
            (s, k) \<leftarrow> read_string_into env d (unat pos);
            arr \<leftarrow> wr arr i s;
            Some (arr, pos + k) })
         (replicate (unat n) Uninit, 4 :: u32);
       Some (m\<lparr>stringlist := Some arr\<rparr>) }
     else None }"

definition read_errcode :: "byte list \<Rightarrow> CIDBMessage \<Rightarrow> CIDBMessage option" where
  "read_errcode d m = do { e \<leftarrow> CIDB_GET_USHORT d 0; Some (m\<lparr>errcode := ucast e\<rparr>) }"

definition read_userid :: "byte list \<Rightarrow> CIDBMessage \<Rightarrow> CIDBMessage option" where
  "read_userid d m = do { e \<leftarrow> CIDB_GET_USHORT d 0; Some (m\<lparr>userid := ucast e\<rparr>) }"

definition read_table_at :: "allocator \<Rightarrow> byte list \<Rightarrow> nat \<Rightarrow> CIDBMessage \<Rightarrow> CIDBMessage option" where
  "read_table_at env d p m = do { (t, k) \<leftarrow> read_table_into env d p; Some (m\<lparr>table := t\<rparr>) }"

definition cidbmsg_read_payload ::
  "allocator \<Rightarrow> byte list option \<Rightarrow> CIDBMessage \<Rightarrow> CIDBMessage option" where
  "cidbmsg_read_payload env dat m =
    (let q = (subcmd m = CIDBMSG_SUBCMD_QUERY);
         err_table = do { d \<leftarrow> dat; m \<leftarrow> read_errcode d m; read_table_at env d 2 m };
         err_index = do { d \<leftarrow> dat; m \<leftarrow> read_errcode d m;
                          i \<leftarrow> CIDB_GET_ULONG d 2; Some (m\<lparr>m_index := i\<rparr>) };
         err_strings = do { d \<leftarrow> dat; m \<leftarrow> read_errcode d m; read_strings env d m };
         user_flags = do { d \<leftarrow> dat; m \<leftarrow> read_userid d m;
                           f \<leftarrow> CIDB_GET_USHORT d 2; Some (d, m\<lparr>flags := f\<rparr>) }
     in
     if cmd m = CIDBMSG_CMD_REGISTER then
       if q then Some m
       else do { d \<leftarrow> dat; m \<leftarrow> read_errcode d m;
                 c \<leftarrow> CIDB_GET_USHORT d 2; Some (m\<lparr>clientid := ucast c\<rparr>) }
     else if cmd m = CIDBMSG_CMD_CALLER_LIST then
       if q then do { d \<leftarrow> dat; m \<leftarrow> read_userid d m; read_one_string env d 2 m }
       else err_table
     else if cmd m = CIDBMSG_CMD_READ_CALLER then
       if q then do { (d, m) \<leftarrow> user_flags; read_one_string env d 4 m }
       else err_table
     else if cmd m = CIDBMSG_CMD_WRITE_CALLER then
       if q then do { (d, m) \<leftarrow> user_flags; read_table_at env d 4 m }
       else err_index
     else if cmd m = CIDBMSG_CMD_WRITE_CALL then
       if q then do { d \<leftarrow> dat; read_table_at env d 0 m }
       else err_index
     else if cmd m = CIDBMSG_CMD_CALL_LIST then
       if q then do { d \<leftarrow> dat; i \<leftarrow> CIDB_GET_ULONG d 0; c \<leftarrow> CIDB_GET_USHORT d 4;
                      Some (m\<lparr>m_offset := i, m_count := ucast c\<rparr>) }
       else err_table
     else if cmd m = CIDBMSG_CMD_SHOWTABLES then
       if q then Some m else err_strings
     else if cmd m = CIDBMSG_CMD_DESCRIBE_TABLE then
       if q then do { d \<leftarrow> dat; read_one_string env d 0 m } else err_strings
     else if cmd m = CIDBMSG_CMD_DELETE_CALLER then
       if q then do { d \<leftarrow> dat; m \<leftarrow> read_userid d m; read_strings env d m }
       else do { d \<leftarrow> dat; read_errcode d m }
     else if cmd m = CIDBMSG_CMD_LIST_INFO then
       if q then Some m
       else do { d \<leftarrow> dat; m \<leftarrow> read_errcode d m;
                 i \<leftarrow> CIDB_GET_ULONG d 2; Some (m\<lparr>maxentries := i\<rparr>) }
     else if cmd m = CIDBMSG_CMD_LISTEN then
       if q then do { d \<leftarrow> dat; i \<leftarrow> CIDB_GET_ULONG d 0; Some (m\<lparr>m_mask := i\<rparr>) }
       else do { d \<leftarrow> dat; read_errcode d m }
     else Some m)"

definition cidbmsg_read_message ::
  "allocator \<Rightarrow> CIDBMsg option \<Rightarrow> CIDBMessage option \<Rightarrow> CIDBMessage option option" where
  "cidbmsg_read_message env msg dbmsg =
     (case dbmsg of None \<Rightarrow> Some None | Some m0 \<Rightarrow>
     (case msg of None \<Rightarrow> Some (Some m0) | Some g \<Rightarrow>
       let m = zero_message\<lparr>cmd := msgCommand (header g), subcmd := msgSubcommand (header g)\<rparr> in
       if subcmd m \<noteq> CIDBMSG_SUBCMD_QUERY \<and> subcmd m \<noteq> CIDBMSG_SUBCMD_RESP then Some (Some m)
       else map_option Some (cidbmsg_read_payload env (data g) m)))"

section \<open>Payloads on the wire\<close>

definition m_strings :: "CIDBMessage \<Rightarrow> cptr list" where
  "m_strings m = (case stringlist m of None \<Rightarrow> [] | Some xs \<Rightarrow> xs)"

definition first_string :: "CIDBMessage \<Rightarrow> cptr" where
  "first_string m = (case m_strings m of [] \<Rightarrow> Null | s # _ \<Rightarrow> s)"

definition enc_strings :: "CIDBMessage \<Rightarrow> byte list" where
  "enc_strings m = le16 (of_nat (length (m_strings m))) @ concat (map enc_cptr (m_strings m))"

definition wire :: "CIDBMessage \<Rightarrow> byte list" where
  "wire m =
    (let q = (subcmd m = CIDBMSG_SUBCMD_QUERY); e = le16 (errcode m); u = le16 (userid m);
         f = le16 (ucast (flags m)) in
     if cmd m = CIDBMSG_CMD_REGISTER then if q then [] else e @ le16 (clientid m)
     else if cmd m = CIDBMSG_CMD_CALLER_LIST then
       if q then u @ enc_cptr (first_string m) else e @ enc_table (table m)
     else if cmd m = CIDBMSG_CMD_READ_CALLER then
       if q then u @ f @ enc_cptr (first_string m) else e @ enc_table (table m)
     else if cmd m = CIDBMSG_CMD_WRITE_CALLER then
       if q then u @ f @ enc_table (table m) else e @ le32 (m_index m)
     else if cmd m = CIDBMSG_CMD_WRITE_CALL then
       if q then enc_table (table m) else e @ le32 (m_index m)
     else if cmd m = CIDBMSG_CMD_CALL_LIST then
       if q then le32 (m_offset m) @ le16 (m_count m) else e @ enc_table (table m)
     else if cmd m = CIDBMSG_CMD_SHOWTABLES then if q then [] else e @ enc_strings m
     else if cmd m = CIDBMSG_CMD_DESCRIBE_TABLE then
       if q then enc_cptr (first_string m) else e @ enc_strings m
     else if cmd m = CIDBMSG_CMD_DELETE_CALLER then if q then u @ enc_strings m else e
     else if cmd m = CIDBMSG_CMD_LIST_INFO then if q then [] else e @ le32 (maxentries m)
     else if q then le32 (m_mask m) else e)"

text \<open>
  The messages the functions are made for, and what the receiver of one obtains: the fields
  that belong to the command, and zero in all others, the message identifier among them.
\<close>

definition has_table :: "CIDBMessage \<Rightarrow> bool" where
  "has_table m \<longleftrightarrow>
     (if subcmd m = CIDBMSG_SUBCMD_QUERY
      then cmd m = CIDBMSG_CMD_WRITE_CALLER \<or> cmd m = CIDBMSG_CMD_WRITE_CALL
      else cmd m = CIDBMSG_CMD_CALLER_LIST \<or> cmd m = CIDBMSG_CMD_READ_CALLER \<or>
           cmd m = CIDBMSG_CMD_CALL_LIST)"

definition has_first_string :: "CIDBMessage \<Rightarrow> bool" where
  "has_first_string m \<longleftrightarrow> subcmd m = CIDBMSG_SUBCMD_QUERY \<and>
     (cmd m = CIDBMSG_CMD_CALLER_LIST \<or> cmd m = CIDBMSG_CMD_READ_CALLER \<or>
      cmd m = CIDBMSG_CMD_DESCRIBE_TABLE)"

definition has_strings :: "CIDBMessage \<Rightarrow> bool" where
  "has_strings m \<longleftrightarrow>
     (if subcmd m = CIDBMSG_SUBCMD_QUERY then cmd m = CIDBMSG_CMD_DELETE_CALLER
      else cmd m = CIDBMSG_CMD_SHOWTABLES \<or> cmd m = CIDBMSG_CMD_DESCRIBE_TABLE)"

text \<open>The eleven commands and the two directions, as one case split.\<close>

definition known_cmd :: "CIDBMessage \<Rightarrow> bool" where
  "known_cmd m \<longleftrightarrow>
     (cmd m = CIDBMSG_CMD_REGISTER \<or> cmd m = CIDBMSG_CMD_CALLER_LIST \<or>
      cmd m = CIDBMSG_CMD_READ_CALLER \<or> cmd m = CIDBMSG_CMD_WRITE_CALLER \<or>
      cmd m = CIDBMSG_CMD_WRITE_CALL \<or> cmd m = CIDBMSG_CMD_CALL_LIST \<or>
      cmd m = CIDBMSG_CMD_SHOWTABLES \<or> cmd m = CIDBMSG_CMD_DESCRIBE_TABLE \<or>
      cmd m = CIDBMSG_CMD_LIST_INFO \<or> cmd m = CIDBMSG_CMD_LISTEN \<or>
      cmd m = CIDBMSG_CMD_DELETE_CALLER) \<and>
     (subcmd m = CIDBMSG_SUBCMD_QUERY \<or> subcmd m = CIDBMSG_SUBCMD_RESP)"

definition message_ok :: "CIDBMessage \<Rightarrow> bool" where
  "message_ok m \<longleftrightarrow>
     known_cmd m \<and>
     (has_table m \<longrightarrow> table_ok (table m)) \<and>
     (has_first_string m \<longrightarrow> stringlist m \<noteq> Some [] \<and> sendable (first_string m)) \<and>
     (has_first_string m \<and> cmd m = CIDBMSG_CMD_DESCRIBE_TABLE \<longrightarrow> stringlist m \<noteq> None) \<and>
     (has_strings m \<longrightarrow> length (m_strings m) = unat (nstrings m) \<and>
        (\<forall>s \<in> set (m_strings m). sendable s)) \<and>
     (has_strings m \<and> cmd m = CIDBMSG_CMD_DELETE_CALLER \<longrightarrow> length (m_strings m) = 2) \<and>
     length (wire m) < 2 ^ 32"

section \<open>The size switch computes the length of the payload\<close>

lemma length_enc_cptr_pos: "0 < length (enc_cptr s)"
  by (simp add: length_enc_cptr length_enc_len)

lemma add_string_size_enc:
  assumes "sendable s"
  shows "add_string_size sz s = Some (sz + of_nat (length (enc_cptr s)) - 1)"
proof (cases "s = Null")
  case True
  then show ?thesis by (simp add: add_string_size_def enc_cptr_def sent_bytes_def enc_str_def enc_len_def)
next
  case False
  have "length (sent_bytes s) < 2 ^ 16" using assms by (simp add: sendable_def)
  then show ?thesis
    using False cstrlen_sendable[OF assms False]
    by (simp add: add_string_size_def Let_def u16_ge_255 ucast_of_nat_u16 length_enc_cptr length_enc_len)
qed

lemma string_at_0:
  "stringlist m \<noteq> Some [] \<Longrightarrow> sendable (first_string m) \<Longrightarrow> string_at m 0 = Some (first_string m)"
  by (auto simp: string_at_def first_string_def m_strings_def rd_def sendable_def
      split: option.splits list.splits)

lemma string_at_nth:
  "i < length (m_strings m) \<Longrightarrow> sendable (m_strings m ! i) \<Longrightarrow> string_at m i = Some (m_strings m ! i)"
  by (auto simp: string_at_def m_strings_def rd_def sendable_def split: option.splits)

lemma add_strings_size_enc:
  assumes "length (m_strings m) = unat (nstrings m)" and "\<forall>s \<in> set (m_strings m). sendable s"
  shows "add_strings_size m sz = Some (sz + of_nat (length (concat (map enc_cptr (m_strings m)))))"
proof (cases "stringlist m = None")
  case True
  then show ?thesis by (simp add: add_strings_size_def m_strings_def)
next
  case False
  have "for_n 0 (length (m_strings m))
      (\<lambda>i sz. do { s \<leftarrow> string_at m i; add_string_size (sz + 1) s }) sz
    = Some (sz + of_nat (sum_list (map (\<lambda>s. length (enc_cptr s)) (m_strings m))))"
  proof (rule for_n_sum)
    fix j and b :: u32
    assume j: "j < length (m_strings m)"
    then have s: "sendable (m_strings m ! j)" using assms(2) by simp
    show "do { s \<leftarrow> string_at m j; add_string_size (b + 1) s }
        = Some (b + of_nat (length (enc_cptr (m_strings m ! j))))"
      by (simp add: string_at_nth[OF j s] add_string_size_enc[OF s])
  qed
  then show ?thesis
    using False assms(1) by (auto simp: add_strings_size_def length_concat comp_def)
qed

lemma payload_size_enc:
  assumes ok: "message_ok m"
  shows "cidbmsg_payload_size m = Some (Some (of_nat (length (wire m))))"
proof -
  have tab: "cidbmsg_table_get_size (Some (table m)) = Some (of_nat (length (enc_table (table m))))"
    if "has_table m" using that ok by (simp add: message_ok_def table_get_size_enc)
  have fst: "string_at m 0 = Some (first_string m)"
    "add_string_size n (first_string m) = Some (n + of_nat (length (enc_cptr (first_string m))) - 1)"
    if "has_first_string m" for n
    using that ok by (auto simp: message_ok_def string_at_0 add_string_size_enc)
  have strs: "add_strings_size m n = Some (n + of_nat (length (concat (map enc_cptr (m_strings m)))))"
    if "has_strings m" for n
    using that ok by (simp add: message_ok_def add_strings_size_enc)
  have two: "\<exists>a b. stringlist m = Some [a, b] \<and> sendable a \<and> sendable b"
    if "has_strings m" "cmd m = CIDBMSG_CMD_DELETE_CALLER"
    using that ok by (auto simp: message_ok_def m_strings_def length_Suc_conv numeral_2_eq_2
        split: option.splits)
  have del: "\<exists>a b. stringlist m = Some [a, b] \<and> string_at m 0 = Some a \<and> string_at m 1 = Some b \<and>
      sendable a \<and> sendable b \<and> m_strings m = [a, b]"
    if "has_strings m" "cmd m = CIDBMSG_CMD_DELETE_CALLER"
    using two[OF that] by (auto simp: string_at_def rd_def sendable_def m_strings_def)
  note defs = cidbmsg_payload_size_def Let_def wire_def enc_strings_def
    has_table_def has_first_string_def has_strings_def
  from ok have cmds: "known_cmd m" by (simp add: message_ok_def)
  show ?thesis
  proof (cases "cmd m = CIDBMSG_CMD_DELETE_CALLER \<and> subcmd m = CIDBMSG_SUBCMD_QUERY")
    case True
    then obtain a b where ab: "stringlist m = Some [a, b]" "string_at m 0 = Some a"
      "string_at m 1 = Some b" "sendable a" "sendable b" "m_strings m = [a, b]"
      using del by (auto simp: has_strings_def)
    show ?thesis using True ab(1-3,6)
      by (simp add: defs add_string_size_enc[OF ab(4)] add_string_size_enc[OF ab(5)])
  next
    case False
    then show ?thesis
      using cmds unfolding known_cmd_def by (elim conjE disjE) (simp_all add: defs tab fst strs)
  qed
qed

section \<open>The payload switch writes the payload\<close>

lemma write_strings_put:
  assumes n: "length (m_strings m) = unat (nstrings m)"
    and ok: "\<forall>s \<in> set (m_strings m). sendable s"
    and len: "4 + length (concat (map enc_cptr (m_strings m))) < 2 ^ 32" and d: "4 \<le> length d"
  shows "write_strings m d = put d 4 (concat (map enc_cptr (m_strings m)))"
proof -
  have "for_n 0 (unat (nstrings m))
      (\<lambda>i (d, pos). do {
         arr \<leftarrow> stringlist m; s \<leftarrow> rd arr i;
         (d, k) \<leftarrow> cidbmsg_write_string d (unat pos) s; Some (d, pos + k) }) (d, 4)
    = for_n 0 (length (m_strings m)) (str_codec.write_step 0 (m_strings m)) (d, 4)"
  proof (cases "stringlist m")
    case None
    then show ?thesis using n by (simp add: m_strings_def)
  next
    case (Some arr)
    then show ?thesis
      using n by (simp add: m_strings_def str_codec.write_step_def[abs_def] case_prod_unfold)
  qed
  also have "\<dots> = map_option (\<lambda>d. (d, 4 + of_nat (length (concat (map enc_cptr (m_strings m))))))
      (put d 4 (concat (map enc_cptr (m_strings m))))"
    using str_codec.write_all[OF ok, of 4 0 d] len d by simp
  finally show ?thesis by (simp add: write_strings_def)
qed

lemma write_first_string_put:
  assumes "stringlist m \<noteq> Some []" and "sendable (first_string m)"
  shows "write_first_string m d p = put d p (enc_cptr (first_string m))"
  using assms
  by (simp add: write_first_string_def string_at_0 write_string_put mem_write enc_cptr_def
      sent_bytes_def enc_str_def enc_len_def)

lemma write_describe_put:
  assumes "stringlist m \<noteq> Some []" "stringlist m \<noteq> None" and "sendable (first_string m)"
  shows "(case stringlist m of
            Some arr \<Rightarrow> do { s \<leftarrow> rd arr 0; (d, k) \<leftarrow> cidbmsg_write_string d 0 s; Some d }
          | None \<Rightarrow> cidb_set_ushort d 0 0) = put d 0 (enc_cptr (first_string m))"
  using assms
  by (auto simp: first_string_def m_strings_def rd_def write_string_put split: option.splits list.splits)

text \<open>The strings behind a four-byte head.\<close>

lemma put_head_strings:
  assumes n: "length (m_strings m) = unat (nstrings m)"
    and ok: "\<forall>s \<in> set (m_strings m). sendable s"
    and len: "4 + length (concat (map enc_cptr (m_strings m))) < 2 ^ 32" and h: "length h = 4"
  shows "Option.bind (put d 0 h) (write_strings m) = put d 0 (h @ concat (map enc_cptr (m_strings m)))"
proof (cases "put d 0 h")
  case None
  then have "put d 0 (h @ concat (map enc_cptr (m_strings m))) = None" by (simp add: put_None_iff)
  then show ?thesis using None by simp
next
  case (Some b)
  then have "4 \<le> length b" using put_take_drop[OF Some] put_length[OF Some] h by simp
  then show ?thesis
    using Some write_strings_put[OF n ok len, of b] put_put[of d 0 h] h by simp
qed

lemma write_err_strings:
  assumes "length (m_strings m) = unat (nstrings m)"
    and "\<forall>s \<in> set (m_strings m). sendable s"
    and "4 + length (concat (map enc_cptr (m_strings m))) < 2 ^ 32"
  shows "Option.bind (put d 0 (le16 e))
      (\<lambda>d. if \<exists>xs. stringlist m = Some xs
           then Option.bind (cidb_set_ushort d 2 (nstrings m)) (write_strings m)
           else cidb_set_ushort d 2 0) = put d 0 (le16 e @ enc_strings m)"
proof (cases "stringlist m")
  case None
  then show ?thesis by (simp add: mem_write enc_strings_def m_strings_def)
next
  case (Some xs)
  then have "Option.bind (put d 0 (le16 e))
      (\<lambda>d. Option.bind (cidb_set_ushort d 2 (nstrings m)) (write_strings m))
    = Option.bind (put d 0 (le16 e @ le16 (nstrings m))) (write_strings m)"
    by (simp add: mem_write)
  then show ?thesis
    using Some put_head_strings[OF assms, of "le16 e @ le16 (nstrings m)" d] assms(1)
    by (simp add: enc_strings_def)
qed

lemma write_payload_wire:
  assumes ok: "message_ok m" and d: "length d = length (wire m)"
  shows "cidbmsg_write_payload m d = Some (wire m)"
proof -
  have whole: "put d 0 (wire m) = Some (wire m)" using d by (rule put_whole)
  have len: "length (wire m) < 2 ^ 32" using ok by (simp add: message_ok_def)
  have tab: "write_table_into d p (table m) =
      map_option (\<lambda>d. (d, of_nat (length (enc_table (table m))))) (put d p (enc_table (table m)))"
    if "has_table m" for d p
    using that ok by (simp add: message_ok_def table_codec.writes_put)
  have fst: "write_first_string m d p = put d p (enc_cptr (first_string m))"
    if "has_first_string m" for d p
    using that ok by (simp add: message_ok_def write_first_string_put)
  have strlen: "length (m_strings m) = unat (nstrings m)" "\<forall>s \<in> set (m_strings m). sendable s"
    "4 + length (concat (map enc_cptr (m_strings m))) < 2 ^ 32" if "has_strings m"
    using that ok len
    by (auto simp: wire_def Let_def enc_strings_def has_strings_def message_ok_def known_cmd_def
        split: if_splits)
  have strs: "Option.bind (put d 0 (a @ le16 (nstrings m))) (write_strings m)
      = put d 0 (a @ enc_strings m)" if "has_strings m" "length a = 2" for a
    using put_head_strings[OF strlen[OF that(1)], of "a @ le16 (nstrings m)" d]
      strlen(1)[OF that(1)] that(2) by (simp add: enc_strings_def)
  have errs: "Option.bind (put d 0 (le16 e))
      (\<lambda>d. if \<exists>xs. stringlist m = Some xs
           then Option.bind (cidb_set_ushort d 2 (nstrings m)) (write_strings m)
           else cidb_set_ushort d 2 0) = put d 0 (le16 e @ enc_strings m)" if "has_strings m" for e
    by (rule write_err_strings[OF strlen[OF that]])
  have desc: "(case stringlist m of
            Some arr \<Rightarrow> do { s \<leftarrow> rd arr 0; (d, k) \<leftarrow> cidbmsg_write_string d 0 s; Some d }
          | None \<Rightarrow> cidb_set_ushort d 0 0) = put d 0 (enc_cptr (first_string m))"
    if "has_first_string m" "cmd m = CIDBMSG_CMD_DESCRIBE_TABLE"
    using that ok by (intro write_describe_put) (auto simp: message_ok_def)
  from ok have cmds: "known_cmd m" by (simp add: message_ok_def)
  note defs = cidbmsg_write_payload_def wire_def Let_def has_table_def has_first_string_def has_strings_def
  have zero: "wire m = [] \<Longrightarrow> d = []" using d by simp
  show ?thesis
    using cmds whole zero unfolding known_cmd_def
    by (elim conjE disjE)
       (simp_all add: defs tab fst strs errs desc mem_write)
qed

section \<open>The reader recovers the message\<close>

text \<open>What the receiver's machine must have for the message: the memory for its strings and table.\<close>

definition message_readable :: "allocator \<Rightarrow> CIDBMessage \<Rightarrow> bool" where
  "message_readable env m \<longleftrightarrow> message_ok m \<and>
     (has_table m \<longrightarrow> table_readable env (table m)) \<and>
     (has_first_string m \<longrightarrow> receivable env (first_string m) \<and> alloc_ok env 8) \<and>
     (has_strings m \<longrightarrow> (\<forall>s \<in> set (m_strings m). receivable env s) \<and>
        alloc_ok env (8 * length (m_strings m)))"

definition delivered :: "CIDBMessage \<Rightarrow> CIDBMessage" where
  "delivered m =
    (let q = (subcmd m = CIDBMSG_SUBCMD_QUERY);
         z = zero_message\<lparr>cmd := cmd m, subcmd := subcmd m\<rparr>;
         e = z\<lparr>errcode := errcode m\<rparr>; u = z\<lparr>userid := userid m\<rparr>;
         uf = u\<lparr>flags := ucast (ucast (flags m) :: u16)\<rparr>;
         t = received_table (table m);
         one = (\<lambda>m'. m'\<lparr>nstrings := 1, stringlist := Some [received (first_string m)]\<rparr>);
         strs = (\<lambda>m'. m'\<lparr>nstrings := of_nat (length (m_strings m)),
                    stringlist := (if m_strings m = [] then None
                                   else Some (map received (m_strings m)))\<rparr>)
     in
     if cmd m = CIDBMSG_CMD_REGISTER then if q then z else e\<lparr>clientid := clientid m\<rparr>
     else if cmd m = CIDBMSG_CMD_CALLER_LIST then if q then one u else e\<lparr>table := t\<rparr>
     else if cmd m = CIDBMSG_CMD_READ_CALLER then if q then one uf else e\<lparr>table := t\<rparr>
     else if cmd m = CIDBMSG_CMD_WRITE_CALLER then
       if q then uf\<lparr>table := t\<rparr> else e\<lparr>m_index := m_index m\<rparr>
     else if cmd m = CIDBMSG_CMD_WRITE_CALL then
       if q then z\<lparr>table := t\<rparr> else e\<lparr>m_index := m_index m\<rparr>
     else if cmd m = CIDBMSG_CMD_CALL_LIST then
       if q then z\<lparr>m_offset := m_offset m, m_count := m_count m\<rparr> else e\<lparr>table := t\<rparr>
     else if cmd m = CIDBMSG_CMD_SHOWTABLES then if q then z else strs e
     else if cmd m = CIDBMSG_CMD_DESCRIBE_TABLE then if q then one z else strs e
     else if cmd m = CIDBMSG_CMD_DELETE_CALLER then if q then strs u else e
     else if cmd m = CIDBMSG_CMD_LIST_INFO then if q then z else e\<lparr>maxentries := maxentries m\<rparr>
     else if q then z\<lparr>m_mask := m_mask m\<rparr> else e)"

text \<open>Reads at the fixed offsets 0, 2 and 4 of a payload.\<close>

lemma get_ushort_0: "CIDB_GET_USHORT (le16 v @ post) 0 = Some (ucast v)"
  using get_ushort_at[of "[]" v post] by simp

lemma get_ushort_0': "CIDB_GET_USHORT (le16 v) 0 = Some (ucast v)"
  using get_ushort_0[of v "[]"] by simp

lemma get_ulong_0: "CIDB_GET_ULONG (le32 v @ post) 0 = Some v"
  using get_ulong_at[of "[]" v post] by simp

lemma get_ulong_0': "CIDB_GET_ULONG (le32 v) 0 = Some v"
  using get_ulong_0[of v "[]"] by simp

lemma get_ushort_2: "CIDB_GET_USHORT (le16 a @ le16 v @ post) 2 = Some (ucast v)"
  using get_ushort_at[of "le16 a" v post] by simp

lemma get_ushort_2': "CIDB_GET_USHORT (le16 a @ le16 v) 2 = Some (ucast v)"
  using get_ushort_2[of a v "[]"] by simp

lemma get_ulong_2: "CIDB_GET_ULONG (le16 a @ le32 v) 2 = Some v"
  using get_ulong_at[of "le16 a" v "[]"] by simp

lemma get_ushort_4: "CIDB_GET_USHORT (le32 a @ le16 v) 4 = Some (ucast v)"
  using get_ushort_at[of "le32 a" v "[]"] by simp

lemmas get_fixed = get_ushort_0 get_ushort_0' get_ulong_0 get_ulong_0' get_ushort_2 get_ushort_2'
  get_ulong_2 get_ushort_4

lemma read_one_string_enc:
  assumes "receivable env s" and "alloc_ok env 8" and "length pre = p"
  shows "read_one_string env (pre @ enc_cptr s) p m
    = Some (m\<lparr>nstrings := 1, stringlist := Some [received s]\<rparr>)"
  using assms str_codec.reads_enc[of env s pre "[]"] by (auto simp: read_one_string_def)

lemma read_table_at_enc:
  assumes "table_readable env t" and "length pre = p"
  shows "read_table_at env (pre @ enc_table t) p m = Some (m\<lparr>table := received_table t\<rparr>)"
  using assms table_codec.reads_enc[of env t pre "[]"] by (auto simp: read_table_at_def)

lemma read_strings_enc:
  assumes ok: "\<forall>s \<in> set xs. receivable env s" and al: "alloc_ok env (8 * length xs)"
    and n: "length xs < 2 ^ 16" and len: "4 + length (concat (map enc_cptr xs)) < 2 ^ 32"
  shows "read_strings env (le16 e @ le16 (of_nat (length xs)) @ concat (map enc_cptr xs)) m
    = Some (m\<lparr>nstrings := of_nat (length xs),
              stringlist := (if xs = [] then stringlist m else Some (map received xs))\<rparr>)"
proof -
  let ?d = "(le16 e @ le16 (of_nat (length xs))) @ concat (map enc_cptr xs) @ []"
  have u: "unat (of_nat (length xs) :: u16) = length xs" using n by (simp add: unat_of_nat_small)
  have z: "(of_nat (length xs) :: u16) = 0 \<longleftrightarrow> xs = []"
    unfolding unat_eq_0[symmetric] u by simp
  have "for_n 0 (length xs) (str_codec.read_step env 0 ?d) (replicate (length xs) Uninit, 4)
     = Some (map received xs, 4 + of_nat (length (concat (map enc_cptr xs))))"
    by (rule str_codec.read_all) (use ok len in auto)
  then have "for_n 0 (length xs)
      (\<lambda>i (arr, pos). do {
         (s, k) \<leftarrow> read_string_into env ?d (unat pos); arr \<leftarrow> wr arr i s; Some (arr, pos + k) })
      (replicate (length xs) Uninit, 4)
     = Some (map received xs, 4 + of_nat (length (concat (map enc_cptr xs))))"
    by (simp add: str_codec.read_step_def[abs_def] case_prod_unfold)
  then show ?thesis
    using al z u by (simp add: read_strings_def get_ushort_2 Let_def)
qed

lemma read_payload_wire:
  assumes ok: "message_readable env m"
  shows "cidbmsg_read_payload env (if wire m = [] then None else Some (wire m))
      (zero_message\<lparr>cmd := cmd m, subcmd := subcmd m\<rparr>) = Some (delivered m)"
proof -
  have mok: "message_ok m" and cmds: "known_cmd m" and len: "length (wire m) < 2 ^ 32"
    using ok by (auto simp: message_readable_def message_ok_def)
  have tab: "read_table_at env (pre @ enc_table (table m)) p m'
      = Some (m'\<lparr>table := received_table (table m)\<rparr>)" if "has_table m" "length pre = p" for pre p m'
    using that ok by (simp add: message_readable_def read_table_at_enc)
  have fst: "read_one_string env (pre @ enc_cptr (first_string m)) p m'
      = Some (m'\<lparr>nstrings := 1, stringlist := Some [received (first_string m)]\<rparr>)"
    if "has_first_string m" "length pre = p" for pre p m'
    using that ok by (simp add: message_readable_def read_one_string_enc)
  have strs: "read_strings env (le16 e @ enc_strings m) m'
      = Some (m'\<lparr>nstrings := of_nat (length (m_strings m)),
          stringlist := (if m_strings m = [] then stringlist m' else Some (map received (m_strings m)))\<rparr>)"
    if "has_strings m" for e m'
    unfolding enc_strings_def
  proof (rule read_strings_enc)
    have "length (m_strings m) = unat (nstrings m)"
      using that mok by (simp add: message_ok_def)
    moreover have "unat (nstrings m) < 2 ^ LENGTH(16)" by (rule unsigned_less)
    ultimately show "length (m_strings m) < 2 ^ 16" by simp
    show "4 + length (concat (map enc_cptr (m_strings m))) < 2 ^ 32"
      using that len cmds
      by (auto simp: wire_def Let_def enc_strings_def has_strings_def known_cmd_def split: if_splits)
  qed (use that ok in \<open>auto simp: message_readable_def\<close>)
  have two: "read_errcode (le16 e @ post) m' = Some (m'\<lparr>errcode := e\<rparr>)"
    "read_userid (le16 e @ post) m' = Some (m'\<lparr>userid := e\<rparr>)"
    "read_errcode (le16 e) m' = Some (m'\<lparr>errcode := e\<rparr>)" for e post m'
    by (simp_all add: read_errcode_def read_userid_def get_fixed)
  have tabs: "read_table_at env (enc_table (table m)) 0 m' = Some (m'\<lparr>table := received_table (table m)\<rparr>)"
    "read_table_at env (le16 a @ enc_table (table m)) 2 m' = Some (m'\<lparr>table := received_table (table m)\<rparr>)"
    "read_table_at env (le16 a @ le16 b @ enc_table (table m)) 4 m'
      = Some (m'\<lparr>table := received_table (table m)\<rparr>)" if "has_table m" for a b m'
    using tab[OF that, of "[]" 0] tab[OF that, of "le16 a" 2] tab[OF that, of "le16 a @ le16 b" 4]
    by simp_all
  have fsts: "read_one_string env (enc_cptr (first_string m)) 0 m'
      = Some (m'\<lparr>nstrings := 1, stringlist := Some [received (first_string m)]\<rparr>)"
    "read_one_string env (le16 a @ enc_cptr (first_string m)) 2 m'
      = Some (m'\<lparr>nstrings := 1, stringlist := Some [received (first_string m)]\<rparr>)"
    "read_one_string env (le16 a @ le16 b @ enc_cptr (first_string m)) 4 m'
      = Some (m'\<lparr>nstrings := 1, stringlist := Some [received (first_string m)]\<rparr>)"
    if "has_first_string m" for a b m'
    using fst[OF that, of "[]" 0] fst[OF that, of "le16 a" 2] fst[OF that, of "le16 a @ le16 b" 4]
    by simp_all
  have ne: "le16 a \<noteq> []" "le32 c \<noteq> []" "enc_cptr s \<noteq> []" "enc_table t \<noteq> []" for a c s t
    using length_enc_cptr_pos[of s] by (auto simp: le16_def le32_def enc_table_def)
  note defs = cidbmsg_read_payload_def wire_def delivered_def Let_def
    has_table_def has_first_string_def has_strings_def zero_message_def
  show ?thesis
  proof (cases "subcmd m = CIDBMSG_SUBCMD_QUERY")
    case True
    from cmds show ?thesis unfolding known_cmd_def
      by (elim conjE disjE) (use True in \<open>simp_all add: defs tabs fsts strs two get_fixed ne\<close>)
  next
    case False
    from cmds show ?thesis unfolding known_cmd_def
      by (elim conjE disjE) (use False in \<open>simp_all add: defs tabs fsts strs two get_fixed ne\<close>)
  qed
qed

section \<open>The two functions\<close>

definition written :: "CIDBMessage \<Rightarrow> CIDBMsg \<Rightarrow> CIDBMsg" where
  "written m g =
     g\<lparr>header := second_header m (of_nat (length (wire m))) (first_header m (header g)),
       data := (if wire m = [] then None else Some (wire m))\<rparr>"

lemma write_message_written:
  assumes ok: "message_ok m" and al: "wire m \<noteq> [] \<longrightarrow> alloc_ok env (length (wire m))"
  shows "cidbmsg_write_message env (Some m) (Some g)
    = Some (Some (written m g), of_nat (length (wire m)))"
proof -
  have u: "unat (of_nat (length (wire m)) :: u32) = length (wire m)"
    using ok by (simp add: message_ok_def unat_of_nat_small)
  have z: "(of_nat (length (wire m)) :: u32) = 0 \<longleftrightarrow> wire m = []"
    unfolding unat_eq_0[symmetric] u by simp
  show ?thesis
    using al u z
    by (simp add: cidbmsg_write_message_def payload_size_enc[OF ok] Let_def written_def
        write_payload_wire[OF ok])
qed

lemma message_ok_known: "message_ok m \<Longrightarrow> known_cmd m"
  unfolding message_ok_def by (rule conjunct1)

lemma message_ok_length: "message_ok m \<Longrightarrow> length (wire m) < 2 ^ 32"
  by (simp add: message_ok_def)

lemma known_cmd_dir:
  "known_cmd m \<Longrightarrow> subcmd m = CIDBMSG_SUBCMD_QUERY \<or> subcmd m = CIDBMSG_SUBCMD_RESP"
  unfolding known_cmd_def by (rule conjunct2)

lemma message_readable_ok: "message_readable env m \<Longrightarrow> message_ok m"
  unfolding message_readable_def by (rule conjunct1)

lemma read_message_wire:
  assumes r: "message_readable env m" and h: "msgCommand h = cmd m" "msgSubcommand h = subcmd m"
  shows "cidbmsg_read_message env
      (Some \<lparr>header = h, data = (if wire m = [] then None else Some (wire m))\<rparr>) (Some m0)
    = Some (Some (delivered m))"
  using read_payload_wire[OF r] known_cmd_dir[OF message_ok_known[OF message_readable_ok[OF r]]] h
  by (simp add: cidbmsg_read_message_def Let_def zero_message_def) (elim disjE; simp)

lemma delivered_cmd: "cmd (delivered m) = cmd m" "subcmd (delivered m) = subcmd m"
  by (simp_all add: delivered_def Let_def zero_message_def)

lemma delivered_dropped: "msgid (delivered m) = 0"
  by (simp add: delivered_def Let_def zero_message_def)

section \<open>Messages outside the contract\<close>

lemma enc_empty_query: "cidbmsg_payload_size m = Some (Some 1)"
  if "cmd m = CIDBMSG_CMD_DESCRIBE_TABLE" "subcmd m = CIDBMSG_SUBCMD_QUERY" "stringlist m = None"
  using that by (simp add: cidbmsg_payload_size_def Let_def string_at_def add_string_size_def)

lemma payload_size_unknown:
  "\<not> known_cmd m \<Longrightarrow> cmd m \<noteq> CIDBMSG_CMD_LISTEN \<Longrightarrow> cidbmsg_payload_size m = Some None"
  unfolding known_cmd_def de_Morgan_conj de_Morgan_disj
  by (elim disjE conjE) (simp_all add: cidbmsg_payload_size_def Let_def)

section \<open>Properties\<close>

text \<open>
  C21: \<open>cidbmsg_write_message\<close> on a well-formed message: the size the first switch computes is
  the length of the payload, the second switch fills the block of that size exactly, and the
  header gets the message's command, client, identifier and data size.
\<close>

theorem write_message_functional:
  assumes "message_ok m" and "alloc_ok env (length (wire m))"
  shows "\<exists>h. cidbmsg_write_message env (Some m) (Some g)
      = Some (Some (g\<lparr>header := h, data := (if wire m = [] then None else Some (wire m))\<rparr>),
              of_nat (length (wire m))) \<and>
    msgCommand h = cmd m \<and> msgSubcommand h = subcmd m \<and> ClientId h = clientid m \<and>
    msgId h = msgid m \<and> msgFlags h = 0 \<and> unat (dataSize h) = length (wire m) \<and> partSize h = 0"
  using write_message_written[OF assms(1), of env g] assms(2) message_ok_length[OF assms(1)]
  by (auto simp: written_def second_header_def memset_header_22_def unat_of_nat_small)

definition sample_response :: CIDBMessage where
  "sample_response = zero_message\<lparr>cmd := CIDBMSG_CMD_CALL_LIST, subcmd := CIDBMSG_SUBCMD_RESP,
     msgid := 5, clientid := 2, table := sample_table\<rparr>"

lemma sample_response_ok: "message_ok sample_response"
  by (simp add: message_ok_def known_cmd_def sample_response_def zero_message_def has_table_def
      has_first_string_def has_strings_def wire_def Let_def table_ok_def table_shape_def
      sample_table_def t_names_def t_cells_def sendable_def sent_bytes_def cbytes_def enc_table_def
      enc_cptr_def length_enc_str)

theorem write_message_functional_witness:
  "\<exists>h. cidbmsg_write_message \<lparr>alloc_ok = \<lambda>_. True, garbage = \<lambda>_. 1\<rparr> (Some sample_response)
        (Some \<lparr>header = sample_header, data = None\<rparr>)
      = Some (Some (\<lparr>header = sample_header, data = None\<rparr>\<lparr>header := h,
                data := (if wire sample_response = [] then None else Some (wire sample_response))\<rparr>),
              of_nat (length (wire sample_response))) \<and>
    msgCommand h = cmd sample_response \<and> msgSubcommand h = subcmd sample_response \<and>
    ClientId h = clientid sample_response \<and> msgId h = msgid sample_response \<and> msgFlags h = 0 \<and>
    unat (dataSize h) = length (wire sample_response) \<and> partSize h = 0"
  by (rule write_message_functional[OF sample_response_ok]) simp

text \<open>
  The queries \<open>cidbmsg_write_message\<close> does not have the room for. A DESCRIBE_TABLE query
  without a string list gets a block of one byte and writes a two-byte zero into it; a
  DELETE_CALLER query with two strings is measured for two but writes all \<open>nstrings\<close>: with a
  third one it leaves the block.
\<close>

theorem write_message_overruns:
  "(cmd m = CIDBMSG_CMD_DESCRIBE_TABLE \<and> subcmd m = CIDBMSG_SUBCMD_QUERY \<and> stringlist m = None
      \<longrightarrow> cidbmsg_write_message env (Some m) (Some g) = None) \<and>
   (cmd m = CIDBMSG_CMD_DELETE_CALLER \<and> subcmd m = CIDBMSG_SUBCMD_QUERY \<and>
      stringlist m = Some [Null, Null, Null] \<and> nstrings m = 3
      \<longrightarrow> cidbmsg_write_message env (Some m) (Some g) = None)"
proof (intro conjI impI)
  assume a: "cmd m = CIDBMSG_CMD_DESCRIBE_TABLE \<and> subcmd m = CIDBMSG_SUBCMD_QUERY \<and> stringlist m = None"
  then have "cidbmsg_payload_size m = Some (Some 1)" by (simp add: enc_empty_query)
  moreover have "cidbmsg_write_payload m d = None" if "length d = 1" for d
    using a that by (simp add: cidbmsg_write_payload_def Let_def mem_write put_def)
  ultimately show "cidbmsg_write_message env (Some m) (Some g) = None"
    by (simp add: cidbmsg_write_message_def Let_def)
next
  assume a: "cmd m = CIDBMSG_CMD_DELETE_CALLER \<and> subcmd m = CIDBMSG_SUBCMD_QUERY \<and>
      stringlist m = Some [Null, Null, Null] \<and> nstrings m = 3"
  then have "cidbmsg_payload_size m = Some (Some 6)"
    by (simp add: cidbmsg_payload_size_def Let_def string_at_def rd_def add_string_size_def)
  moreover have "write_strings m d = put d 4 [0, 0, 0]" if "4 \<le> length d" for d
    using write_strings_put[of m d] a that
    by (simp add: m_strings_def sendable_def sent_bytes_def enc_cptr_def enc_str_def enc_len_def)
  then have "cidbmsg_write_payload m d = None" if "length d = 6" for d
    using a that by (simp add: cidbmsg_write_payload_def Let_def mem_write put_def)
  ultimately show "cidbmsg_write_message env (Some m) (Some g) = None"
    by (simp add: cidbmsg_write_message_def Let_def)
qed

theorem write_message_overruns_witness:
  "cidbmsg_write_message \<lparr>alloc_ok = \<lambda>_. True, garbage = \<lambda>_. 1\<rparr>
      (Some (zero_message\<lparr>cmd := CIDBMSG_CMD_DELETE_CALLER, subcmd := CIDBMSG_SUBCMD_QUERY,
         nstrings := 3, stringlist := Some [Null, Null, Null]\<rparr>))
      (Some \<lparr>header = sample_header, data = None\<rparr>) = None"
  using write_message_overruns[of "zero_message\<lparr>cmd := CIDBMSG_CMD_DELETE_CALLER,
      subcmd := CIDBMSG_SUBCMD_QUERY, nstrings := 3, stringlist := Some [Null, Null, Null]\<rparr>"]
  by simp

end
