(* ===== verification/Transmission.thy ===== *)
theory Transmission
  imports WireMessage
begin

text \<open>
  The transmission of a message in packets of at most 2048 bytes: the two functions of
  \<open>cidbmessages.c\<close> that cut a message into parts, and \<open>cidbconnection.c\<close>, which sends the
  parts and puts received parts together. The kernel's side of a socket is a parameter: what
  \<open>send\<close> returns on its k-th call, and what each call of \<open>recv\<close> delivers.
\<close>

section \<open>Cutting a message into parts\<close>

record CIDBMsgTransmission =
  completeMsg :: CIDBMsg
  t_offset :: u32

text \<open>\<open>&completeMsg->data[off]\<close>, \<open>n\<close> bytes; nothing is read from a NULL pointer when \<open>n = 0\<close>.\<close>

definition data_part :: "byte list option \<Rightarrow> nat \<Rightarrow> nat \<Rightarrow> byte list option" where
  "data_part dat off n = (case dat of
      None \<Rightarrow> if n = 0 then Some [] else None
    | Some d \<Rightarrow> slice d off n)"

definition cidbmsg_transmission_start ::
  "byte list \<Rightarrow> CIDBMsgTransmission \<Rightarrow> (byte list \<times> CIDBMsgTransmission \<times> u32) option" where
  "cidbmsg_transmission_start part msg =
    (let g = completeMsg msg; n = dataSize (header g);
         ps = (if of_nat CIDBMSG_DATA_SIZE < n then of_nat CIDBMSG_DATA_SIZE else n);
         h = (header g)\<lparr>partSize := ps, h_offset := 0\<rparr> in do {
       (dst, k) \<leftarrow> cidbmsg_prepare_header (Some part) (Some h);
       part \<leftarrow> dst;
       xs \<leftarrow> data_part (data g) 0 (unat ps);
       part \<leftarrow> put part CIDBMSG_HEADER_SIZE xs;
       Some (part, \<lparr>completeMsg = g\<lparr>header := h\<rparr>, t_offset = ps\<rparr>,
             ps + of_nat CIDBMSG_HEADER_SIZE) })"

definition cidbmsg_transmission_continue ::
  "byte list \<Rightarrow> CIDBMsgTransmission \<Rightarrow> (byte list \<times> CIDBMsgTransmission \<times> u32) option" where
  "cidbmsg_transmission_continue part msg =
    (let g = completeMsg msg; n = dataSize (header g); off = t_offset msg in
     if n \<le> off then Some (part, msg, 0)
     else
       let ps = (if of_nat CIDBMSG_DATA_SIZE \<le> n - off then of_nat CIDBMSG_DATA_SIZE else n - off);
           h = (header g)\<lparr>partSize := ps, h_offset := off\<rparr> in do {
       (dst, k) \<leftarrow> cidbmsg_prepare_header (Some part) (Some h);
       part \<leftarrow> dst;
       xs \<leftarrow> data_part (data g) (unat off) (unat ps);
       part \<leftarrow> put part CIDBMSG_HEADER_SIZE xs;
       Some (part, \<lparr>completeMsg = g\<lparr>header := h\<rparr>, t_offset = off + ps\<rparr>,
             ps + of_nat CIDBMSG_HEADER_SIZE) })"

lemma continue_progress:
  assumes "cidbmsg_transmission_continue part t = Some (part', t', n')" and "n' \<noteq> 0"
  shows "dataSize (header (completeMsg t')) = dataSize (header (completeMsg t)) \<and>
    t_offset t < t_offset t' \<and> t_offset t' \<le> dataSize (header (completeMsg t'))"
proof -
  define n where "n = dataSize (header (completeMsg t))"
  define off where "off = t_offset t"
  define ps :: u32 where "ps = (if 2026 \<le> n - off then 2026 else n - off)"
  have lt: "off < n"
    using assms by (auto simp: cidbmsg_transmission_continue_def Let_def n_def off_def split: if_splits)
  have ps: "0 < ps" "ps \<le> n - off"
    using lt by (auto simp: ps_def word_neq_0_conv[symmetric])
  have t': "t_offset t' = off + ps" "dataSize (header (completeMsg t')) = n"
    using assms lt
    by (auto simp: cidbmsg_transmission_continue_def Let_def n_def off_def ps_def c_bind
        split: if_splits)
  have "unat (n - off) = unat n - unat off" using lt by (simp add: unat_sub)
  then have b: "unat off + unat ps \<le> unat n"
    using ps(2) lt by (simp add: word_le_nat_alt word_less_nat_alt)
  then have "unat (off + ps) = unat off + unat ps"
    using unat_add_lem[of off ps] unsigned_less[of n] by (metis le_less_trans)
  then show ?thesis
    using b ps(1) t' by (simp add: n_def off_def word_less_nat_alt word_le_nat_alt)
qed

section \<open>Sending\<close>

text \<open>
  The loop \<open>while (bytes)\<close> of \<open>cidbcon_send_message\<close>. \<open>rc k n\<close> is what \<open>send\<close> returns when it is
  called for the k-th time, with \<open>n\<close> bytes; the result is the return value and the packets
  given to \<open>send\<close>.
\<close>

function send_loop ::
  "(nat \<Rightarrow> nat \<Rightarrow> int) \<Rightarrow> nat \<Rightarrow> byte list \<Rightarrow> CIDBMsgTransmission \<Rightarrow> u32 \<Rightarrow> byte list list \<Rightarrow>
   (int \<times> byte list list) option" where
  "send_loop rc k buf t n out =
    (if n = 0 then Some (0, out)
     else case slice buf 0 (unat n) of
       None \<Rightarrow> None
     | Some p \<Rightarrow>
         if rc k (unat n) \<noteq> int (unat n) then Some (1, out @ [p])
         else (case cidbmsg_transmission_continue buf t of
           None \<Rightarrow> None
         | Some (buf', t', n') \<Rightarrow> send_loop rc (Suc k) buf' t' n' (out @ [p])))"
  by pat_completeness auto

termination
proof (relation "measure (\<lambda>(rc, k, buf, t, n, out).
    if n = 0 then 0
    else Suc (unat (dataSize (header (completeMsg t))) - unat (t_offset t)))", goal_cases)
  case (2 rc k buf t n out p r buf' q t' n')
  then have c: "cidbmsg_transmission_continue buf t = Some (buf', t', n')" by simp
  then show ?case
    using 2(1) continue_progress[OF c] by (auto simp: word_less_nat_alt word_le_nat_alt)
qed simp

text \<open>
  \<open>g0\<close> is what the fresh \<open>CIDBMsg\<close> holds, \<open>buf\<close> what the array \<open>buffer\<close> of 2048 bytes holds;
  the result of \<open>cidbmsg_write_message\<close> is not looked at.
\<close>

definition cidbcon_send_message ::
  "allocator \<Rightarrow> (nat \<Rightarrow> nat \<Rightarrow> int) \<Rightarrow> CIDBMsg \<Rightarrow> byte list \<Rightarrow> CIDBMessage option \<Rightarrow>
   (int \<times> byte list list) option" where
  "cidbcon_send_message env rc g0 buf dbmsg =
     (if \<not> alloc_ok env 32 then None
      else do {
        (g, r) \<leftarrow> cidbmsg_write_message env dbmsg (Some g0);
        g \<leftarrow> g;
        (buf, t, n) \<leftarrow> cidbmsg_transmission_start buf \<lparr>completeMsg = g, t_offset = 0\<rparr>;
        send_loop rc 0 buf t n [] })"

section \<open>Receiving\<close>

text \<open>What a call of \<open>recv\<close> with room for 2048 bytes does: it fails with -1, or it delivers bytes.\<close>

datatype recv_result = RecvError | Received "byte list"

definition recv :: "recv_result \<Rightarrow> byte list \<Rightarrow> u32 \<times> byte list" where
  "recv r buf = (case r of
      RecvError \<Rightarrow> (- 1, buf)
    | Received p \<Rightarrow> (let p = take CIDBMSG_MSG_TOTAL_SIZE p in
                     (of_nat (length p), p @ drop (length p) buf)))"

text \<open>
  The loop that collects the parts; a peer that has closed the connection lets \<open>recv\<close> return 0,
  which ends the loop with the return value 1 (the inner \<open>None\<close>).
\<close>

fun recv_loop ::
  "byte list \<Rightarrow> byte list \<Rightarrow> u32 \<Rightarrow> u32 \<Rightarrow> recv_result list \<Rightarrow>
   ((byte list \<times> u32) option \<times> recv_result list) option" where
  "recv_loop buf d n k [] = Some (if k < n then None else Some (d, k), [])"
| "recv_loop buf d n k (r # rs) =
     (if k < n
      then (let (bytes, buf) = recv r buf in
        if bytes < of_nat CIDBMSG_HEADER_SIZE then Some (None, rs)
        else (case cidbmsg_read_header (Some
                 \<lparr>ClientId = 0, msgCommand = 0, msgSubcommand = 0, msgId = 0, msgFlags = 0,
                  dataSize = 0, partSize = 0, h_offset = 0\<rparr>) (Some buf) of
            Some (Some h, off) \<Rightarrow>
              (case slice buf (unat off) (unat (partSize h)) of
                 None \<Rightarrow> None
               | Some part \<Rightarrow>
                   (case put d (unat (h_offset h)) part of
                      None \<Rightarrow> None
                    | Some d \<Rightarrow> recv_loop buf d n (k + partSize h) rs))
          | _ \<Rightarrow> None))
      else Some (Some (d, k), r # rs))"

text \<open>
  \<open>h0\<close> and \<open>buf\<close> are what the uninitialised locals hold, \<open>script\<close> what the calls of \<open>recv\<close> do
  (after its end they return 0). The result is the return value, the message and what has not
  been read from the socket.
\<close>

definition cidbcon_recv_message ::
  "allocator \<Rightarrow> CIDBMsgHeader \<Rightarrow> byte list \<Rightarrow> recv_result list \<Rightarrow> CIDBMessage option \<Rightarrow>
   (int \<times> CIDBMessage option \<times> recv_result list) option" where
  "cidbcon_recv_message env h0 buf script dbmsg =
    (case script of [] \<Rightarrow> Some (1, dbmsg, []) | r # rs \<Rightarrow>
     (let (bytes, buf) = recv r buf in
      if bytes < of_nat CIDBMSG_HEADER_SIZE then Some (1, dbmsg, rs)
      else do {
        (h, off) \<leftarrow> cidbmsg_read_header (Some h0) (Some buf);
        h \<leftarrow> h;
        let n = dataSize h in do {
        (d, k) \<leftarrow>
          (if n \<noteq> 0
           then if alloc_ok env (unat n)
             then do {
               part \<leftarrow> slice buf (unat off) (unat (partSize h));
               d \<leftarrow> put (heap_block env (unat n)) (unat (h_offset h)) part;
               Some (Some d, partSize h) }
             else None
           else Some (None, 0));
        (res, rs) \<leftarrow> recv_loop buf (case d of None \<Rightarrow> [] | Some d \<Rightarrow> d) n k rs;
        case res of
          None \<Rightarrow> Some (1, dbmsg, rs)
        | Some (d', k) \<Rightarrow> do {
            m \<leftarrow> cidbmsg_read_message env
              (Some \<lparr>header = h\<lparr>partSize := k, h_offset := 0\<rparr>,
                     data = (case d of None \<Rightarrow> None | Some _ \<Rightarrow> Some d')\<rparr>) dbmsg;
            Some (0, m, rs) } } }))"

section \<open>The packets of a message\<close>

text \<open>The part of the data \<open>d\<close> from \<open>off\<close> on, behind a header that says so.\<close>

definition packet :: "CIDBMsgHeader \<Rightarrow> byte list \<Rightarrow> nat \<Rightarrow> byte list" where
  "packet h d off =
     enc_header (h\<lparr>partSize := of_nat (min CIDBMSG_DATA_SIZE (length d - off)),
                   h_offset := of_nat off\<rparr>) @ take CIDBMSG_DATA_SIZE (drop off d)"

function packets_from :: "CIDBMsgHeader \<Rightarrow> byte list \<Rightarrow> nat \<Rightarrow> byte list list" where
  "packets_from h d off =
     (if off < length d then packet h d off # packets_from h d (off + CIDBMSG_DATA_SIZE) else [])"
  by pat_completeness auto

termination
  by (relation "measure (\<lambda>(h, d, off). length d - off)") auto

declare packets_from.simps [simp del]

definition packets :: "CIDBMsgHeader \<Rightarrow> byte list \<Rightarrow> byte list list" where
  "packets h d = packet h d 0 # packets_from h d CIDBMSG_DATA_SIZE"

lemma length_packet: "length (packet h d off) = 22 + min CIDBMSG_DATA_SIZE (length d - off)"
  by (simp add: packet_def min.commute)

lemma packet_cong:
  "packet (h\<lparr>partSize := a, h_offset := b\<rparr>) d off = packet h d off"
  by (simp add: packet_def)

lemma packets_from_cong:
  "packets_from (h\<lparr>partSize := a, h_offset := b\<rparr>) d off = packets_from h d off"
  by (induction h d off rule: packets_from.induct) (simp add: packets_from.simps packet_cong)

lemma packets_from_end: "length d \<le> off \<Longrightarrow> packets_from h d off = []"
  by (simp add: packets_from.simps)

text \<open>A transmission of the data \<open>d\<close> whose next part starts at \<open>off\<close>.\<close>

definition sends :: "CIDBMsgTransmission \<Rightarrow> CIDBMsgHeader \<Rightarrow> byte list \<Rightarrow> nat \<Rightarrow> bool" where
  "sends t h d off \<longleftrightarrow>
     (\<exists>a b. header (completeMsg t) = h\<lparr>partSize := a, h_offset := b\<rparr>) \<and>
     dataSize h = of_nat (length d) \<and> length d < 2 ^ 32 \<and>
     data (completeMsg t) = (if d = [] then None else Some d) \<and>
     t_offset t = of_nat (min off (length d))"

lemma fill_buffer:
  assumes b: "length b = 2048" and n: "n \<le> 2026" "off + n \<le> length d"
    and d: "dat = (if d = [] then None else Some d)"
  shows "do { (dst, k) \<leftarrow> cidbmsg_prepare_header (Some b) (Some h);
              part \<leftarrow> dst; xs \<leftarrow> data_part dat off n; part \<leftarrow> put part 22 xs; f part }
       = f (enc_header h @ take n (drop off d) @ drop (22 + n) b)"
proof -
  have "data_part dat off n = Some (take n (drop off d))"
    using n d by (auto simp: data_part_def slice_def)
  moreover have "put b 0 (enc_header h) = Some (enc_header h @ drop 22 b)"
    using b by (simp add: put_def)
  moreover have "put (enc_header h @ drop 22 b) 22 (take n (drop off d))
      = Some (enc_header h @ take n (drop off d) @ drop (22 + n) b)"
    using b n by (simp add: put_def min_absorb2 add.commute)
  ultimately show ?thesis by (simp add: prepare_header_put)
qed

lemma part_size:
  assumes "off \<le> length d" and "length d < 2 ^ 32"
  shows "(if (2026 :: u32) \<le> of_nat (length d) - of_nat off then of_nat 2026
          else of_nat (length d) - of_nat off) = (of_nat (min 2026 (length d - off)) :: u32)"
proof -
  have s: "(of_nat (length d) - of_nat off :: u32) = of_nat (length d - off)"
    using assms(1) by (simp add: of_nat_diff)
  have u: "unat (of_nat (length d - off) :: u32) = length d - off"
    using assms(2) by (simp add: unat_of_nat_small)
  show ?thesis
    unfolding s by (simp add: word_le_nat_alt u min_def)
qed

lemma transmission_start_packet:
  assumes "sends t h d 0" and b: "length b = 2048"
  shows "\<exists>b' t'. cidbmsg_transmission_start b t = Some (b', t', of_nat (length (packet h d 0))) \<and>
    length b' = 2048 \<and> take (length (packet h d 0)) b' = packet h d 0 \<and> sends t' h d 2026"
proof -
  define ps :: u32 where "ps = of_nat (min 2026 (length d))"
  let ?ps = ps and ?g = "completeMsg t"
  from assms(1) obtain x y where g: "header ?g = h\<lparr>partSize := x, h_offset := y\<rparr>"
    "data ?g = (if d = [] then None else Some d)"
    and n: "dataSize h = of_nat (length d)" "length d < 2 ^ 32"
    by (auto simp: sends_def)
  have u: "unat (of_nat (length d) :: u32) = length d" using n(2) by (simp add: unat_of_nat_small)
  have ps: "(if (2026 :: u32) < of_nat (length d) then of_nat 2026 else of_nat (length d)) = ?ps"
    by (simp add: ps_def word_less_nat_alt u min_def)
  have ups: "unat ?ps = min 2026 (length d)" using n(2) by (simp add: ps_def unat_of_nat_small)
  have PS: "(if of_nat CIDBMSG_DATA_SIZE < dataSize (header ?g) then of_nat CIDBMSG_DATA_SIZE
      else dataSize (header ?g)) = ps"
    using ps by (auto simp: g(1) n(1) split: if_splits)
  let ?h = "h\<lparr>partSize := ?ps, h_offset := 0\<rparr>"
  let ?b = "packet h d 0 @ drop (22 + min 2026 (length d)) b"
  have p: "packet h d 0 = enc_header ?h @ take (min 2026 (length d)) (drop 0 d)"
    by (simp add: packet_def min_def ps_def)
  have "cidbmsg_transmission_start b t
      = Some (?b, \<lparr>completeMsg = ?g\<lparr>header := ?h\<rparr>, t_offset = ?ps\<rparr>, ?ps + 22)"
    using fill_buffer[OF b, of "min 2026 (length d)" 0 d, OF _ _ g(2), of ?h] ups
    unfolding cidbmsg_transmission_start_def Let_def PS by (simp add: g(1) p)
  moreover have "?ps + 22 = of_nat (length (packet h d 0))"
    by (simp add: length_packet add.commute ps_def)
  moreover have "length ?b = 2048" using b by (simp add: length_packet)
  moreover have "sends \<lparr>completeMsg = ?g\<lparr>header := ?h\<rparr>, t_offset = ?ps\<rparr> h d 2026"
    using n g(2) by (auto simp: sends_def ps_def)
  ultimately show ?thesis by fastforce
qed

lemma transmission_continue_packet:
  assumes "sends t h d off" and b: "length b = 2048" and off: "off < length d"
  shows "\<exists>b' t'. cidbmsg_transmission_continue b t = Some (b', t', of_nat (length (packet h d off))) \<and>
    length b' = 2048 \<and> take (length (packet h d off)) b' = packet h d off \<and> sends t' h d (off + 2026)"
proof -
  define ps :: u32 where "ps = of_nat (min 2026 (length d - off))"
  let ?n = "min 2026 (length d - off)" and ?g = "completeMsg t" and ?ps = ps
  from assms(1) obtain x y where g: "header ?g = h\<lparr>partSize := x, h_offset := y\<rparr>"
    "data ?g = (if d = [] then None else Some d)"
    and n: "dataSize h = of_nat (length d)" "length d < 2 ^ 32" and o: "t_offset t = of_nat off"
    using off by (auto simp: sends_def)
  have u: "unat (of_nat (length d) :: u32) = length d" "unat (of_nat off :: u32) = off"
    using n(2) off by (simp_all add: unat_of_nat_small)
  have le: "\<not> (of_nat (length d) :: u32) \<le> of_nat off"
    using off by (simp add: word_le_nat_alt u)
  have ups: "unat ?ps = ?n" using n(2) by (simp add: ps_def unat_of_nat_small)
  have ps: "(if (2026 :: u32) \<le> of_nat (length d) - of_nat off then of_nat 2026
      else of_nat (length d) - of_nat off) = ?ps"
    unfolding ps_def by (rule part_size) (use off n in auto)
  have PS: "(if of_nat CIDBMSG_DATA_SIZE \<le> dataSize (header ?g) - t_offset t
      then of_nat CIDBMSG_DATA_SIZE else dataSize (header ?g) - t_offset t) = ps"
    using ps by (auto simp: g(1) n(1) o split: if_splits)
  let ?h = "h\<lparr>partSize := ?ps, h_offset := of_nat off\<rparr>"
  let ?b = "packet h d off @ drop (22 + ?n) b"
  have p: "packet h d off = enc_header ?h @ take ?n (drop off d)"
    by (simp add: packet_def min_def ps_def)
  have le': "off + ?n \<le> length d" using off by simp
  have "cidbmsg_transmission_continue b t
      = Some (?b, \<lparr>completeMsg = ?g\<lparr>header := ?h\<rparr>, t_offset = of_nat off + ?ps\<rparr>, ?ps + 22)"
    using fill_buffer[OF b, of ?n off d, OF _ le' g(2), of ?h] ups off
    unfolding cidbmsg_transmission_continue_def Let_def PS by (simp add: g(1) o n(1) p u le)
  moreover have "?ps + 22 = of_nat (length (packet h d off))"
    by (simp add: length_packet add.commute ps_def)
  moreover have "length ?b = 2048" using b by (simp add: length_packet)
  moreover have "of_nat off + ?ps = of_nat (min (off + 2026) (length d))"
    using off by (auto simp: ps_def min_def of_nat_diff)
  then have "sends \<lparr>completeMsg = ?g\<lparr>header := ?h\<rparr>, t_offset = of_nat off + ?ps\<rparr> h d (off + 2026)"
    using n g(2) by (auto simp: sends_def)
  ultimately show ?thesis by fastforce
qed

lemma transmission_continue_end:
  assumes "sends t h d off" and "length d \<le> off"
  shows "cidbmsg_transmission_continue b t = Some (b, t, 0)"
  using assms by (auto simp: sends_def cidbmsg_transmission_continue_def Let_def)

section \<open>The sender\<close>

text \<open>
  What a sender of the packets \<open>ps\<close> does on a socket: it gives them to \<open>send\<close> one after the
  other and gives up with 1 at the first one that is not taken as a whole.
\<close>

fun send_all :: "(nat \<Rightarrow> nat \<Rightarrow> int) \<Rightarrow> nat \<Rightarrow> byte list list \<Rightarrow> int \<times> byte list list" where
  "send_all rc k [] = (0, [])"
| "send_all rc k (p # ps) =
     (if rc k (length p) \<noteq> int (length p) then (1, [p])
      else (let (r, out) = send_all rc (Suc k) ps in (r, p # out)))"

lemma send_all_ok:
  assumes "\<And>i p. i < length ps \<Longrightarrow> rc (k + i) (length (ps ! i)) = int (length (ps ! i))"
  shows "send_all rc k ps = (0, ps)"
  using assms
proof (induction ps arbitrary: k)
  case Nil
  then show ?case by simp
next
  case (Cons p ps)
  have "send_all rc (Suc k) ps = (0, ps)"
    by (rule Cons.IH) (use Cons.prems[of "Suc _"] in auto)
  then show ?case using Cons.prems[of 0] by simp
qed

lemma length_packet_bounds: "22 \<le> length (packet h d off)" "length (packet h d off) \<le> 2048"
  by (simp_all add: length_packet)

lemma unat_length_packet: "unat (of_nat (length (packet h d off)) :: u32) = length (packet h d off)"
  using length_packet_bounds(2)[of h d off] by (simp add: unat_of_nat_small)

lemma send_loop_step:
  assumes b: "length b = 2048" "take (length p) b = p" and p: "p = packet h d o'"
    and t: "sends t h d off"
    and ih: "\<And>t b. off < length d \<Longrightarrow> length b = 2048 \<Longrightarrow>
      take (length (packet h d off)) b = packet h d off \<Longrightarrow> sends t h d (off + 2026) \<Longrightarrow>
      send_loop rc (Suc k) b t (of_nat (length (packet h d off))) (out @ [p])
        = Some (map_prod id ((@) (out @ [p]))
            (send_all rc (Suc k) (packets_from h d off)))"
  shows "send_loop rc k b t (of_nat (length p)) out
    = Some (map_prod id ((@) out) (send_all rc k (p # packets_from h d off)))"
proof -
  have u: "unat (of_nat (length p) :: u32) = length p" by (simp add: p unat_length_packet)
  have nz: "(of_nat (length p) :: u32) \<noteq> 0"
    unfolding unat_eq_0[symmetric] u using length_packet_bounds(1)[of h d o'] p by auto
  have sl: "slice b 0 (length p) = Some p"
    using b length_packet_bounds(2)[of h d o'] p by (simp add: slice_def)
  note step = send_loop.simps[of rc k b t "of_nat (length p)" out]
  show ?thesis
  proof (cases "rc k (length p) = int (length p)")
    case False
    then show ?thesis using step nz sl u by simp
  next
    case rc: True
    show ?thesis
    proof (cases "off < length d")
      case True
      obtain b' t' where c: "cidbmsg_transmission_continue b t
          = Some (b', t', of_nat (length (packet h d off)))" "length b' = 2048"
        "take (length (packet h d off)) b' = packet h d off" "sends t' h d (off + 2026)"
        using transmission_continue_packet[OF t b(1) True] by blast
      show ?thesis
        using step nz sl u rc c(1) ih[OF True c(2-4)]
        by (simp add: map_prod_def split: prod.splits)
    next
      case False
      then have e: "length d \<le> off" by simp
      show ?thesis
        using step nz sl u rc transmission_continue_end[OF t e] packets_from_end[OF e, of h]
        by (simp add: send_loop.simps[where n = 0])
    qed
  qed
qed

lemma send_loop_packets:
  assumes "off < length d" "length b = 2048" "take (length (packet h d off)) b = packet h d off"
    "sends t h d (off + 2026)"
  shows "send_loop rc k b t (of_nat (length (packet h d off))) out
    = Some (map_prod id ((@) out) (send_all rc k (packets_from h d off)))"
  using assms
proof (induction h d off arbitrary: b t k out rule: packets_from.induct)
  case (1 h d off)
  show ?case
    unfolding packets_from.simps[of h d off] if_P[OF 1(2)]
    by (rule send_loop_step[OF 1(3,4) refl 1(5)]) (rule 1(1)[OF 1(2)])
qed

lemma send_loop_first:
  assumes "length b = 2048" "take (length (packet h d 0)) b = packet h d 0" "sends t h d 2026"
  shows "send_loop rc 0 b t (of_nat (length (packet h d 0))) []
    = Some (send_all rc 0 (packets h d))"
proof -
  have "send_loop rc 0 b t (of_nat (length (packet h d 0))) []
      = Some (map_prod id ((@) []) (send_all rc 0 (packet h d 0 # packets_from h d 2026)))"
    by (rule send_loop_step[OF assms(1,2) refl assms(3)])
       (use send_loop_packets[of 2026 d _ h _ rc "Suc 0"] in simp)
  then show ?thesis by (simp add: packets_def map_prod_def)
qed

text \<open>The header a message goes out with.\<close>

definition msg_header :: "CIDBMessage \<Rightarrow> CIDBMsgHeader" where
  "msg_header m =
     \<lparr>ClientId = clientid m, msgCommand = cmd m, msgSubcommand = subcmd m, msgId = msgid m,
      msgFlags = 0, dataSize = of_nat (length (wire m)), partSize = 0, h_offset = 0\<rparr>"

lemma send_message_packets:
  assumes ok: "message_ok m" and b: "length buf = 2048" and al: "alloc_ok env 32"
    and al': "wire m \<noteq> [] \<longrightarrow> alloc_ok env (length (wire m))"
  shows "cidbcon_send_message env rc g0 buf (Some m)
    = Some (send_all rc 0 (packets (msg_header m) (wire m)))"
proof -
  let ?t = "\<lparr>completeMsg = written m g0, t_offset = 0\<rparr>"
  have "sends ?t (msg_header m) (wire m) 0"
    using ok by (auto simp: sends_def written_def second_header_def memset_header_22_def
        msg_header_def dest: message_ok_length)
  from transmission_start_packet[OF this b] obtain b' t' where
    s: "cidbmsg_transmission_start buf ?t
        = Some (b', t', of_nat (length (packet (msg_header m) (wire m) 0)))"
    and b': "length b' = 2048" "take (length (packet (msg_header m) (wire m) 0)) b'
        = packet (msg_header m) (wire m) 0" "sends t' (msg_header m) (wire m) 2026"
    by blast
  show ?thesis
    using al s send_loop_first[OF b'] by (simp add: cidbcon_send_message_def
        write_message_written[OF ok al'])
qed

section \<open>The receiver\<close>

lemma recv_packet:
  assumes "length buf = 2048"
  shows "recv (Received (packet h d off)) buf
    = (of_nat (length (packet h d off)), packet h d off @ drop (length (packet h d off)) buf)"
  using length_packet_bounds(2)[of h d off] by (simp add: recv_def Let_def)

lemma packet_not_short: "\<not> (of_nat (length (packet h d off)) :: u32) < 22"
  using length_packet_bounds(1)[of h d off] by (simp add: word_less_nat_alt unat_length_packet)

lemma read_header_packet:
  "cidbmsg_read_header (Some h0) (Some (packet h d off @ post))
     = Some (Some (h\<lparr>partSize := of_nat (min CIDBMSG_DATA_SIZE (length d - off)),
                     h_offset := of_nat off\<rparr>), 22)"
  by (simp add: packet_def read_header_enc)

lemma slice_packet:
  "slice (packet h d off @ post) 22 (min CIDBMSG_DATA_SIZE (length d - off))
     = Some (take CIDBMSG_DATA_SIZE (drop off d))"
  by (simp add: packet_def slice_def min_def)

lemma unat_part: "unat (of_nat (min 2026 k) :: u32) = min 2026 k"
  by (rule unat_of_nat_small) (simp add: min_def)

lemma put_part:
  assumes "length d = length D" and "take off d = take off D" and "off \<le> length D"
  shows "\<exists>d'. put d off (take CIDBMSG_DATA_SIZE (drop off D)) = Some d' \<and> length d' = length D \<and>
    take (off + CIDBMSG_DATA_SIZE) d' = take (off + CIDBMSG_DATA_SIZE) D"
proof -
  let ?d = "take off D @ take CIDBMSG_DATA_SIZE (drop off D) @ drop (off + min CIDBMSG_DATA_SIZE (length D - off)) d"
  have "put d off (take CIDBMSG_DATA_SIZE (drop off D)) = Some ?d"
    using assms by (simp add: put_def min.commute)
  moreover have "take (off + CIDBMSG_DATA_SIZE) ?d = take (off + CIDBMSG_DATA_SIZE) D"
    using assms(1,3) by (auto simp: take_add min_def)
  ultimately show ?thesis using assms by auto
qed

lemma recv_loop_packets:
  assumes "length buf = 2048" "length d = length D" "take off d = take off D"
    "length D < 2 ^ 32" "dataSize h = of_nat (length D)"
  shows "recv_loop buf d (of_nat (length D)) (of_nat (min off (length D)))
      (map Received (packets_from h D off) @ rest) = Some (Some (D, of_nat (length D)), rest)"
  using assms
proof (induction h D off arbitrary: buf d rule: packets_from.induct)
  case (1 h D off)
  show ?case
  proof (cases "off < length D")
    case False
    then have "d = D" using 1(3,4) by simp
    then show ?thesis using False by (cases rest) (simp_all add: packets_from_end)
  next
    case True
    have u: "unat (of_nat off :: u32) = off" "unat (of_nat (length D) :: u32) = length D"
      using True 1(5) by (simp_all add: unat_of_nat_small)
    have lt: "(of_nat off :: u32) < of_nat (length D)" using True by (simp add: word_less_nat_alt u)
    obtain d' where d': "put d off (take CIDBMSG_DATA_SIZE (drop off D)) = Some d'"
      "length d' = length D" "take (off + CIDBMSG_DATA_SIZE) d' = take (off + CIDBMSG_DATA_SIZE) D"
      using put_part[OF 1(3,4)] True by auto
    let ?buf = "packet h D off @ drop (length (packet h D off)) buf"
    have "length ?buf = 2048" using 1(2) length_packet_bounds(2)[of h D off] by simp
    note ih = 1(1)[OF True this d'(2,3) 1(5,6)]
    have k: "of_nat off + of_nat (min 2026 (length D - off))
        = (of_nat (min (off + 2026) (length D)) :: u32)"
      using True by (auto simp: min_def of_nat_diff)
    show ?thesis
      using True lt ih d'(1)
      by (simp add: packets_from.simps[of h D off] recv_packet[OF 1(2)] packet_not_short
          read_header_packet slice_packet unat_part u k del: of_nat_add of_nat_min)
  qed
qed

lemma recv_message_packets:
  assumes "length buf = 2048" "length D < 2 ^ 32" "dataSize h = of_nat (length D)"
    and al: "D \<noteq> [] \<longrightarrow> alloc_ok env (length D)"
  shows "cidbcon_recv_message env h0 buf (map Received (packets h D) @ rest) dbmsg =
    Option.bind (cidbmsg_read_message env
        (Some \<lparr>header = h\<lparr>partSize := of_nat (length D), h_offset := 0\<rparr>,
               data = (if D = [] then None else Some D)\<rparr>) dbmsg)
      (\<lambda>m. Some (0, m, rest))"
proof -
  have u: "unat (of_nat (length D) :: u32) = length D" using assms(2) by (simp add: unat_of_nat_small)
  have nz: "(of_nat (length D) :: u32) = 0 \<longleftrightarrow> D = []"
    unfolding unat_eq_0[symmetric] u by simp
  let ?buf = "packet h D 0 @ drop (length (packet h D 0)) buf"
  have lb: "length ?buf = 2048" using assms(1) length_packet_bounds(2)[of h D 0] by simp
  note first = recv_packet[OF assms(1), of h D 0] packet_not_short[of h D 0]
    read_header_packet[of h0 h D 0] slice_packet[of h D 0]
  show ?thesis
  proof (cases "D = []")
    case True
    have "recv_loop ?buf [] 0 0 rest = Some (Some ([], 0), rest)" by (cases rest) simp_all
    then show ?thesis
      using True first assms(3)
      by (simp add: cidbcon_recv_message_def packets_def packets_from_end Let_def)
  next
    case False
    obtain d' where d': "put (heap_block env (length D)) 0 (take CIDBMSG_DATA_SIZE D) = Some d'"
      "length d' = length D" "take CIDBMSG_DATA_SIZE d' = take CIDBMSG_DATA_SIZE D"
      using put_part[of "heap_block env (length D)" D 0] by auto
    have "recv_loop ?buf d' (of_nat (length D)) (of_nat (min 2026 (length D)))
        (map Received (packets_from h D 2026) @ rest) = Some (Some (D, of_nat (length D)), rest)"
      by (rule recv_loop_packets[OF lb d'(2,3) assms(2,3)])
    then show ?thesis
      using False first assms(3) d'(1) al u nz unat_part[of "length D"]
      by (simp add: cidbcon_recv_message_def packets_def Let_def del: of_nat_min)
  qed
qed

text \<open>An error of \<open>recv\<close> does not end the loop: the part of the last packet is stored again.\<close>

lemma recv_error_not_short: "\<not> fst (recv RecvError buf) < of_nat CIDBMSG_HEADER_SIZE"
  by (simp add: recv_def)

lemma concat_packets_from:
  "concat (map (drop CIDBMSG_HEADER_SIZE) (packets_from h d off)) = drop off d"
proof (induction h d off rule: packets_from.induct)
  case (1 h d off)
  have "drop off d = take CIDBMSG_DATA_SIZE (drop off d) @ drop (off + CIDBMSG_DATA_SIZE) d"
    by (metis append_take_drop_id drop_drop add.commute)
  then show ?case
    using 1 by (cases "off < length d") (simp_all add: packets_from.simps[of h d off] packet_def)
qed

lemma packets_from_bound: "p \<in> set (packets_from h d off) \<Longrightarrow> length p \<le> 2048"
proof (induction h d off rule: packets_from.induct)
  case (1 h d off)
  then show ?case
    by (cases "off < length d") (auto simp: packets_from.simps[of h d off] length_packet)
qed

section \<open>Properties\<close>


definition sample_query :: CIDBMessage where
  "sample_query = zero_message\<lparr>cmd := CIDBMSG_CMD_READ_CALLER, subcmd := CIDBMSG_SUBCMD_QUERY,
     userid := 7, flags := 2, nstrings := 1, stringlist := Some [Str [48, 49, 50]]\<rparr>"

text \<open>What an uninitialised header may hold.\<close>

definition stale_header :: CIDBMsgHeader where
  "stale_header = \<lparr>ClientId = 9, msgCommand = 9, msgSubcommand = 9, msgId = 9, msgFlags = 9,
     dataSize = 9, partSize = 9, h_offset = 9\<rparr>"

definition roomy :: allocator where
  "roomy = \<lparr>alloc_ok = \<lambda>_. True, garbage = \<lambda>_. 0xaa\<rparr>"

lemma sample_readable: "message_readable roomy sample_query"
  by (simp add: message_readable_def message_ok_def known_cmd_def sample_query_def zero_message_def
      has_table_def has_first_string_def has_strings_def wire_def Let_def first_string_def
      m_strings_def sendable_def receivable_def roomy_def length_enc_cptr sent_bytes_def cbytes_def
      enc_len_def)


text \<open>
  The packets of a message: none is longer than the 2048 bytes of the buffers, and their
  parts, in order, are the payload.
\<close>

theorem packets_partition:
  "list_all (\<lambda>p. length p \<le> CIDBMSG_MSG_TOTAL_SIZE) (packets h d) \<and>
   concat (map (drop CIDBMSG_HEADER_SIZE) (packets h d)) = d"
proof -
  have "take 2026 d @ drop 2026 d = d" by simp
  then show ?thesis
    using packets_from_bound[of _ h d 2026] concat_packets_from[of h d 2026]
    by (auto simp: packets_def length_packet packet_def list_all_iff)
qed

text \<open>
  What \<open>cidbcon_send_message\<close> does on any socket: the packets of the message go to \<open>send\<close> in
  order, the first one that is not taken as a whole ends it with 1, and otherwise the
  result is 0. The loop ends in every case.
\<close>

theorem send_message_outcome:
  assumes "message_ok m" and "length buf = CIDBMSG_MSG_TOTAL_SIZE" and "\<forall>n. alloc_ok env n"
  shows "cidbcon_send_message env rc g0 buf (Some m)
    = Some (send_all rc 0 (packets (msg_header m) (wire m)))"
  using assms by (intro send_message_packets) auto

theorem send_message_outcome_witness:
  "cidbcon_send_message roomy (\<lambda>k n. - 1) \<lparr>header = stale_header, data = None\<rparr> (replicate 2048 0) (Some sample_query)
    = Some (send_all (\<lambda>k n. - 1) 0 (packets (msg_header sample_query) (wire sample_query)))"
  using send_message_outcome[of sample_query "replicate 2048 0" roomy "\<lambda>k n. - 1"
      "\<lparr>header = stale_header, data = None\<rparr>"] sample_readable
  by (simp add: message_readable_def roomy_def)

end
