(* ===== verification/CText.thy ===== *)
theory CText
  imports CMem "HOL-Library.Char_ord"
begin

text \<open>
  Text in C arrays and text files. An array of \<open>char\<close> is a list of its cells, the string in it
  ends at the first zero byte, and every access carries the bound of its array as in
  \<open>CMem\<close>. A stream opened for reading is what is left of the file, the position and the
  end-of-file flag, with \<open>fgets\<close> as the C library has it. The character classes of GLib are a
  parameter with their documentation as a hypothesis.
\<close>

abbreviation NUL :: char where "NUL \<equiv> CHR 0x00"
abbreviation LF :: char where "LF \<equiv> CHR 0x0A"
abbreviation TAB :: char where "TAB \<equiv> CHR 0x09"

section \<open>Strings in arrays\<close>

text \<open>The string an array holds; reading it runs out of the array when no cell is zero.\<close>

definition cstr :: "char list \<Rightarrow> string option" where
  "cstr a = (if NUL \<in> set a then Some (takeWhile (\<lambda>c. c \<noteq> NUL) a) else None)"

definition strcpy :: "char list \<Rightarrow> string \<Rightarrow> char list option" where
  "strcpy dst s = put dst 0 (s @ [NUL])"

text \<open>\<open>strlcpy(dst, s, n)\<close> for positive \<open>n\<close>: at most \<open>n - 1\<close> characters and the zero.\<close>

definition strlcpy :: "char list \<Rightarrow> string \<Rightarrow> nat \<Rightarrow> char list option" where
  "strlcpy dst s n = put dst 0 (take (n - 1) s @ [NUL])"

text \<open>\<open>while (P(a[i])) i++\<close>.\<close>

function scan :: "(char \<Rightarrow> bool) \<Rightarrow> char list \<Rightarrow> nat \<Rightarrow> nat option" where
  "scan P a i = (if i < length a then if P (a ! i) then scan P a (Suc i) else Some i else None)"
  by pat_completeness auto

termination
  by (relation "measure (\<lambda>(P, a, i). length a - i)") auto

text \<open>\<open>while (P(src[i])) dst[j++] = src[i++]\<close>, the final indices included.\<close>

function copy_while ::
  "(char \<Rightarrow> bool) \<Rightarrow> char list \<Rightarrow> nat \<Rightarrow> char list \<Rightarrow> nat \<Rightarrow> (char list \<times> nat \<times> nat) option" where
  "copy_while P src i dst j =
     (if i < length src
      then if P (src ! i)
        then (case wr dst j (src ! i) of
            None \<Rightarrow> None
          | Some dst \<Rightarrow> copy_while P src (Suc i) dst (Suc j))
        else Some (dst, i, j)
      else None)"
  by pat_completeness auto

termination
  by (relation "measure (\<lambda>(P, src, i, dst, j). length src - i)") auto

text \<open>The same with the room of the target as a second test: \<open>P(src[i]) && j < n\<close>.\<close>

function copy_upto ::
  "nat \<Rightarrow> (char \<Rightarrow> bool) \<Rightarrow> char list \<Rightarrow> nat \<Rightarrow> char list \<Rightarrow> nat \<Rightarrow> (char list \<times> nat \<times> nat) option" where
  "copy_upto n P src i dst j =
     (if i < length src
      then if P (src ! i) \<and> j < n
        then (case wr dst j (src ! i) of
            None \<Rightarrow> None
          | Some dst \<Rightarrow> copy_upto n P src (Suc i) dst (Suc j))
        else Some (dst, i, j)
      else None)"
  by pat_completeness auto

termination
  by (relation "measure (\<lambda>(n, P, src, i, dst, j). length src - i)") auto

declare scan.simps [simp del] copy_while.simps [simp del] copy_upto.simps [simp del]

lemma cstr_string [simp]: "NUL \<notin> set s \<Longrightarrow> cstr (s @ NUL # xs) = Some s"
  by (auto simp: cstr_def takeWhile_append2 takeWhile_append)

lemma cstr_Some_iff: "cstr a = Some s \<longleftrightarrow> NUL \<notin> set s \<and> (\<exists>xs. a = s @ NUL # xs)"
proof
  assume *: "cstr a = Some s"
  then have s: "s = takeWhile (\<lambda>c. c \<noteq> NUL) a" and n: "NUL \<in> set a"
    by (auto simp: cstr_def split: if_splits)
  have "dropWhile (\<lambda>c. c \<noteq> NUL) a \<noteq> []" using n by (auto simp: dropWhile_eq_Nil_conv)
  moreover have "hd (dropWhile (\<lambda>c. c \<noteq> NUL) a) = NUL"
    using hd_dropWhile[OF calculation] by simp
  ultimately have "\<exists>xs. dropWhile (\<lambda>c. c \<noteq> NUL) a = NUL # xs"
    by (metis list.collapse)
  then have "\<exists>xs. a = s @ NUL # xs" using s by (metis takeWhile_dropWhile_id)
  then show "NUL \<notin> set s \<and> (\<exists>xs. a = s @ NUL # xs)" using s by (auto dest: set_takeWhileD)
qed auto

lemma strcpy_Some_iff:
  "strcpy dst s = Some a \<longleftrightarrow> length s < length dst \<and> a = s @ NUL # drop (Suc (length s)) dst"
  by (auto simp: strcpy_def put_def)

lemma cstr_strcpy: "strcpy dst s = Some a \<Longrightarrow> NUL \<notin> set s \<Longrightarrow> cstr a = Some s"
  by (auto simp: strcpy_Some_iff)

lemma strcpy_fits: "length s < length dst \<Longrightarrow> \<exists>a. strcpy dst s = Some a \<and> length a = length dst"
  by (simp add: strcpy_Some_iff)

lemma strlcpy_fits:
  assumes "0 < n" and "n \<le> length dst" and "NUL \<notin> set s"
  shows "\<exists>a. strlcpy dst s n = Some a \<and> length a = length dst \<and> cstr a = Some (take (n - 1) s)"
proof -
  have "NUL \<notin> set (take (n - 1) s)" using assms(3) by (meson in_set_takeD)
  then show ?thesis using assms(1,2) by (auto simp: strlcpy_def put_def)
qed

lemma scan_stop:
  "(\<forall>x \<in> set xs. P x) \<Longrightarrow> \<not> P c \<Longrightarrow> i = length pre \<Longrightarrow>
     scan P (pre @ xs @ c # post) i = Some (i + length xs)"
proof (induction xs arbitrary: pre i)
  case Nil
  then show ?case by (simp add: scan.simps)
next
  case (Cons x xs)
  have "scan P ((pre @ [x]) @ xs @ c # post) (Suc i) = Some (Suc i + length xs)"
    by (rule Cons.IH) (use Cons.prems in auto)
  then show ?case using Cons.prems by (subst scan.simps) simp
qed

lemma copy_while_put:
  assumes "\<forall>x \<in> set xs. P x" and "\<not> P c" and "i = length pre" and "j \<le> length dst"
  shows "copy_while P (pre @ xs @ c # post) i dst j
    = map_option (\<lambda>d. (d, i + length xs, j + length xs)) (put dst j xs)"
  using assms
proof (induction xs arbitrary: pre i j dst)
  case Nil
  then show ?case by (simp add: copy_while.simps put_Nil)
next
  case (Cons x xs)
  show ?case
  proof (cases "j < length dst")
    case True
    then have w: "wr dst j x = Some (dst[j := x])" by (simp add: wr_def)
    have "copy_while P ((pre @ [x]) @ xs @ c # post) (Suc i) (dst[j := x]) (Suc j)
      = map_option (\<lambda>d. (d, Suc i + length xs, Suc j + length xs)) (put (dst[j := x]) (Suc j) xs)"
      by (rule Cons.IH) (use Cons.prems True in auto)
    moreover have "put (dst[j := x]) (Suc j) xs = put dst j (x # xs)"
      using put_put[of dst j "[x]" xs] w by (simp add: wr_put)
    ultimately show ?thesis using Cons.prems w by (subst copy_while.simps) simp
  next
    case False
    then have "put dst j (x # xs) = None" "wr dst j x = None" by (auto simp: put_def wr_def)
    then show ?thesis using Cons.prems by (subst copy_while.simps) simp
  qed
qed

text \<open>The same for the longest run of \<open>P\<close> in front of the terminating zero.\<close>

lemma scan_run:
  assumes "\<not> P NUL" and "i = length pre"
  shows "scan P (pre @ s @ NUL # post) i = Some (i + length (takeWhile P s))"
proof (cases "dropWhile P s")
  case Nil
  then have "takeWhile P s = s" by (simp add: takeWhile_eq_all_conv dropWhile_eq_Nil_conv)
  then show ?thesis
    using scan_stop[of s P NUL i pre post] assms by (metis set_takeWhileD)
next
  case (Cons c r)
  have s: "s = takeWhile P s @ c # r" using Cons by (metis takeWhile_dropWhile_id)
  have "\<not> P c" using Cons by (metis hd_dropWhile list.distinct(1) list.sel(1))
  then have "scan P (pre @ takeWhile P s @ c # r @ NUL # post) i = Some (i + length (takeWhile P s))"
    using assms by (intro scan_stop) (auto dest: set_takeWhileD)
  then show ?thesis using s by (metis append.assoc append_Cons)
qed

lemma copy_while_run:
  assumes "\<not> P NUL" and "i = length pre" and "j \<le> length dst"
  shows "copy_while P (pre @ s @ NUL # post) i dst j
    = map_option (\<lambda>d. (d, i + length (takeWhile P s), j + length (takeWhile P s))) (put dst j (takeWhile P s))"
proof (cases "dropWhile P s")
  case Nil
  then have t: "takeWhile P s = s" by (simp add: takeWhile_eq_all_conv dropWhile_eq_Nil_conv)
  then have "\<forall>x \<in> set s. P x" by (metis set_takeWhileD)
  then show ?thesis
    using copy_while_put[of s P NUL i pre j dst post] assms unfolding t by simp
next
  case (Cons c r)
  have s: "s = takeWhile P s @ c # r" using Cons by (metis takeWhile_dropWhile_id)
  have "\<not> P c" using Cons by (metis hd_dropWhile list.distinct(1) list.sel(1))
  then have "copy_while P (pre @ takeWhile P s @ c # r @ NUL # post) i dst j
    = map_option (\<lambda>d. (d, i + length (takeWhile P s), j + length (takeWhile P s))) (put dst j (takeWhile P s))"
    using assms by (intro copy_while_put) (auto dest: set_takeWhileD)
  then show ?thesis using s by (metis append.assoc append_Cons)
qed

lemma copy_upto_run:
  assumes "\<not> P NUL" and "i = length pre" and "j \<le> n" and "n \<le> length dst"
    and "k = min (n - j) (length (takeWhile P s))"
  shows "copy_upto n P (pre @ s @ NUL # post) i dst j
    = map_option (\<lambda>d. (d, i + k, j + k)) (put dst j (take k s))"
  using assms
proof (induction s arbitrary: pre i j dst k)
  case Nil
  then show ?case by (simp add: copy_upto.simps put_Nil)
next
  case (Cons c s)
  show ?case
  proof (cases "P c \<and> j < n")
    case True
    then have w: "wr dst j c = Some (dst[j := c])" using Cons.prems by (simp add: wr_def)
    let ?k = "min (n - Suc j) (length (takeWhile P s))"
    have k: "k = Suc ?k" using True Cons.prems by auto
    have "copy_upto n P ((pre @ [c]) @ s @ NUL # post) (Suc i) (dst[j := c]) (Suc j)
      = map_option (\<lambda>d. (d, Suc i + ?k, Suc j + ?k)) (put (dst[j := c]) (Suc j) (take ?k s))"
      by (rule Cons.IH) (use Cons.prems True in auto)
    moreover have "put (dst[j := c]) (Suc j) (take ?k s) = put dst j (take k (c # s))"
      using put_put[of dst j "[c]" "take ?k s"] w by (simp add: wr_put k)
    ultimately show ?thesis
      using Cons.prems(1,2) True w k by (subst copy_upto.simps) (simp add: add.commute add.left_commute)
  next
    case False
    then have "k = 0" using Cons.prems by auto
    then show ?thesis using False Cons.prems by (subst copy_upto.simps) (auto simp: put_Nil)
  qed
qed

section \<open>Digits\<close>

definition dig :: "char \<Rightarrow> bool" where
  "dig c \<longleftrightarrow> c \<in> set ''0123456789''"

lemma dig_value: "dig c \<Longrightarrow> 48 \<le> (of_char c :: int) \<and> (of_char c :: int) \<le> 57"
  unfolding dig_def by (simp only: list.set insert_iff empty_iff) (elim disjE; simp)

lemma not_dig_NUL [simp]: "\<not> dig NUL" and not_dig_LF [simp]: "\<not> dig LF"
  by (simp_all add: dig_def)

section \<open>Streams\<close>

record stream =
  left :: string
  tell :: nat
  at_eof :: bool

definition open_at :: "string \<Rightarrow> nat \<Rightarrow> stream" where
  "open_at content pos = \<lparr>left = drop pos content, tell = pos, at_eof = False\<rparr>"

text \<open>What \<open>fgets\<close> takes: up to \<open>k\<close> characters, not beyond a newline.\<close>

fun take_line :: "nat \<Rightarrow> string \<Rightarrow> string" where
  "take_line 0 s = []"
| "take_line (Suc k) [] = []"
| "take_line (Suc k) (c # s) = c # (if c = LF then [] else take_line k s)"

text \<open>
  \<open>fgets(buffer, n, f)\<close>: the line or NULL. The flag is set when the end is met while characters
  are still wanted.
\<close>

definition fgets :: "nat \<Rightarrow> stream \<Rightarrow> string option \<times> stream" where
  "fgets n f =
     (let l = take_line (n - 1) (left f);
          f' = \<lparr>left = drop (length l) (left f), tell = tell f + length l,
                at_eof = (length l < n - 1 \<and> (l = [] \<or> last l \<noteq> LF))\<rparr>
      in (if l = [] then None else Some l, f'))"

lemma length_take_line: "length (take_line k s) \<le> k" "length (take_line k s) \<le> length s"
  by (induction k s rule: take_line.induct) auto

lemma take_line_prefix: "take (length (take_line k s)) s = take_line k s"
  by (induction k s rule: take_line.induct) auto

lemma take_line_Nil: "take_line k s = [] \<longleftrightarrow> k = 0 \<or> s = []"
  by (cases "(k, s)" rule: take_line.cases) auto

lemma take_line_empty [simp]: "take_line k [] = []"
  by (simp add: take_line_Nil)

lemma take_line_short:
  "length (take_line k s) < k \<Longrightarrow> take_line k s = [] \<or> last (take_line k s) \<noteq> LF \<Longrightarrow>
     length (take_line k s) = length s"
  by (induction k s rule: take_line.induct) (auto split: if_splits)

lemma take_line_LF: "LF \<in> set (butlast (take_line k s)) \<Longrightarrow> False"
  by (induction k s rule: take_line.induct) (auto split: if_splits)

lemma fgets_left: "fgets n f = (r, f') \<Longrightarrow> 1 < n \<Longrightarrow>
    length (left f') < length (left f) \<or> left f' = left f \<and> at_eof f'"
  by (auto simp: fgets_def Let_def take_line_Nil split: if_splits)

text \<open>
  The lines \<open>fgets\<close> with an array of \<open>Suc k\<close> delivers, each with its position: the loop
  \<open>while (!feof(f)) if (fgets(...)) ...\<close> meets exactly these.
\<close>

function pieces :: "nat \<Rightarrow> nat \<Rightarrow> string \<Rightarrow> (nat \<times> string) list" where
  "pieces k pos s =
     (if s = [] \<or> k = 0 then []
      else (pos, take_line k s) #
        pieces k (pos + length (take_line k s)) (drop (length (take_line k s)) s))"
  by pat_completeness auto

termination
  by (relation "measure (\<lambda>(k, pos, s). length s)") (auto simp: take_line_Nil)

declare pieces.simps [simp del]

lemma pieces_Nil [simp]: "pieces k pos [] = []"
  by (simp add: pieces.simps)

lemma pieces_append:
  assumes "pieces k pos s = as @ (p, l) # bs"
  shows "pos \<le> p \<and> p - pos < length s \<and> pieces k p (drop (p - pos) s) = (p, l) # bs"
  using assms
proof (induction k pos s arbitrary: as rule: pieces.induct)
  case (1 k pos s)
  let ?n = "length (take_line k s)"
  have nz: "\<not> (s = [] \<or> k = 0)" using 1(2) by (auto simp: pieces.simps[of k pos s] split: if_splits)
  then have eq: "(pos, take_line k s) # pieces k (pos + ?n) (drop ?n s) = as @ (p, l) # bs"
    using 1(2) by (simp add: pieces.simps[of k pos s])
  show ?case
  proof (cases as)
    case Nil
    then show ?thesis using eq nz 1(2) by simp
  next
    case (Cons a as')
    then have "pieces k (pos + ?n) (drop ?n s) = as' @ (p, l) # bs" using eq by simp
    from 1(1)[OF nz this] show ?thesis by auto
  qed
qed

lemma pieces_nonempty: "(p, l) \<in> set (pieces k pos s) \<Longrightarrow> l \<noteq> [] \<and> length l \<le> k"
  by (induction k pos s rule: pieces.induct)
     (subst (asm) (2) pieces.simps, auto simp: take_line_Nil length_take_line split: if_splits)

lemma pieces_pos_distinct: "distinct (map fst (pieces k pos s)) \<and> (\<forall>x \<in> set (pieces k pos s). pos \<le> fst x)"
proof (induction k pos s rule: pieces.induct)
  case (1 k pos s)
  show ?case
  proof (cases "s = [] \<or> k = 0")
    case True
    then show ?thesis by (simp add: pieces.simps[of k pos s])
  next
    case False
    then have n: "0 < length (take_line k s)" by (simp add: take_line_Nil)
    let ?r = "pieces k (pos + length (take_line k s)) (drop (length (take_line k s)) s)"
    have ih: "distinct (map fst ?r)" "\<And>x. x \<in> set ?r \<Longrightarrow> pos + length (take_line k s) \<le> fst x"
      using 1[OF False] by auto
    have "pos \<notin> fst ` set ?r" using ih(2) n by fastforce
    then show ?thesis using ih n False
      by (auto simp: pieces.simps[of k pos s] dest: ih(2))
  qed
qed

section \<open>Reading a file line by line\<close>

text \<open>
  \<open>while (!feof(f)) { pos = ftell(f); if (fgets(buffer, n, f)) ... }\<close> over a state, with an array
  of at least two characters. \<open>step\<close> gets the position and the line and continues (\<open>Inl\<close>) or
  leaves the function (\<open>Inr\<close>).
\<close>

function while_fgets ::
  "nat \<Rightarrow> (nat \<Rightarrow> string \<Rightarrow> 's \<Rightarrow> ('s + 'r) option) \<Rightarrow> stream \<Rightarrow> 's \<Rightarrow> ('s + 'r) option" where
  "while_fgets n step f s =
     (if at_eof f \<or> n < 2 then Some (Inl s)
      else (case fgets n f of
          (None, f') \<Rightarrow> while_fgets n step f' s
        | (Some l, f') \<Rightarrow>
            (case step (tell f) l s of
               None \<Rightarrow> None
             | Some (Inr r) \<Rightarrow> Some (Inr r)
             | Some (Inl s') \<Rightarrow> while_fgets n step f' s')))"
  by pat_completeness auto

termination
  by (relation "measure (\<lambda>(n, step, f, s). 2 * length (left f) + (if at_eof f then 0 else 1))")
     (auto dest!: fgets_left[OF sym])

declare while_fgets.simps [simp del]

fun run_lines :: "(nat \<Rightarrow> string \<Rightarrow> 's \<Rightarrow> ('s + 'r) option) \<Rightarrow> (nat \<times> string) list \<Rightarrow> 's \<Rightarrow> ('s + 'r) option" where
  "run_lines step [] s = Some (Inl s)"
| "run_lines step ((pos, l) # ls) s =
     (case step pos l s of
        None \<Rightarrow> None
      | Some (Inr r) \<Rightarrow> Some (Inr r)
      | Some (Inl s') \<Rightarrow> run_lines step ls s')"

lemma fgets_pieces:
  assumes "left f \<noteq> []" and "1 < n" and "fgets n f = (r, f')"
  shows "\<exists>l. r = Some l \<and>
    pieces (n - 1) (tell f) (left f) = (tell f, l) # pieces (n - 1) (tell f') (left f') \<and>
    (at_eof f' \<longrightarrow> left f' = [])"
proof -
  let ?l = "take_line (n - 1) (left f)"
  have "?l \<noteq> []" using assms(1,2) by (simp add: take_line_Nil)
  moreover have "left f' = []" if "at_eof f'"
    using that assms(3) take_line_short[of "n - 1" "left f"]
    by (auto simp: fgets_def Let_def split: if_splits)
  moreover have "pieces (n - 1) (tell f) (left f)
      = (tell f, ?l) # pieces (n - 1) (tell f + length ?l) (drop (length ?l) (left f))"
    using assms(1,2) by (subst pieces.simps) simp
  ultimately show ?thesis
    using assms(3) by (auto simp: fgets_def Let_def)
qed

lemma while_fgets_run:
  assumes "1 < n"
  shows "at_eof f = False \<or> left f = [] \<Longrightarrow>
    while_fgets n step f s = run_lines step (pieces (n - 1) (tell f) (left f)) s"
  using assms
proof (induction n step f s rule: while_fgets.induct)
  case (1 n step f s)
  obtain r f' where fg: "fgets n f = (r, f')" by (cases "fgets n f")
  show ?case
  proof (cases "left f = []")
    case True
    then have "r = None" "at_eof f'" using fg 1(4) by (auto simp: fgets_def Let_def)
    then show ?thesis
      using True fg 1(4) by (simp add: while_fgets.simps[of n step f] while_fgets.simps[of n step f'])
  next
    case False
    then have ne: "\<not> (at_eof f \<or> n < 2)" using 1(3,4) by auto
    obtain l where l: "r = Some l"
      "pieces (n - 1) (tell f) (left f) = (tell f, l) # pieces (n - 1) (tell f') (left f')"
      "at_eof f' \<longrightarrow> left f' = []"
      using fgets_pieces[OF False 1(4) fg] by blast
    have ih: "while_fgets n step f' s' = run_lines step (pieces (n - 1) (tell f') (left f')) s'"
      if "step (tell f) l s = Some (Inl s')" for s'
      using 1(2)[OF ne _ _ that] fg l(1,3) 1(4) that by auto
    show ?thesis
      using ne fg l(1,2) ih
      by (auto simp: while_fgets.simps[of n step f] split: option.splits sum.splits)
  qed
qed

lemma while_fgets_open:
  "1 < n \<Longrightarrow> while_fgets n step (open_at content pos) s
     = run_lines step (pieces (n - 1) pos (drop pos content)) s"
  by (simp add: while_fgets_run open_at_def)

text \<open>The lines of a file of shorter lines are the lines, each with its newline.\<close>

lemma take_line_whole:
  "length l < k \<Longrightarrow> LF \<notin> set l \<Longrightarrow> take_line k (l @ LF # s) = l @ [LF]"
proof (induction l arbitrary: k)
  case Nil
  then show ?case by (cases k) auto
next
  case (Cons c l)
  then show ?case by (cases k) auto
qed

fun unlines :: "string list \<Rightarrow> string" where
  "unlines [] = []"
| "unlines (l # ls) = l @ LF # unlines ls"

fun numbered :: "nat \<Rightarrow> string list \<Rightarrow> (nat \<times> string) list" where
  "numbered pos [] = []"
| "numbered pos (l # ls) = (pos, l @ [LF]) # numbered (pos + length l + 1) ls"

lemma pieces_unlines:
  "\<forall>l \<in> set ls. length l < k \<and> LF \<notin> set l \<Longrightarrow> pieces k pos (unlines ls) = numbered pos ls"
proof (induction ls arbitrary: pos)
  case Nil
  then show ?case by simp
next
  case (Cons l ls)
  then have "take_line k (unlines (l # ls)) = l @ [LF]" by (simp add: take_line_whole)
  moreover have "k \<noteq> 0" using Cons.prems by auto
  ultimately show ?case using Cons by (subst pieces.simps) simp
qed

end
