(* ===== verification/NetUtils.thy ===== *)
theory NetUtils
  imports CText
begin

text \<open>
  \<open>netutils.c\<close>: the set of descriptors for \<open>select\<close>, closing a descriptor once, waiting for a
  port to become free, the interface of a socket and the link messages of the kernel. Results of
  system calls are arguments; a loop over system calls takes the list of what they return.
\<close>

section \<open>Descriptors\<close>

abbreviation FD_SETSIZE :: int where "FD_SETSIZE \<equiv> 1024"

text \<open>\<open>FD_SET\<close> outside the bit field is undefined.\<close>

definition fd_set :: "int \<Rightarrow> int set \<Rightarrow> int set option" where
  "fd_set s fds = (if 0 \<le> s \<and> s < FD_SETSIZE then Some (insert s fds) else None)"

text \<open>The loop over the variable arguments, and \<open>++max\<close> at its end.\<close>

fun fd_loop :: "int list \<Rightarrow> int set \<Rightarrow> int \<Rightarrow> (int set \<times> int) option" where
  "fd_loop [] fds m = Some (fds, m + 1)"
| "fd_loop (s # ss) fds m =
     (if 0 \<le> s then do { fds \<leftarrow> fd_set s fds; fd_loop ss fds (if m < s then s else m) }
      else fd_loop ss fds m)"

definition netutil_init_fd_set :: "int list \<Rightarrow> (int set \<times> int) option" where
  "netutil_init_fd_set ss = fd_loop ss {} (- 2)"

text \<open>The descriptor variable afterwards, and what has been given to \<open>close\<close>.\<close>

definition netutil_close_fd :: "int \<Rightarrow> int \<times> int list" where
  "netutil_close_fd fd = (if 0 \<le> fd then (- 1, [fd]) else (fd, []))"

definition netutil_cleanup :: "int \<Rightarrow> int list" where
  "netutil_cleanup nlsock = (if 0 \<le> nlsock then [nlsock] else [])"

lemma fd_loop_spec:
  "\<forall>s \<in> set ss. s < FD_SETSIZE \<Longrightarrow>
    fd_loop ss fds m = Some (fds \<union> {s \<in> set ss. 0 \<le> s}, fold (\<lambda>s m. if 0 \<le> s then max m s else m) ss m + 1)"
proof (induction ss arbitrary: fds m)
  case Nil
  then show ?case by simp
next
  case (Cons s ss)
  show ?case
  proof (cases "0 \<le> s")
    case True
    have "(if m < s then s else m) = max m s" by simp
    moreover have "insert s fds \<union> {x \<in> set ss. 0 \<le> x} = fds \<union> {x \<in> set (s # ss). 0 \<le> x}"
      using True by auto
    ultimately show ?thesis using Cons True by (simp add: fd_set_def)
  next
    case False
    then have "{x \<in> set (s # ss). 0 \<le> x} = {x \<in> set ss. 0 \<le> x}" by auto
    then show ?thesis using Cons False by simp
  qed
qed

lemma fold_max_ge:
  "m \<le> fold (\<lambda>s m. if 0 \<le> s then max m s else m) ss (m :: int) \<and>
   (\<forall>s \<in> set ss. 0 \<le> s \<longrightarrow> s \<le> fold (\<lambda>s m. if 0 \<le> s then max m s else m) ss m)"
proof (induction ss arbitrary: m)
  case Nil
  then show ?case by simp
next
  case (Cons s ss)
  let ?m = "if 0 \<le> s then max m s else m"
  show ?case using Cons[of ?m] by (auto split: if_splits)
qed

lemma init_fd_set_range:
  assumes "\<forall>s \<in> set ss. s < FD_SETSIZE"
  shows "\<exists>m. netutil_init_fd_set ss = Some ({s \<in> set ss. 0 \<le> s}, m) \<and>
    (\<forall>s \<in> set ss. 0 \<le> s \<longrightarrow> s < m)"
  using fd_loop_spec[OF assms, of "{}" "- 2"] fold_max_ge[of "- 2" ss]
  by (fastforce simp: netutil_init_fd_set_def)

section \<open>Waiting for a port\<close>

text \<open>
  One turn of the loop of \<open>wait_for_bind\<close>: \<open>bind\<close> succeeds or fails with an error number, and
  after \<open>EADDRINUSE\<close> the \<open>select\<close> of ten seconds on the control pipe has a result.
\<close>

datatype bind_result = Bound | BindError int

abbreviation EADDRINUSE :: int where "EADDRINUSE \<equiv> 98"

text \<open>\<open>None\<close> is a loop that still waits when the list of system calls ends.\<close>

fun bind_loop :: "int \<Rightarrow> (bind_result \<times> int) list \<Rightarrow> int option" where
  "bind_loop ctrlfd [] = None"
| "bind_loop ctrlfd ((Bound, sel) # rs) = Some 0"
| "bind_loop ctrlfd ((BindError e, sel) # rs) =
     (if e \<noteq> EADDRINUSE then Some (- 1)
      else if 0 \<le> ctrlfd
      then (if 0 < sel then Some 1 else if sel < 0 then Some (- 1) else bind_loop ctrlfd rs)
      else bind_loop ctrlfd rs)"

definition wait_for_bind :: "int \<Rightarrow> int \<Rightarrow> (bind_result \<times> int) list \<Rightarrow> int option" where
  "wait_for_bind sock ctrlfd rs = (if sock < 0 then Some (- 1) else bind_loop ctrlfd rs)"

text \<open>The port stays taken, and nobody writes to the control pipe.\<close>

abbreviation waits :: "int \<Rightarrow> bind_result \<times> int \<Rightarrow> bool" where
  "waits ctrlfd r \<equiv> fst r = BindError EADDRINUSE \<and> (ctrlfd < 0 \<or> snd r = 0)"

lemma bind_loop_waits: "\<forall>r \<in> set rs. waits ctrlfd r \<Longrightarrow> bind_loop ctrlfd (rs @ qs) = bind_loop ctrlfd qs"
  by (induction ctrlfd rs rule: bind_loop.induct) auto

lemma bind_loop_cases:
  "bind_loop ctrlfd rs = None \<longleftrightarrow> (\<forall>r \<in> set rs. waits ctrlfd r)"
  by (induction ctrlfd rs rule: bind_loop.induct) auto

lemma bind_loop_values: "bind_loop ctrlfd rs = Some v \<Longrightarrow> v \<in> {- 1, 0, 1}"
  by (induction ctrlfd rs rule: bind_loop.induct) (auto split: if_splits)

lemma bind_loop_first:
  "bind_loop ctrlfd rs = Some v \<Longrightarrow>
    \<exists>as r bs. rs = as @ r # bs \<and> (\<forall>x \<in> set as. waits ctrlfd x) \<and> \<not> waits ctrlfd r \<and>
      (v = 0 \<longleftrightarrow> fst r = Bound)"
proof (induction ctrlfd rs rule: bind_loop.induct)
  case (3 ctrlfd e sel rs)
  show ?case
  proof (cases "waits ctrlfd (BindError e, sel)")
    case True
    then have "bind_loop ctrlfd rs = Some v" using "3.prems" by (auto split: if_splits)
    then obtain as r bs where "rs = as @ r # bs" "\<forall>x \<in> set as. waits ctrlfd x" "\<not> waits ctrlfd r"
      "v = 0 \<longleftrightarrow> fst r = Bound"
      using 3 True by (auto split: if_splits)
    then show ?thesis using True by (intro exI[of _ "(BindError e, sel) # as"] exI[of _ r] exI[of _ bs]) auto
  next
    case False
    then show ?thesis using "3.prems"
      by (intro exI[of _ "[]"] exI[of _ "(BindError e, sel)"] exI[of _ rs]) (auto split: if_splits)
  qed
next
  case (2 ctrlfd sel rs)
  then show ?case by (intro exI[of _ "[]"] exI[of _ "(Bound, sel)"] exI[of _ rs]) auto
qed simp

section \<open>The interface of a socket\<close>

text \<open>
  One entry of \<open>getifaddrs\<close>: whether it is an IPv4 address, its text, the interface name and
  the index \<open>ioctl\<close> has for it.
\<close>

record interface =
  if_inet :: bool
  if_addr :: string
  if_name :: string
  if_index :: int

text \<open>
  \<open>local\<close> is the text of the address from \<open>getsockname\<close>, \<open>ifs\<close> the list of \<open>getifaddrs\<close>, each
  \<open>None\<close> on failure. The outputs are not written when no interface has the address.
\<close>

fun find_interface :: "string \<Rightarrow> interface list \<Rightarrow> int \<times> char list \<Rightarrow> (int \<times> char list) option" where
  "find_interface addr [] out = Some out"
| "find_interface addr (i # is) (idx, name) =
     (if if_inet i \<and> addr = if_addr i
      then do { name \<leftarrow> strcpy name (if_name i); Some (if_index i, name) }
      else find_interface addr is (idx, name))"

definition netutil_get_interface_from_sock ::
  "string option \<Rightarrow> interface list option \<Rightarrow> int \<times> char list \<Rightarrow> (int \<times> int \<times> char list) option" where
  "netutil_get_interface_from_sock local ifs out =
     (case local of None \<Rightarrow> Some (- 1, out) | Some addr \<Rightarrow>
     (case ifs of None \<Rightarrow> Some (- 1, out)
      | Some is \<Rightarrow> do { out \<leftarrow> find_interface addr is out; Some (0, out) }))"

section \<open>Addresses\<close>

text \<open>An IPv4 address in network byte order; \<open>INADDR_NONE\<close> is the error value, which is also 255.255.255.255.\<close>

abbreviation INADDR_NONE :: "32 word" where "INADDR_NONE \<equiv> 0xFFFFFFFF"

text \<open>
  \<open>inet_addr\<close> and \<open>gethostbyname\<close> of the C library are arguments: the number a text stands for, and
  the list of addresses of a name, which is not empty and ends with NULL.
\<close>

definition netutil_get_ip_address :: "(string \<Rightarrow> 32 word) \<Rightarrow> (string \<Rightarrow> 32 word list option) \<Rightarrow> string \<Rightarrow> 32 word option" where
  "netutil_get_ip_address inet_addr gethostbyname hostname =
     (if inet_addr hostname = INADDR_NONE
      then (case gethostbyname hostname of None \<Rightarrow> Some INADDR_NONE | Some addrs \<Rightarrow> rd addrs 0)
      else Some (inet_addr hostname))"

text \<open>\<open>peer\<close> is what \<open>getpeername\<close> stores: whether it is an IPv4 address, and its text.\<close>

definition netutil_get_remote_address :: "(bool \<times> string) option \<Rightarrow> string option" where
  "netutil_get_remote_address peer =
     (case peer of None \<Rightarrow> None | Some (inet, text) \<Rightarrow> if inet then Some text else None)"

text \<open>The result, and the descriptors that are open afterwards: \<open>fd\<close> is that of \<open>socket\<close>.\<close>

definition netutil_init_netlink :: "int \<Rightarrow> bool \<Rightarrow> int \<times> int list" where
  "netutil_init_netlink fd bound =
     (if fd = - 1 then (- 1, []) else if \<not> bound then (- 1, [fd]) else (fd, [fd]))"

text \<open>When \<open>bind\<close> fails the socket stays open and nobody knows it any more.\<close>

lemma netlink_lost: "fst (netutil_init_netlink fd bound) = - 1 \<and> snd (netutil_init_netlink fd bound) \<noteq> [] \<longleftrightarrow> fd \<noteq> - 1 \<and> \<not> bound"
  by (auto simp: netutil_init_netlink_def)

section \<open>Link messages\<close>

datatype link_attr = IFLA_IFNAME string | IFLA_OPERSTATE int | OtherAttr

datatype link_event = NetUp int string | NetDown int string

abbreviation IF_OPER_DOWN :: int where "IF_OPER_DOWN \<equiv> 2"
abbreviation IF_OPER_UP :: int where "IF_OPER_UP \<equiv> 6"

text \<open>The loop over the attributes, with the name copied into the array of 16.\<close>

fun link_attrs :: "link_attr list \<Rightarrow> char list \<times> int \<Rightarrow> (char list \<times> int) option" where
  "link_attrs [] st = Some st"
| "link_attrs (IFLA_IFNAME s # as) (name, st) = do { name \<leftarrow> strcpy name s; link_attrs as (name, st) }"
| "link_attrs (IFLA_OPERSTATE v # as) (name, st) = link_attrs as (name, v)"
| "link_attrs (OtherAttr # as) st = link_attrs as st"

text \<open>The callbacks are both set; the result is the one that is called, if any.\<close>

definition netlink_handle_newlink :: "int \<Rightarrow> link_attr list \<Rightarrow> link_event list option" where
  "netlink_handle_newlink idx as = do {
     (name, st) \<leftarrow> link_attrs as (replicate 16 NUL, 0);
     s \<leftarrow> cstr name;
     Some (if st = IF_OPER_DOWN then [NetDown idx s] else if st = IF_OPER_UP then [NetUp idx s] else []) }"

datatype netlink_msg = NewLink int "link_attr list" | DoneMsg | OtherMsg

text \<open>The messages of one datagram up to \<open>NLMSG_DONE\<close>, and the datagrams until \<open>recv\<close> has no more.\<close>

fun netlink_datagram :: "netlink_msg list \<Rightarrow> link_event list option" where
  "netlink_datagram [] = Some []"
| "netlink_datagram (DoneMsg # ms) = Some []"
| "netlink_datagram (OtherMsg # ms) = netlink_datagram ms"
| "netlink_datagram (NewLink idx as # ms) = do {
     e \<leftarrow> netlink_handle_newlink idx as; es \<leftarrow> netlink_datagram ms; Some (e @ es) }"

fun netutil_handle_netlink_message :: "netlink_msg list list \<Rightarrow> link_event list option" where
  "netutil_handle_netlink_message [] = Some []"
| "netutil_handle_netlink_message (d # ds) = do {
     es \<leftarrow> netlink_datagram d; fs \<leftarrow> netutil_handle_netlink_message ds; Some (es @ fs) }"

section \<open>Properties\<close>

text \<open>
  \<open>wait_for_bind\<close> on a valid socket waits exactly as long as the port is in use and the
  control pipe is silent, and the first turn that is different decides: 0 if \<open>bind\<close> succeeds
  there, and 1 or -1 otherwise. Without such a turn it does not return.
\<close>

theorem wait_for_bind_first:
  assumes "0 \<le> sock"
  shows "case wait_for_bind sock ctrlfd rs of
      None \<Rightarrow> list_all (waits ctrlfd) rs
    | Some v \<Rightarrow> v \<in> {- 1, 0, 1} \<and>
       (\<exists>as r bs. rs = as @ r # bs \<and> list_all (waits ctrlfd) as \<and> \<not> waits ctrlfd r \<and>
          (v = 0 \<longleftrightarrow> fst r = Bound))"
  using assms bind_loop_cases[of ctrlfd rs] bind_loop_values[of ctrlfd rs] bind_loop_first[of ctrlfd rs]
  unfolding wait_for_bind_def list_all_iff by (auto split: option.split)

theorem wait_for_bind_first_witness:
  "case wait_for_bind 4 7 [(BindError 98, 0), (Bound, 0)] of
      None \<Rightarrow> list_all (waits 7) [(BindError 98, 0), (Bound, 0)]
    | Some v \<Rightarrow> v \<in> {- 1, 0, 1} \<and>
       (\<exists>as r bs. [(BindError 98, 0), (Bound, 0)] = as @ r # bs \<and> list_all (waits 7) as \<and> \<not> waits 7 r \<and>
          (v = 0 \<longleftrightarrow> fst r = Bound))"
  by (rule wait_for_bind_first) simp

end
