(* ===== verification/Notification.thy ===== *)
theory Notification
  imports CText
begin

text \<open>
  The call monitor's notifications, \<open>_fritz_parse_notification\<close> of \<open>fritz.c\<close>: a line of fields
  separated by semicolons becomes a record with fixed arrays. \<open>g_strsplit\<close> of GLib and
  \<open>strptime\<close> are parameters. The abstract side is a datatype of the four events with the
  line the call monitor sends for each; the parser is proved to be its inverse.
\<close>

section \<open>Numbers in text\<close>

text \<open>The prefix \<open>atoi\<close> and \<open>strtoul\<close> read: white space, a sign, digits.\<close>

definition c_space :: "char \<Rightarrow> bool" where
  "c_space c \<longleftrightarrow> c \<in> set [CHR '' '', TAB, LF, CHR 0x0B, CHR 0x0C, CHR 0x0D]"

definition num_of :: "string \<Rightarrow> nat" where
  "num_of ds = foldl (\<lambda>n c. 10 * n + (of_char c - 48)) 0 ds"

definition read_number :: "string \<Rightarrow> bool \<times> nat" where
  "read_number s =
     (let t = dropWhile c_space s in
      case t of
        c # u \<Rightarrow> if c = CHR ''-'' then (True, num_of (takeWhile dig u))
                 else if c = CHR ''+'' then (False, num_of (takeWhile dig u))
                 else (False, num_of (takeWhile dig t))
      | [] \<Rightarrow> (False, 0))"

text \<open>\<open>atoi\<close> has no defined value outside the ints; \<open>strtoul\<close> saturates and negates modulo.\<close>

definition atoi :: "string \<Rightarrow> int option" where
  "atoi s = (let (neg, n) = read_number s; v = (if neg then - int n else int n) in
     if - (2 ^ 31) \<le> v \<and> v < 2 ^ 31 then Some v else None)"

definition strtoul :: "string \<Rightarrow> 64 word" where
  "strtoul s = (let (neg, n) = read_number s in
     if 2 ^ 64 \<le> n then - 1 else if neg then - of_nat n else of_nat n)"

section \<open>The record and the parser\<close>

abbreviation CALLMSGTYPE_CALL :: u16 where "CALLMSGTYPE_CALL \<equiv> 0"
abbreviation CALLMSGTYPE_RING :: u16 where "CALLMSGTYPE_RING \<equiv> 1"
abbreviation CALLMSGTYPE_CONNECT :: u16 where "CALLMSGTYPE_CONNECT \<equiv> 2"
abbreviation CALLMSGTYPE_DISCONNECT :: u16 where "CALLMSGTYPE_DISCONNECT \<equiv> 3"

record tm =
  tm_sec :: int
  tm_min :: int
  tm_hour :: int
  tm_mday :: int
  tm_mon :: int
  tm_year :: int
  tm_wday :: int
  tm_yday :: int
  tm_isdst :: int

definition zero_tm :: tm where
  "zero_tm = \<lparr>tm_sec = 0, tm_min = 0, tm_hour = 0, tm_mday = 0, tm_mon = 0, tm_year = 0,
     tm_wday = 0, tm_yday = 0, tm_isdst = 0\<rparr>"

record CIFritzCallMsg =
  msgtype :: u16
  connectionid :: u16
  nst :: u16
  calling_number :: "char list"
  called_number :: "char list"
  number :: "char list"
  duration :: "64 word"
  datetime :: tm

definition zero_callmsg :: CIFritzCallMsg where
  "zero_callmsg = \<lparr>msgtype = 0, connectionid = 0, nst = 0, calling_number = replicate 32 NUL,
     called_number = replicate 32 NUL, number = replicate 32 NUL, duration = 0, datetime = zero_tm\<rparr>"

text \<open>
  \<open>fields[i]\<close> of the vector \<open>g_strsplit\<close> returns: a string, the NULL behind the last one
  (the inner \<open>None\<close>), and nothing behind that.
\<close>

definition field_at :: "string list \<Rightarrow> nat \<Rightarrow> string option option" where
  "field_at fs i = (if i < length fs then Some (Some (fs ! i)) else if i = length fs then Some None else None)"

definition has_field :: "string list \<Rightarrow> nat \<Rightarrow> bool option" where
  "has_field fs i = map_option (\<lambda>f. f \<noteq> None) (field_at fs i)"

text \<open>\<open>a && b\<close> on tests that may run out of the vector.\<close>

definition both :: "bool option \<Rightarrow> (unit \<Rightarrow> bool option) \<Rightarrow> bool option" where
  "both a b = do { x \<leftarrow> a; if x then b () else Some False }"

definition the_field :: "string list \<Rightarrow> nat \<Rightarrow> string option" where
  "the_field fs i = do { f \<leftarrow> field_at fs i; f }"

definition msgtype_of :: "string \<Rightarrow> u16 option" where
  "msgtype_of f =
     (if f = ''RING'' then Some CALLMSGTYPE_RING
      else if f = ''CALL'' then Some CALLMSGTYPE_CALL
      else if f = ''CONNECT'' then Some CALLMSGTYPE_CONNECT
      else if f = ''DISCONNECT'' then Some CALLMSGTYPE_DISCONNECT
      else None)"

definition gushort_of :: "string \<Rightarrow> u16 option" where
  "gushort_of s = map_option of_int (atoi s)"

text \<open>The switch over the message type; the bool tells \<open>break\<close> from \<open>goto out\<close>.\<close>

definition parse_fields :: "string list \<Rightarrow> CIFritzCallMsg \<Rightarrow> (bool \<times> CIFritzCallMsg) option" where
  "parse_fields fs m =
    (if msgtype m = CALLMSGTYPE_RING then do {
       ok \<leftarrow> has_field fs 4;
       if \<not> ok then Some (False, m) else do {
         f3 \<leftarrow> the_field fs 3; a \<leftarrow> strlcpy (calling_number m) f3 32;
         f4 \<leftarrow> the_field fs 4; b \<leftarrow> strlcpy (called_number m) f4 32;
         Some (True, m\<lparr>calling_number := a, called_number := b\<rparr>) } }
     else if msgtype m = CALLMSGTYPE_CALL then do {
       ok \<leftarrow> both (has_field fs 4) (\<lambda>_. has_field fs 5);
       if \<not> ok then Some (False, m) else do {
         f3 \<leftarrow> the_field fs 3; n \<leftarrow> gushort_of f3;
         f4 \<leftarrow> the_field fs 4; a \<leftarrow> strlcpy (calling_number m) f4 32;
         f5 \<leftarrow> the_field fs 5; b \<leftarrow> strlcpy (called_number m) f5 32;
         Some (True, m\<lparr>nst := n, calling_number := a, called_number := b\<rparr>) } }
     else if msgtype m = CALLMSGTYPE_CONNECT then do {
       ok \<leftarrow> has_field fs 4;
       if \<not> ok then Some (False, m) else do {
         f3 \<leftarrow> the_field fs 3; n \<leftarrow> gushort_of f3;
         f4 \<leftarrow> the_field fs 4; a \<leftarrow> strlcpy (calling_number m) f4 32;
         Some (True, m\<lparr>nst := n, calling_number := a\<rparr>) } }
     else if msgtype m = CALLMSGTYPE_DISCONNECT then do {
       f3 \<leftarrow> the_field fs 3; Some (True, m\<lparr>duration := strtoul f3\<rparr>) }
     else Some (True, m))"

text \<open>
  The parser; \<open>split\<close> is \<open>g_strsplit(_, ";", 0)\<close> and \<open>strptime s t\<close> the structure \<open>t\<close> after
  \<open>strptime\<close> has parsed \<open>s\<close> into it. NULL pointers are \<open>None\<close>.
\<close>

definition fritz_parse_notification ::
  "(string \<Rightarrow> string list) \<Rightarrow> (string \<Rightarrow> tm \<Rightarrow> tm) \<Rightarrow> string option \<Rightarrow> CIFritzCallMsg option \<Rightarrow>
   (int \<times> CIFritzCallMsg option) option" where
  "fritz_parse_notification split strptime notify cmsg =
    (case notify of None \<Rightarrow> Some (1, cmsg) | Some line \<Rightarrow>
    (case cmsg of None \<Rightarrow> Some (2, None) | Some old \<Rightarrow>
      let m = zero_callmsg; fs = split line in do {
      ok \<leftarrow> both (has_field fs 0) (\<lambda>_. both (has_field fs 1) (\<lambda>_. both (has_field fs 2) (\<lambda>_. has_field fs 3)));
      if \<not> ok then Some (3, Some m)
      else do {
        f0 \<leftarrow> the_field fs 0;
        let m = m\<lparr>datetime := strptime f0 (datetime m)\<rparr> in do {
        f1 \<leftarrow> the_field fs 1;
        case msgtype_of f1 of
          None \<Rightarrow> Some (3, Some m)
        | Some t \<Rightarrow> do {
            f2 \<leftarrow> the_field fs 2;
            c \<leftarrow> gushort_of f2;
            (done, m) \<leftarrow> parse_fields fs (m\<lparr>msgtype := t, connectionid := c\<rparr>);
            Some (if done then 0 else 3, Some m) } } } }))"

section \<open>Splitting at semicolons\<close>

abbreviation SEMI :: char where "SEMI \<equiv> CHR '';''"

fun join :: "string list \<Rightarrow> string" where
  "join [] = []"
| "join [f] = f"
| "join (f # g # fs) = f @ SEMI # join (g # fs)"

text \<open>
  The documentation of \<open>g_strsplit\<close> with one-character delimiter and no limit: the pieces
  contain no delimiter, and a non-empty string is its pieces joined by delimiters; the empty
  string has no piece.
\<close>

definition splits :: "(string \<Rightarrow> string list) \<Rightarrow> bool" where
  "splits split \<longleftrightarrow>
     (\<forall>s. if s = [] then split s = []
          else split s \<noteq> [] \<and> join (split s) = s \<and> (\<forall>f \<in> set (split s). SEMI \<notin> set f))"

text \<open>A function with these laws.\<close>

fun cut :: "string \<Rightarrow> string list" where
  "cut [] = [[]]"
| "cut (c # s) = (if c = SEMI then [] # cut s else (c # hd (cut s)) # tl (cut s))"

definition semicolon_split :: "string \<Rightarrow> string list" where
  "semicolon_split s = (if s = [] then [] else cut s)"

lemma cut_ne: "cut s \<noteq> []"
  by (induction s) auto

lemma join_Cons_ne: "fs \<noteq> [] \<Longrightarrow> join (f # fs) = f @ SEMI # join fs"
  by (cases fs) auto

lemma join_cut: "join (cut s) = s \<and> (\<forall>f \<in> set (cut s). SEMI \<notin> set f)"
proof (induction s)
  case Nil
  then show ?case by simp
next
  case (Cons c s)
  obtain f fs where f: "cut s = f # fs" using cut_ne[of s] by (cases "cut s") auto
  then show ?case using Cons by (cases fs) auto
qed

lemma semicolon_split_splits: "splits semicolon_split"
  using join_cut cut_ne by (auto simp: splits_def semicolon_split_def)

text \<open>The pieces are determined by the laws.\<close>

lemma first_SEMI:
  "SEMI \<notin> set f \<Longrightarrow> SEMI \<notin> set g \<Longrightarrow> f @ SEMI # u = g @ SEMI # v \<Longrightarrow> f = g \<and> u = v"
proof (induction f arbitrary: g)
  case Nil
  then show ?case by (cases g) auto
next
  case (Cons c f)
  then show ?case by (cases g) auto
qed

lemma join_inj:
  "fs \<noteq> [] \<Longrightarrow> gs \<noteq> [] \<Longrightarrow> \<forall>f \<in> set fs. SEMI \<notin> set f \<Longrightarrow> \<forall>g \<in> set gs. SEMI \<notin> set g \<Longrightarrow>
     join fs = join gs \<Longrightarrow> fs = gs"
proof (induction fs arbitrary: gs)
  case Nil
  then show ?case by simp
next
  case (Cons f fs)
  obtain g gs' where g: "gs = g # gs'" using Cons.prems(2) by (cases gs) auto
  have nf: "SEMI \<notin> set f" "SEMI \<notin> set g" using Cons.prems g by auto
  show ?case
  proof (cases "fs = [] \<or> gs' = []")
    case True
    then have "fs = [] \<and> gs' = []"
    proof (cases "fs = []")
      case t: True
      then have "SEMI \<notin> set (join gs)" using Cons.prems(5) nf by simp
      then show ?thesis using t g by (cases gs') auto
    next
      case False
      then have "gs' = []" using True by simp
      then have "SEMI \<notin> set (join (f # fs))" using Cons.prems(5) nf g by simp
      then show ?thesis using False by (simp add: join_Cons_ne)
    qed
    then show ?thesis using Cons.prems(5) g by simp
  next
    case False
    then have "f @ SEMI # join fs = g @ SEMI # join gs'"
      using Cons.prems(5) g by (simp add: join_Cons_ne)
    then have "f = g \<and> join fs = join gs'" by (rule first_SEMI[OF nf])
    then show ?thesis using Cons.IH[of gs'] Cons.prems False g by auto
  qed
qed

lemma split_join:
  assumes "splits split" and "fs \<noteq> []" and "\<forall>f \<in> set fs. SEMI \<notin> set f" and "join fs \<noteq> []"
  shows "split (join fs) = fs"
proof -
  have "split (join fs) \<noteq> [] \<and> join (split (join fs)) = join fs \<and>
      (\<forall>f \<in> set (split (join fs)). SEMI \<notin> set f)"
    using assms(1,4) by (auto simp: splits_def)
  then show ?thesis using join_inj assms(2,3) by blast
qed

section \<open>Decimal numbers\<close>

definition digit_char :: "nat \<Rightarrow> char" where
  "digit_char d = ''0123456789'' ! d"

fun dec :: "nat \<Rightarrow> string" where
  "dec n = (if n < 10 then [digit_char n] else dec (n div 10) @ [digit_char (n mod 10)])"

declare dec.simps [simp del]

lemma digit_char_cases:
  assumes "d < 10"
  shows "dig (digit_char d) \<and> of_char (digit_char d) = (48 + d :: nat)"
proof -
  have "d \<in> {0, 1, 2, 3, 4, 5, 6, 7, 8, 9}" using assms by auto
  then show ?thesis
    by (elim insertE emptyE; simp only:; simp add: digit_char_def dig_def)
qed

lemma dec_digits: "\<forall>c \<in> set (dec n). dig c"
proof (induction n rule: dec.induct)
  case (1 n)
  then show ?case by (subst dec.simps) (auto simp: digit_char_cases)
qed

lemma length_dec: "n < 10 ^ k \<Longrightarrow> 0 < k \<Longrightarrow> length (dec n) \<le> k"
proof (induction k arbitrary: n)
  case (Suc k)
  show ?case
  proof (cases "n < 10")
    case False
    then have "k \<noteq> 0" using Suc(2) by (cases k) auto
    moreover have "n div 10 < 10 ^ k" using Suc(2) by (simp add: less_mult_imp_div_less mult.commute)
    ultimately have "length (dec (n div 10)) \<le> k" using Suc(1)[of "n div 10"] by simp
    then show ?thesis using False by (subst dec.simps) simp
  qed (subst dec.simps, simp)
qed simp

lemma dec_ne: "dec n \<noteq> []"
  by (subst dec.simps) simp

lemma num_of_dec: "num_of (dec n) = n"
proof (induction n rule: dec.induct)
  case (1 n)
  show ?case
  proof (cases "n < 10")
    case True
    then show ?thesis by (subst dec.simps) (simp add: num_of_def digit_char_cases)
  next
    case False
    then have "num_of (dec n) = 10 * num_of (dec (n div 10)) + n mod 10"
      by (subst dec.simps) (simp add: num_of_def digit_char_cases)
    then show ?thesis using 1 False by simp
  qed
qed

lemma dig_not_space: "dig c \<Longrightarrow> \<not> c_space c \<and> c \<noteq> CHR ''-'' \<and> c \<noteq> CHR ''+''"
  by (auto simp: dig_def c_space_def)

lemma read_number_dec: "read_number (dec n) = (False, n)"
proof -
  obtain c u where cu: "dec n = c # u" using dec_ne[of n] by (cases "dec n") auto
  have c: "dig c" using dec_digits[of n] cu by simp
  have "\<forall>x \<in> set (c # u). dig x" using dec_digits[of n] unfolding cu .
  then have t: "takeWhile dig (c # u) = c # u" by (simp only: takeWhile_eq_all_conv)
  have n: "num_of (c # u) = n" using num_of_dec[of n] unfolding cu .
  have "dropWhile c_space (c # u) = c # u" using dig_not_space[OF c] by simp
  then show ?thesis
    using dig_not_space[OF c] unfolding read_number_def Let_def cu by (simp only: t n list.case if_False simp_thms)
qed

lemma gushort_dec: "n < 2 ^ 16 \<Longrightarrow> gushort_of (dec n) = Some (of_nat n)"
  by (simp add: gushort_of_def atoi_def read_number_dec)

lemma strtoul_dec: "n < 2 ^ 64 \<Longrightarrow> strtoul (dec n) = of_nat n"
  by (simp add: strtoul_def read_number_dec)

lemma not_dig_SEMI: "\<not> dig SEMI"
  by (simp add: dig_def)

lemma SEMI_notin_dec: "SEMI \<notin> set (dec n)"
  using dec_digits[of n] not_dig_SEMI by blast

section \<open>The four events\<close>

datatype call_event =
    RingEvent nat string string
  | CallEvent nat nat string string
  | ConnectEvent nat nat string
  | DisconnectEvent nat nat

text \<open>The line of an event as the comment of \<open>fritz.c\<close> describes it.\<close>

fun event_fields :: "string \<Rightarrow> string \<Rightarrow> call_event \<Rightarrow> string list" where
  "event_fields date proto (RingEvent c caller called) = [date, ''RING'', dec c, caller, called, proto, []]"
| "event_fields date proto (CallEvent c n caller called) =
     [date, ''CALL'', dec c, dec n, caller, called, proto, []]"
| "event_fields date proto (ConnectEvent c n num) = [date, ''CONNECT'', dec c, dec n, num, []]"
| "event_fields date proto (DisconnectEvent c d) = [date, ''DISCONNECT'', dec c, dec d, []]"

definition event_line :: "string \<Rightarrow> string \<Rightarrow> call_event \<Rightarrow> string" where
  "event_line date proto e = join (event_fields date proto e)"

definition plain :: "string \<Rightarrow> bool" where
  "plain s \<longleftrightarrow> SEMI \<notin> set s \<and> NUL \<notin> set s"

fun event_ok :: "call_event \<Rightarrow> bool" where
  "event_ok (RingEvent c caller called) = (c < 2 ^ 16 \<and> plain caller \<and> plain called)"
| "event_ok (CallEvent c n caller called) = (c < 2 ^ 16 \<and> n < 2 ^ 16 \<and> plain caller \<and> plain called)"
| "event_ok (ConnectEvent c n num) = (c < 2 ^ 16 \<and> n < 2 ^ 16 \<and> plain num)"
| "event_ok (DisconnectEvent c d) = (c < 2 ^ 16 \<and> d < 2 ^ 64)"

text \<open>The record says what the event says; numbers are cut to 31 characters.\<close>

fun represents :: "CIFritzCallMsg \<Rightarrow> call_event \<Rightarrow> bool" where
  "represents m (RingEvent c caller called) \<longleftrightarrow>
     msgtype m = CALLMSGTYPE_RING \<and> connectionid m = of_nat c \<and> nst m = 0 \<and> duration m = 0 \<and>
     cstr (calling_number m) = Some (take 31 caller) \<and> cstr (called_number m) = Some (take 31 called)"
| "represents m (CallEvent c n caller called) \<longleftrightarrow>
     msgtype m = CALLMSGTYPE_CALL \<and> connectionid m = of_nat c \<and> nst m = of_nat n \<and> duration m = 0 \<and>
     cstr (calling_number m) = Some (take 31 caller) \<and> cstr (called_number m) = Some (take 31 called)"
| "represents m (ConnectEvent c n num) \<longleftrightarrow>
     msgtype m = CALLMSGTYPE_CONNECT \<and> connectionid m = of_nat c \<and> nst m = of_nat n \<and> duration m = 0 \<and>
     cstr (calling_number m) = Some (take 31 num) \<and> cstr (called_number m) = Some []"
| "represents m (DisconnectEvent c d) \<longleftrightarrow>
     msgtype m = CALLMSGTYPE_DISCONNECT \<and> connectionid m = of_nat c \<and> nst m = 0 \<and>
     duration m = of_nat d \<and> cstr (calling_number m) = Some [] \<and> cstr (called_number m) = Some []"

lemma fields_no_SEMI: "event_ok e \<Longrightarrow> plain date \<Longrightarrow> plain proto \<Longrightarrow>
    \<forall>f \<in> set (event_fields date proto e). SEMI \<notin> set f"
  by (cases e) (auto simp: plain_def SEMI_notin_dec)

lemma event_line_split:
  assumes "splits split" and "event_ok e" and "plain date" and "plain proto"
  shows "split (event_line date proto e) = event_fields date proto e"
  unfolding event_line_def
proof (rule split_join[OF assms(1)])
  show "event_fields date proto e \<noteq> []" by (cases e) auto
  show "\<forall>f \<in> set (event_fields date proto e). SEMI \<notin> set f" by (rule fields_no_SEMI[OF assms(2-4)])
  show "join (event_fields date proto e) \<noteq> []" by (cases e) auto
qed

lemma copy_number: "plain s \<Longrightarrow> \<exists>a. strlcpy (replicate 32 NUL) s 32 = Some a \<and> cstr a = Some (take 31 s)"
  using strlcpy_fits[of 32 "replicate 32 NUL" s] by (auto simp: plain_def)

lemma cstr_zeros: "cstr (replicate 32 NUL) = Some []"
  by (simp add: cstr_def)

lemmas field_defs = has_field_def field_at_def the_field_def both_def

section \<open>Properties\<close>

text \<open>
  C11: Every notification the call monitor sends is understood: for each of the four events
  the parser returns 0 on the event's line and fills the record with the event's connection,
  extension, numbers (up to 31 characters) and duration, the time being what \<open>strptime\<close> makes
  of the first field.
\<close>

theorem parse_notification_event:
  assumes "splits split" and "event_ok e" and "plain date" and "plain proto"
  shows "\<exists>m. fritz_parse_notification split strptime (Some (event_line date proto e)) (Some old) = Some (0, Some m) \<and>
    represents m e \<and> datetime m = strptime date zero_tm"
proof -
  note sp = event_line_split[OF assms]
  show ?thesis
  proof (cases e)
    case (RingEvent c a b)
    then obtain x y where "strlcpy (replicate 32 NUL) a 32 = Some x" "cstr x = Some (take 31 a)"
      "strlcpy (replicate 32 NUL) b 32 = Some y" "cstr y = Some (take 31 b)"
      using copy_number assms(2) by (metis event_ok.simps(1))
    then show ?thesis
      using sp assms(2) RingEvent
      by (simp add: fritz_parse_notification_def Let_def field_defs msgtype_of_def gushort_dec
          parse_fields_def zero_callmsg_def)
  next
    case (CallEvent c n a b)
    then obtain x y where "strlcpy (replicate 32 NUL) a 32 = Some x" "cstr x = Some (take 31 a)"
      "strlcpy (replicate 32 NUL) b 32 = Some y" "cstr y = Some (take 31 b)"
      using copy_number assms(2) by (metis event_ok.simps(2))
    then show ?thesis
      using sp assms(2) CallEvent
      by (simp add: fritz_parse_notification_def Let_def field_defs msgtype_of_def gushort_dec
          parse_fields_def zero_callmsg_def)
  next
    case (ConnectEvent c n a)
    then obtain x where "strlcpy (replicate 32 NUL) a 32 = Some x" "cstr x = Some (take 31 a)"
      using copy_number assms(2) by (metis event_ok.simps(3))
    then show ?thesis
      using sp assms(2) ConnectEvent
      by (simp add: fritz_parse_notification_def Let_def field_defs msgtype_of_def gushort_dec
          parse_fields_def zero_callmsg_def cstr_zeros)
  next
    case (DisconnectEvent c d)
    then show ?thesis
      using sp assms(2)
      by (simp add: fritz_parse_notification_def Let_def field_defs msgtype_of_def gushort_dec
          strtoul_dec parse_fields_def zero_callmsg_def cstr_zeros)
  qed
qed

theorem parse_notification_event_witness:
  "\<exists>m. fritz_parse_notification semicolon_split (\<lambda>s t. t\<lparr>tm_mday := 5\<rparr>)
        (Some (event_line ''05.01.14 12:00:00'' ''SIP0'' (RingEvent 3 ''08912345'' ''80504''))) (Some zero_callmsg)
      = Some (0, Some m) \<and>
    represents m (RingEvent 3 ''08912345'' ''80504'') \<and> datetime m = zero_tm\<lparr>tm_mday := 5\<rparr>"
  by (rule parse_notification_event[OF semicolon_split_splits]) (simp_all add: plain_def)

definition enough_fields :: "string list \<Rightarrow> bool" where
  "enough_fields fs \<longleftrightarrow> 4 \<le> length fs \<and>
     (fs ! 1 = ''DISCONNECT'' \<or>
      5 \<le> length fs \<and> (fs ! 1 = ''RING'' \<or> fs ! 1 = ''CONNECT'') \<or>
      6 \<le> length fs \<and> fs ! 1 = ''CALL'')"



end
