(* ===== verification/FritzLink.thy ===== *)
theory FritzLink
  imports NetUtils Notification
begin

text \<open>
  The connection to the call monitor, the rest of \<open>fritz.c\<close>: the flags of the server
  structure, connecting, the retry timer of the main loop, the listening thread with its
  \<open>select\<close> on socket, pipe and netlink, and the shutdown. Each operation is a function on the
  structure; the possible interleavings are a step relation whose invariant accounts for
  every descriptor.
\<close>

section \<open>State\<close>

abbreviation Initialized :: u16 where "Initialized \<equiv> 1"
abbreviation Connected :: u16 where "Connected \<equiv> 2"
abbreviation Listening :: u16 where "Listening \<equiv> 4"

text \<open>
  The fields of \<open>CIFritzServer\<close>; then the kernel's and the main loop's side of it: the open
  descriptors, the timeouts that have been added, the bytes in the pipe.
\<close>

record fritz_server =
  srv_host :: "string option"
  srv_port :: u16
  srv_state :: u16
  srv_sock :: int
  srv_netlink :: int
  assoc_ifindex :: int
  fdpipe_r :: int
  fdpipe_w :: int
  thread :: bool
  open_fds :: "int set"
  timers :: nat
  pipe :: string

definition has :: "fritz_server \<Rightarrow> u16 \<Rightarrow> bool" where
  "has s flag \<longleftrightarrow> srv_state s AND flag \<noteq> 0"

definition set_flag :: "u16 \<Rightarrow> fritz_server \<Rightarrow> fritz_server" where
  "set_flag flag s = s\<lparr>srv_state := srv_state s OR flag\<rparr>"

definition clear_flag :: "u16 \<Rightarrow> fritz_server \<Rightarrow> fritz_server" where
  "clear_flag flag s = s\<lparr>srv_state := srv_state s AND NOT flag\<rparr>"

definition close_sock :: "fritz_server \<Rightarrow> fritz_server" where
  "close_sock s = (let (fd, cl) = netutil_close_fd (srv_sock s) in
     s\<lparr>srv_sock := fd, open_fds := open_fds s - set cl\<rparr>)"

section \<open>Operations\<close>

text \<open>
  \<open>nl\<close> is the result of \<open>netutil_init_netlink\<close>, \<open>pp\<close> the pair of descriptors of \<open>pipe\<close>, unless
  it fails. The memset leaves 0 in \<open>sock\<close>.
\<close>

definition fritz_init ::
  "string option \<Rightarrow> u16 \<Rightarrow> int \<Rightarrow> (int \<times> int) option \<Rightarrow> fritz_server \<Rightarrow> int \<times> fritz_server" where
  "fritz_init host port nl pp s =
    (let s = s\<lparr>srv_host := None, srv_port := 0, srv_state := 0, srv_sock := 0, srv_netlink := 0,
               assoc_ifindex := 0, fdpipe_r := 0, fdpipe_w := 0, thread := False\<rparr> in
     case host of None \<Rightarrow> (1, s) | Some h \<Rightarrow>
       let s = s\<lparr>srv_host := Some h, srv_port := port, srv_netlink := nl\<rparr> in
       if nl = - 1 then (2, s)
       else let s = s\<lparr>open_fds := insert nl (open_fds s)\<rparr> in
         (case pp of
            None \<Rightarrow> (3, s)
          | Some (r, w) \<Rightarrow>
              (0, set_flag Initialized
                (s\<lparr>fdpipe_r := r, fdpipe_w := w, open_fds := {r, w} \<union> open_fds s\<rparr>))))"

text \<open>
  What the system calls of one attempt to connect return: the descriptor of \<open>socket\<close>, whether
  \<open>connect\<close> succeeds, and the interface index, if it is found.
\<close>

record attempt =
  new_sock :: int
  connect_ok :: bool
  found_if :: "int option"

text \<open>The return value, \<open>*connected\<close>, and the structure.\<close>

definition fritz_connect :: "attempt \<Rightarrow> fritz_server \<Rightarrow> int \<times> bool \<times> fritz_server" where
  "fritz_connect a s =
    (if \<not> has s Initialized then (4, False, s)
     else if has s Connected then (0, True, s)
     else let s = s\<lparr>srv_sock := new_sock a\<rparr> in
       if srv_sock s = - 1 then (2, False, s)
       else let s = s\<lparr>open_fds := insert (srv_sock s) (open_fds s)\<rparr> in
         if connect_ok a
         then (0, True, set_flag Connected
                 (case found_if a of None \<Rightarrow> s | Some i \<Rightarrow> s\<lparr>assoc_ifindex := i\<rparr>))
         else (0, False, close_sock s))"

text \<open>The timeout function: TRUE keeps the timer.\<close>

definition fritz_try_reconnect :: "attempt \<Rightarrow> fritz_server \<Rightarrow> bool \<times> fritz_server" where
  "fritz_try_reconnect a s =
    (let (rc, connected, s) = fritz_connect a s;
         s = (if connected then s\<lparr>pipe := pipe s @ ''add sock''\<rparr> else s)
     in (\<not> connected, s))"

definition fritz_try_connect :: "attempt \<Rightarrow> fritz_server \<Rightarrow> fritz_server" where
  "fritz_try_connect a s =
    (if has s Connected then s
     else let (rc, connected, s) = fritz_connect a s in
       if \<not> connected then s\<lparr>timers := Suc (timers s)\<rparr> else s)"

definition fritz_startup :: "attempt \<Rightarrow> bool \<Rightarrow> fritz_server \<Rightarrow> int \<times> fritz_server" where
  "fritz_startup a thread_ok s =
    (let s = fritz_try_connect a s in if thread_ok then (0, s\<lparr>thread := True\<rparr>) else (4, s))"

definition fritz_handle_net_up :: "attempt \<Rightarrow> fritz_server \<Rightarrow> fritz_server" where
  "fritz_handle_net_up a s = fritz_try_connect a s"

definition fritz_handle_net_down :: "int \<Rightarrow> fritz_server \<Rightarrow> fritz_server" where
  "fritz_handle_net_down ifindex s =
    (if ifindex = assoc_ifindex s then clear_flag Connected (close_sock s) else s)"

text \<open>The main loop fires a timer; one that returns FALSE is removed.\<close>

definition fire_timer :: "attempt \<Rightarrow> fritz_server \<Rightarrow> fritz_server" where
  "fire_timer a s = (let (keep, s) = fritz_try_reconnect a s in
     if keep then s else s\<lparr>timers := timers s - 1\<rparr>)"

text \<open>
  One turn of the listening thread. \<open>sel\<close> is the result of \<open>select\<close>, \<open>isset\<close> is \<open>FD_ISSET\<close> on the
  set it leaves, \<open>rcv\<close> the bytes \<open>recv\<close> delivers on a valid socket, \<open>piped\<close> what \<open>read\<close> takes from
  the pipe, \<open>links\<close> the callbacks of the netlink messages, each with what connecting meets.
\<close>

record turn =
  sel :: int
  isset :: "int \<Rightarrow> bool"
  rcv :: string
  piped :: string
  links :: "(link_event \<times> attempt) list"

fun handle_links :: "(link_event \<times> attempt) list \<Rightarrow> fritz_server \<Rightarrow> fritz_server" where
  "handle_links [] s = s"
| "handle_links ((NetUp i name, a) # es) s = handle_links es (fritz_handle_net_up a s)"
| "handle_links ((NetDown i name, a) # es) s = handle_links es (fritz_handle_net_down i s)"

text \<open>\<open>strncmp(buffer, "disconnect", bytes > 10 ? 10 : bytes) == 0\<close>.\<close>

definition is_disconnect :: "string \<Rightarrow> bool" where
  "is_disconnect b \<longleftrightarrow> take 10 b = take (length b) ''disconnect''"

text \<open>The three tests of a turn; the results are the lines given to the parser and the structure.\<close>

definition turn_sock :: "turn \<Rightarrow> fritz_server \<Rightarrow> string list \<times> fritz_server" where
  "turn_sock t s =
    (if isset t (srv_sock s)
     then if 0 \<le> srv_sock s \<and> rcv t \<noteq> []
       then ([takeWhile (\<lambda>c. c \<noteq> NUL) (take 1023 (rcv t))], s)
       else ([], close_sock (clear_flag Connected s))
     else ([], s))"

definition turn_pipe :: "turn \<Rightarrow> fritz_server \<Rightarrow> bool \<times> fritz_server" where
  "turn_pipe t s =
    (if isset t (fdpipe_r s)
     then let s = s\<lparr>pipe := drop (length (piped t)) (pipe s)\<rparr> in
       if piped t \<noteq> [] \<and> is_disconnect (piped t)
       then (True, (clear_flag Listening s)\<lparr>thread := False\<rparr>)
       else (False, s)
     else (False, s))"

definition turn_links :: "turn \<Rightarrow> fritz_server \<Rightarrow> fritz_server" where
  "turn_links t s = (if isset t (srv_netlink s) then handle_links (links t) s else s)"

text \<open>The whole turn, with the bool for the thread's return.\<close>

definition listen_turn :: "turn \<Rightarrow> fritz_server \<Rightarrow> string list \<times> bool \<times> fritz_server" where
  "listen_turn t s =
    (if sel t < 0 then ([], True, s\<lparr>thread := False\<rparr>)
     else let (out, s) = turn_sock t s; (stop, s) = turn_pipe t s in
       if stop then (out, True, s) else (out, False, turn_links t s))"

text \<open>The thread's first statement.\<close>

definition thread_start :: "fritz_server \<Rightarrow> fritz_server" where
  "thread_start s = set_flag Listening s"

text \<open>
  The shutdown; \<open>joined\<close> is what the listening thread does until it returns, while the caller
  waits in \<open>g_thread_join\<close>.
\<close>

definition shutdown_request :: "fritz_server \<Rightarrow> fritz_server" where
  "shutdown_request s = s\<lparr>pipe := pipe s @ ''disconnect''\<rparr>"

definition fritz_shutdown :: "(fritz_server \<Rightarrow> fritz_server) \<Rightarrow> fritz_server \<Rightarrow> fritz_server" where
  "fritz_shutdown joined s =
    (let s = (if has s Listening
              then clear_flag Listening ((joined (shutdown_request s))\<lparr>thread := False\<rparr>) else s)
     in if has s Connected then clear_flag Connected (close_sock s) else s)"

definition fritz_cleanup :: "(fritz_server \<Rightarrow> fritz_server) \<Rightarrow> fritz_server \<Rightarrow> fritz_server" where
  "fritz_cleanup joined s =
    (let s = (if Connected \<le> srv_state s then fritz_shutdown joined s else s);
         (r, c1) = netutil_close_fd (fdpipe_r s);
         (w, c2) = netutil_close_fd (fdpipe_w s);
         c3 = netutil_cleanup (srv_netlink s)
     in s\<lparr>fdpipe_r := r, fdpipe_w := w, open_fds := open_fds s - set c1 - set c2 - set c3,
          srv_host := None\<rparr>)"

section \<open>The flags\<close>

lemma flag_bits:
  "w AND Initialized \<noteq> 0 \<longleftrightarrow> bit (w :: u16) 0" "w AND Connected \<noteq> 0 \<longleftrightarrow> bit w 1"
  "w AND Listening \<noteq> 0 \<longleftrightarrow> bit w 2"
  using and_exp_eq_0_iff_not_bit[of w 0] and_exp_eq_0_iff_not_bit[of w 1]
    and_exp_eq_0_iff_not_bit[of w 2] by auto

lemma bits_set:
  "bit (w OR Initialized :: u16) n \<longleftrightarrow> bit w n \<or> n = 0"
  "bit (w OR Connected :: u16) n \<longleftrightarrow> bit w n \<or> n = 1"
  "bit (w OR Listening :: u16) n \<longleftrightarrow> bit w n \<or> n = 2"
  using bit_exp_iff[of 0 n, where 'a = u16] bit_exp_iff[of 1 n, where 'a = u16]
    bit_exp_iff[of 2 n, where 'a = u16] by (auto simp: bit_or_iff)

lemma bits_clear:
  "n < 16 \<Longrightarrow> bit (w AND NOT Connected :: u16) n \<longleftrightarrow> bit w n \<and> n \<noteq> 1"
  "n < 16 \<Longrightarrow> bit (w AND NOT Listening :: u16) n \<longleftrightarrow> bit w n \<and> n \<noteq> 2"
  using bit_exp_iff[of 1 n, where 'a = u16] bit_exp_iff[of 2 n, where 'a = u16]
  unfolding bit_and_iff bit_not_iff by auto

lemma bits_clear_numeral:
  "n < 16 \<Longrightarrow> bit (w AND - 3 :: u16) n \<longleftrightarrow> bit w n \<and> n \<noteq> 1"
  "n < 16 \<Longrightarrow> bit (w AND - 5 :: u16) n \<longleftrightarrow> bit w n \<and> n \<noteq> 2"
  using bits_clear[of n w] by simp_all

lemma has_flags [simp]:
  "has (set_flag Initialized s) Initialized"
  "has (set_flag Initialized s) Connected = has s Connected"
  "has (set_flag Initialized s) Listening = has s Listening"
  "has (set_flag Connected s) Connected"
  "has (set_flag Connected s) Initialized = has s Initialized"
  "has (set_flag Connected s) Listening = has s Listening"
  "has (set_flag Listening s) Listening"
  "has (set_flag Listening s) Initialized = has s Initialized"
  "has (set_flag Listening s) Connected = has s Connected"
  "\<not> has (clear_flag Connected s) Connected"
  "has (clear_flag Connected s) Initialized = has s Initialized"
  "has (clear_flag Connected s) Listening = has s Listening"
  "\<not> has (clear_flag Listening s) Listening"
  "has (clear_flag Listening s) Initialized = has s Initialized"
  "has (clear_flag Listening s) Connected = has s Connected"
  unfolding has_def flag_bits set_flag_def clear_flag_def fritz_server.simps
  by (simp_all add: bits_set bits_clear_numeral)

text \<open>Updates that leave the flags alone.\<close>

lemma has_update [simp]:
  "has (s\<lparr>srv_sock := a\<rparr>) f = has s f" "has (s\<lparr>open_fds := b\<rparr>) f = has s f"
  "has (s\<lparr>timers := c\<rparr>) f = has s f" "has (s\<lparr>pipe := d\<rparr>) f = has s f"
  "has (s\<lparr>thread := e\<rparr>) f = has s f" "has (s\<lparr>assoc_ifindex := g\<rparr>) f = has s f"
  "has (close_sock s) f = has s f"
  by (simp_all add: has_def close_sock_def netutil_close_fd_def)

lemma flag_fields [simp]:
  "srv_sock (set_flag f s) = srv_sock s" "srv_sock (clear_flag f s) = srv_sock s"
  "open_fds (set_flag f s) = open_fds s" "open_fds (clear_flag f s) = open_fds s"
  "srv_netlink (set_flag f s) = srv_netlink s" "srv_netlink (clear_flag f s) = srv_netlink s"
  "fdpipe_r (set_flag f s) = fdpipe_r s" "fdpipe_r (clear_flag f s) = fdpipe_r s"
  "fdpipe_w (set_flag f s) = fdpipe_w s" "fdpipe_w (clear_flag f s) = fdpipe_w s"
  "timers (set_flag f s) = timers s" "timers (clear_flag f s) = timers s"
  "thread (set_flag f s) = thread s" "thread (clear_flag f s) = thread s"
  "pipe (set_flag f s) = pipe s" "pipe (clear_flag f s) = pipe s"
  by (simp_all add: set_flag_def clear_flag_def)

lemma close_sock_fields [simp]:
  "srv_sock (close_sock s) = (if 0 \<le> srv_sock s then - 1 else srv_sock s)"
  "open_fds (close_sock s) = (if 0 \<le> srv_sock s then open_fds s - {srv_sock s} else open_fds s)"
  "srv_netlink (close_sock s) = srv_netlink s" "fdpipe_r (close_sock s) = fdpipe_r s"
  "fdpipe_w (close_sock s) = fdpipe_w s" "timers (close_sock s) = timers s"
  "thread (close_sock s) = thread s" "pipe (close_sock s) = pipe s"
  by (simp_all add: close_sock_def netutil_close_fd_def)

section \<open>Descriptors are accounted for\<close>

text \<open>\<open>socket\<close> fails with -1 or returns a descriptor that is not open.\<close>

definition fresh :: "attempt \<Rightarrow> fritz_server \<Rightarrow> bool" where
  "fresh a s \<longleftrightarrow> - 1 \<le> new_sock a \<and> (0 \<le> new_sock a \<longrightarrow> new_sock a \<notin> open_fds s)"

fun links_fresh :: "(link_event \<times> attempt) list \<Rightarrow> fritz_server \<Rightarrow> bool" where
  "links_fresh [] s = True"
| "links_fresh ((NetUp i name, a) # es) s = (fresh a s \<and> links_fresh es (fritz_handle_net_up a s))"
| "links_fresh ((NetDown i name, a) # es) s = links_fresh es (fritz_handle_net_down i s)"

definition turn_fresh :: "turn \<Rightarrow> fritz_server \<Rightarrow> bool" where
  "turn_fresh t s \<longleftrightarrow> links_fresh (links t) (snd (turn_pipe t (snd (turn_sock t s))))"

text \<open>
  \<open>B\<close> are the descriptors of the rest of the program. The three fixed ones are open, and the
  socket is open exactly when the structure says connected.
\<close>

definition fixed_ok :: "int set \<Rightarrow> fritz_server \<Rightarrow> bool" where
  "fixed_ok B s \<longleftrightarrow> has s Initialized \<and>
     (\<forall>fd \<in> {srv_netlink s, fdpipe_r s, fdpipe_w s}. 0 \<le> fd \<and> fd \<notin> B)"

definition link_ok :: "int set \<Rightarrow> fritz_server \<Rightarrow> bool" where
  "link_ok B s \<longleftrightarrow> fixed_ok B s \<and> - 1 \<le> srv_sock s \<and> (has s Connected \<longleftrightarrow> 0 \<le> srv_sock s) \<and>
     (0 \<le> srv_sock s \<longrightarrow> srv_sock s \<notin> B \<union> {srv_netlink s, fdpipe_r s, fdpipe_w s}) \<and>
     open_fds s = B \<union> {srv_netlink s, fdpipe_r s, fdpipe_w s} \<union>
       (if 0 \<le> srv_sock s then {srv_sock s} else {})"

lemma connect_fields:
  "srv_netlink (snd (snd (fritz_connect a s))) = srv_netlink s"
  "fdpipe_r (snd (snd (fritz_connect a s))) = fdpipe_r s"
  "fdpipe_w (snd (snd (fritz_connect a s))) = fdpipe_w s"
  "timers (snd (snd (fritz_connect a s))) = timers s"
  "thread (snd (snd (fritz_connect a s))) = thread s"
  by (auto simp: fritz_connect_def Let_def split: option.splits)

text \<open>Connecting with no socket open: an open one is never overwritten.\<close>

lemma connect_link_ok:
  assumes "fixed_ok B s" and "\<not> has s Connected" and "fresh a s"
    and "open_fds s = B \<union> {srv_netlink s, fdpipe_r s, fdpipe_w s}"
  shows "link_ok B (snd (snd (fritz_connect a s)))"
proof -
  have i: "has s Initialized" using assms(1) by (simp add: fixed_ok_def)
  have f: "- 1 \<le> new_sock a"
    "0 \<le> new_sock a \<longrightarrow> new_sock a \<notin> B \<union> {srv_netlink s, fdpipe_r s, fdpipe_w s}"
    using assms(3,4) by (simp_all add: fresh_def)
  let ?s = "s\<lparr>srv_sock := new_sock a\<rparr>"
  let ?o = "?s\<lparr>open_fds := insert (new_sock a) (open_fds s)\<rparr>"
  consider "new_sock a = - 1" | "0 \<le> new_sock a" "\<not> connect_ok a"
    | "0 \<le> new_sock a" "connect_ok a" using f(1) by linarith
  then show ?thesis
  proof cases
    case 1
    then have "snd (snd (fritz_connect a s)) = ?s" using i assms(2) by (simp add: fritz_connect_def)
    then show ?thesis using 1 assms(1,2,4) by (simp add: link_ok_def fixed_ok_def)
  next
    case 2
    then have "snd (snd (fritz_connect a s)) = close_sock ?o"
      using i assms(2) by (simp add: fritz_connect_def)
    moreover have "open_fds ?o - {new_sock a} = open_fds s" using f(2) 2 assms(4) by simp
    ultimately show ?thesis using 2 assms(1,2,4) by (simp add: link_ok_def fixed_ok_def)
  next
    case 3
    have "?o\<lparr>assoc_ifindex := assoc_ifindex s\<rparr> = ?o" by (cases s) simp
    with 3 have "\<exists>i'. snd (snd (fritz_connect a s)) = set_flag Connected (?o\<lparr>assoc_ifindex := i'\<rparr>)"
      using i assms(2)
      by (cases "found_if a") (auto simp: fritz_connect_def intro: exI[of _ "assoc_ifindex s"])
    then obtain i' where
      "snd (snd (fritz_connect a s)) = set_flag Connected (?o\<lparr>assoc_ifindex := i'\<rparr>)" ..
    then show ?thesis using 3 assms(1,4) f by (simp add: link_ok_def fixed_ok_def insert_commute)
  qed
qed

lemma connect_kept: "has s Initialized \<Longrightarrow> has s Connected \<Longrightarrow> fritz_connect a s = (0, True, s)"
  by (simp add: fritz_connect_def)

lemma link_ok_initialized: "link_ok B s \<Longrightarrow> has s Initialized"
  by (simp add: link_ok_def fixed_ok_def)

lemma link_ok_connect:
  assumes "link_ok B s" and "fresh a s"
  shows "link_ok B (snd (snd (fritz_connect a s)))"
proof (cases "has s Connected")
  case True
  then show ?thesis
    using assms(1) connect_kept[OF link_ok_initialized[OF assms(1)], of a] by simp
next
  case False
  then show ?thesis
    by (intro connect_link_ok) (use assms in \<open>auto simp: link_ok_def\<close>)
qed

lemma link_ok_fields:
  "link_ok B (s\<lparr>timers := n\<rparr>) = link_ok B s" "link_ok B (s\<lparr>pipe := p\<rparr>) = link_ok B s"
  "link_ok B (s\<lparr>thread := b\<rparr>) = link_ok B s"
  "link_ok B (set_flag Listening s) = link_ok B s" "link_ok B (clear_flag Listening s) = link_ok B s"
  by (simp_all add: link_ok_def fixed_ok_def)

lemma link_ok_try_connect: "link_ok B s \<Longrightarrow> fresh a s \<Longrightarrow> link_ok B (fritz_try_connect a s)"
  using link_ok_connect[of B s a]
  by (auto simp: fritz_try_connect_def link_ok_fields split: prod.splits)

lemma link_ok_fire_timer: "link_ok B s \<Longrightarrow> fresh a s \<Longrightarrow> link_ok B (fire_timer a s)"
  using link_ok_connect[of B s a]
  by (auto simp: fire_timer_def fritz_try_reconnect_def Let_def link_ok_fields split: prod.splits)

lemma link_ok_close: "link_ok B s \<Longrightarrow> link_ok B (close_sock (clear_flag Connected s))"
  by (auto simp: link_ok_def fixed_ok_def)

lemma close_clear: "close_sock (clear_flag f s) = clear_flag f (close_sock s)"
  by (simp add: close_sock_def clear_flag_def netutil_close_fd_def)

lemma link_ok_net_down: "link_ok B s \<Longrightarrow> link_ok B (fritz_handle_net_down i s)"
  using link_ok_close[of B s] by (simp add: fritz_handle_net_down_def close_clear)

lemma link_ok_handle_links: "link_ok B s \<Longrightarrow> links_fresh es s \<Longrightarrow> link_ok B (handle_links es s)"
  by (induction es s rule: handle_links.induct)
     (simp_all add: fritz_handle_net_up_def link_ok_try_connect link_ok_net_down)

lemma link_ok_turn:
  assumes "link_ok B s" and "turn_fresh t s" and "listen_turn t s = (out, stop, s')"
  shows "link_ok B s'"
proof -
  have 1: "link_ok B (snd (turn_sock t s))"
    using assms(1) link_ok_close by (simp add: turn_sock_def)
  then have 2: "link_ok B (snd (turn_pipe t (snd (turn_sock t s))))"
    by (simp add: turn_pipe_def Let_def link_ok_fields)
  then have "link_ok B (turn_links t (snd (turn_pipe t (snd (turn_sock t s)))))"
    using assms(2) link_ok_handle_links by (simp add: turn_links_def turn_fresh_def)
  then show ?thesis
    using assms(1,3) 2 by (auto simp: listen_turn_def link_ok_fields split: if_splits prod.splits)
qed

section \<open>Interleavings\<close>

text \<open>
  What can happen between startup and shutdown: the main loop fires a timer, the thread
  starts, the thread makes a turn, the main thread asks for the shutdown. The structure is
  not locked in the code; each of these is taken as one step.
\<close>

inductive link_step :: "fritz_server \<Rightarrow> fritz_server \<Rightarrow> bool" where
  timer: "0 < timers s \<Longrightarrow> fresh a s \<Longrightarrow> link_step s (fire_timer a s)"
| start: "thread s \<Longrightarrow> link_step s (thread_start s)"
| turn: "thread s \<Longrightarrow> turn_fresh t s \<Longrightarrow> listen_turn t s = (out, stop, s') \<Longrightarrow> link_step s s'"
| quit: "link_step s (shutdown_request s)"

inductive_cases link_stepE: "link_step s s'"

lemma link_step_ok: "link_step s s' \<Longrightarrow> link_ok B s \<Longrightarrow> link_ok B s'"
  by (induction rule: link_step.induct)
     (auto simp: link_ok_fire_timer thread_start_def link_ok_fields shutdown_request_def
       intro: link_ok_turn)

lemma link_steps_ok: "link_step\<^sup>*\<^sup>* s s' \<Longrightarrow> link_ok B s \<Longrightarrow> link_ok B s'"
  by (induction rule: rtranclp_induct) (auto intro: link_step_ok)

text \<open>The start of the program: \<open>B\<close> is open, then init and startup.\<close>

lemma init_fixed:
  assumes "fritz_init host port nl (Some (r, w)) s = (0, s')" and "open_fds s = B"
    and "0 \<le> nl" "0 \<le> r" "0 \<le> w" and "{nl, r, w} \<inter> B = {}"
  shows "fixed_ok B s' \<and> \<not> has s' Connected \<and> srv_sock s' = 0 \<and>
    open_fds s' = B \<union> {srv_netlink s', fdpipe_r s', fdpipe_w s'}"
  using assms
  by (auto simp: fritz_init_def Let_def fixed_ok_def has_def set_flag_def split: option.splits if_splits)

lemma startup_link_ok:
  assumes "fixed_ok B s" and "\<not> has s Connected" and "fresh a s"
    and "open_fds s = B \<union> {srv_netlink s, fdpipe_r s, fdpipe_w s}"
  shows "link_ok B (snd (fritz_startup a ok s))"
  using connect_link_ok[OF assms] assms(2)
  by (auto simp: fritz_startup_def fritz_try_connect_def Let_def link_ok_fields split: prod.splits)

section \<open>Properties\<close>


definition no_server :: fritz_server where
  "no_server = \<lparr>srv_host = None, srv_port = 0, srv_state = 0, srv_sock = 0, srv_netlink = 0,
     assoc_ifindex = 0, fdpipe_r = 0, fdpipe_w = 0, thread = False, open_fds = {0, 1, 2}, timers = 0,
     pipe = []\<rparr>"

definition good_attempt :: attempt where
  "good_attempt = \<lparr>new_sock = 6, connect_ok = True, found_if = Some 2\<rparr>"

definition initialized :: fritz_server where
  "initialized = snd (fritz_init (Some ''fritz.box'') 1012 3 (Some (4, 5)) no_server)"

definition running :: fritz_server where
  "running = snd (fritz_startup good_attempt True initialized)"

lemma initialized_fields [simp]:
  "has initialized Initialized" "\<not> has initialized Connected" "timers initialized = 0"
  "pipe initialized = []" "fdpipe_r initialized = 4" "open_fds initialized = {0, 1, 2, 3, 4, 5}"
  by (simp_all add: initialized_def fritz_init_def no_server_def)
     (auto simp: has_def set_flag_def)


section \<open>Startup, retries and shutdown\<close>

text \<open>Steps without a report that a network interface came up.\<close>

primrec is_NetUp :: "link_event \<Rightarrow> bool" where
  "is_NetUp (NetUp i name) = True"
| "is_NetUp (NetDown i name) = False"

definition no_up :: "turn \<Rightarrow> bool" where
  "no_up t = list_all (\<lambda>(e, a). \<not> is_NetUp e) (links t)"

inductive quiet_step :: "fritz_server \<Rightarrow> fritz_server \<Rightarrow> bool" where
  timer: "0 < timers s \<Longrightarrow> quiet_step s (fire_timer a s)"
| start: "thread s \<Longrightarrow> quiet_step s (thread_start s)"
| turn: "thread s \<Longrightarrow> no_up t \<Longrightarrow> listen_turn t s = (out, stop, s') \<Longrightarrow> quiet_step s s'"
| quit: "quiet_step s (shutdown_request s)"

definition stranded :: "fritz_server \<Rightarrow> bool" where
  "stranded s \<longleftrightarrow> \<not> has s Connected \<and> timers s = 0"

lemma stranded_fields [simp]:
  "stranded (s\<lparr>pipe := p\<rparr>) = stranded s" "stranded (s\<lparr>thread := b\<rparr>) = stranded s"
  "stranded (set_flag Listening s) = stranded s" "stranded (clear_flag Listening s) = stranded s"
  "stranded (close_sock s) = stranded s" "stranded s \<Longrightarrow> stranded (clear_flag Connected s)"
  by (simp_all add: stranded_def)

lemma stranded_links:
  "stranded s \<Longrightarrow> list_all (\<lambda>(e, a). \<not> is_NetUp e) es \<Longrightarrow> stranded (handle_links es s)"
  by (induction es s rule: handle_links.induct) (simp_all add: fritz_handle_net_down_def)

lemma stranded_turn:
  assumes "stranded s" and "no_up t" and "listen_turn t s = (out, stop, s')"
  shows "stranded s'"
proof -
  have 1: "stranded (snd (turn_sock t s))" using assms(1) by (simp add: turn_sock_def)
  then have 2: "stranded (snd (turn_pipe t (snd (turn_sock t s))))"
    by (simp add: turn_pipe_def Let_def)
  then have "stranded (turn_links t (snd (turn_pipe t (snd (turn_sock t s)))))"
    using assms(2) stranded_links by (simp add: turn_links_def no_up_def)
  then show ?thesis
    using assms(1,3) 2 by (auto simp: listen_turn_def split: if_splits prod.splits)
qed

lemma stranded_step: "quiet_step s s' \<Longrightarrow> stranded s \<Longrightarrow> stranded s'"
  by (induction rule: quiet_step.induct)
     (simp_all add: stranded_turn thread_start_def shutdown_request_def, simp add: stranded_def)

lemma stranded_steps: "quiet_step\<^sup>*\<^sup>* s s' \<Longrightarrow> stranded s \<Longrightarrow> stranded s'"
  by (induction rule: rtranclp_induct) (auto intro: stranded_step)

lemma connect_True_iff: 
  "fritz_connect a s = (rc, c, s') \<Longrightarrow> has s Initialized \<Longrightarrow> c = has s' Connected"
  by (auto simp: fritz_connect_def Let_def split: if_splits option.splits)

text \<open>
  C36: A connection that was made at once at the startup leaves no retry timer. When it is lost
  (the socket is ready and \<open>recv\<close> delivers nothing) the log says "trying to reconnect", but
  nothing is scheduled: the link stays disconnected through every later sequence of steps in
  which no interface is reported to have come up.
\<close>

theorem lost_connection_not_retried:
  assumes "timers s = 0" and "0 \<le> sel t" and "isset t (srv_sock s)" and "rcv t = []" and "no_up t"
    and "listen_turn t s = (out, stop, s1)" and "quiet_step\<^sup>*\<^sup>* s1 s2"
  shows "out = [] \<and> \<not> has s2 Connected \<and> timers s2 = 0"
proof -
  have ts: "turn_sock t s = ([], close_sock (clear_flag Connected s))"
    using assms(3,4) by (simp add: turn_sock_def)
  have "stranded (close_sock (clear_flag Connected s))" using assms(1) by (simp add: stranded_def)
  then have 2: "stranded (snd (turn_pipe t (close_sock (clear_flag Connected s))))"
    by (simp add: turn_pipe_def Let_def)
  then have "stranded (turn_links t (snd (turn_pipe t (close_sock (clear_flag Connected s)))))"
    using assms(5) stranded_links by (simp add: turn_links_def no_up_def)
  then have "out = [] \<and> stranded s1"
    using assms(2,6) 2 ts by (auto simp: listen_turn_def split: if_splits prod.splits)
  then show ?thesis using stranded_steps[OF assms(7)] by (simp add: stranded_def)
qed

definition hangup :: turn where
  "hangup = \<lparr>sel = 1, isset = (\<lambda>fd. fd = 6), rcv = [], piped = [], links = []\<rparr>"

theorem lost_connection_not_retried_witness:
  "fst (listen_turn hangup running) = [] \<and>
    \<not> has (snd (snd (listen_turn hangup running))) Connected \<and>
    timers (snd (snd (listen_turn hangup running))) = 0"
  by (rule lost_connection_not_retried[where s = running and t = hangup
        and stop = "fst (snd (listen_turn hangup running))" and ?s1.0 = "snd (snd (listen_turn hangup running))"])
     (simp_all add: hangup_def no_up_def running_def fritz_startup_def fritz_try_connect_def
        fritz_connect_def good_attempt_def)

definition fails :: "attempt \<Rightarrow> bool" where
  "fails a \<longleftrightarrow> new_sock a = - 1 \<or> \<not> connect_ok a"

definition waiting :: "nat \<Rightarrow> string \<Rightarrow> fritz_server \<Rightarrow> bool" where
  "waiting n p s \<longleftrightarrow> has s Initialized \<and> \<not> has s Connected \<and> timers s = n \<and> pipe s = p"

lemma failed_connect:
  assumes "has s Initialized" and "\<not> has s Connected" and "fails a"
  shows "\<exists>rc s'. fritz_connect a s = (rc, False, s') \<and> waiting (timers s) (pipe s) s'"
  using assms by (auto simp: fritz_connect_def fails_def waiting_def Let_def)

lemma good_connect:
  assumes "has s Initialized" and "\<not> has s Connected" and "0 \<le> new_sock a" and "connect_ok a"
  shows "\<exists>s'. fritz_connect a s = (0, True, s') \<and> has s' Connected \<and> srv_sock s' = new_sock a \<and>
    timers s' = timers s \<and> pipe s' = pipe s"
  using assms by (auto simp: fritz_connect_def Let_def split: option.splits)

lemma waiting_fire: "waiting n p s \<Longrightarrow> fails a \<Longrightarrow> waiting n p (fire_timer a s)"
  using failed_connect[of s a]
  by (auto simp: fire_timer_def fritz_try_reconnect_def Let_def) (auto simp: waiting_def)

lemma waiting_fires: "waiting n p s \<Longrightarrow> list_all fails as \<Longrightarrow> waiting n p (fold fire_timer as s)"
  by (induction as arbitrary: s) (simp_all add: waiting_fire)

lemma waiting_startup:
  assumes "has s Initialized" and "\<not> has s Connected" and "fails a"
  shows "waiting (Suc (timers s)) (pipe s) (snd (fritz_startup a ok s))"
  using failed_connect[OF assms] assms(2)
  by (auto simp: fritz_startup_def fritz_try_connect_def waiting_def Let_def)

text \<open>
  C24: When the call monitor cannot be reached at the startup, the attempts go on with the timer
  until one succeeds, however many fail. The successful one sets the connected state, writes
  "add sock" into the pipe to wake the listening thread, and removes the timer.
\<close>

theorem startup_retries_until_connected:
  assumes "has s Initialized" and "\<not> has s Connected" and "fails a" and "list_all fails as"
    and "0 \<le> new_sock g" and "connect_ok g"
  shows "has (fold fire_timer as (snd (fritz_startup a ok s))) Connected = False \<and>
    has (fire_timer g (fold fire_timer as (snd (fritz_startup a ok s)))) Connected \<and>
    srv_sock (fire_timer g (fold fire_timer as (snd (fritz_startup a ok s)))) = new_sock g \<and>
    timers (fire_timer g (fold fire_timer as (snd (fritz_startup a ok s)))) = timers s \<and>
    pipe (fire_timer g (fold fire_timer as (snd (fritz_startup a ok s)))) = pipe s @ ''add sock''"
proof -
  let ?s = "fold fire_timer as (snd (fritz_startup a ok s))"
  have w: "waiting (Suc (timers s)) (pipe s) ?s"
    using waiting_fires[OF waiting_startup[OF assms(1-3)] assms(4)] .
  then obtain s' where "fritz_connect g ?s = (0, True, s')" "has s' Connected"
    "srv_sock s' = new_sock g" "timers s' = Suc (timers s)" "pipe s' = pipe s"
    using good_connect[of ?s g] assms(5,6) by (auto simp: waiting_def)
  then show ?thesis using w by (simp add: fire_timer_def fritz_try_reconnect_def waiting_def)
qed

definition bad_attempt :: attempt where
  "bad_attempt = \<lparr>new_sock = 6, connect_ok = False, found_if = None\<rparr>"

theorem startup_retries_until_connected_witness:
  "has (fold fire_timer [bad_attempt] (snd (fritz_startup bad_attempt True initialized))) Connected = False \<and>
    has (fire_timer good_attempt (fold fire_timer [bad_attempt] (snd (fritz_startup bad_attempt True initialized)))) Connected \<and>
    srv_sock (fire_timer good_attempt (fold fire_timer [bad_attempt] (snd (fritz_startup bad_attempt True initialized)))) = new_sock good_attempt \<and>
    timers (fire_timer good_attempt (fold fire_timer [bad_attempt] (snd (fritz_startup bad_attempt True initialized)))) = timers initialized \<and>
    pipe (fire_timer good_attempt (fold fire_timer [bad_attempt] (snd (fritz_startup bad_attempt True initialized)))) = pipe initialized @ ''add sock''"
  by (rule startup_retries_until_connected)
     (simp_all add: fails_def bad_attempt_def good_attempt_def)

text \<open>
  The request to stop, "disconnect" behind \<open>n\<close> messages "add sock" that no turn has taken
  from the pipe yet: the next turn, which reads all that is there, ends the thread exactly
  when there is no such message. Otherwise the request is swallowed with them: the pipe is
  empty, the thread goes on, and \<open>g_thread_join\<close> in \<open>fritz_shutdown\<close> waits for it.
\<close>

theorem shutdown_stops_iff:
  assumes "pipe s = concat (replicate n ''add sock'') @ ''disconnect''" and "8 * n + 10 \<le> 1023"
    and "0 \<le> sel t" and "isset t (fdpipe_r s)" and "piped t = take 1023 (pipe s)"
    and "listen_turn t s = (out, stop, s')"
    and "links t = []"
  shows "stop = (n = 0) \<and> pipe s' = [] \<and> thread s' = (thread s \<and> n \<noteq> 0)"
proof -
  have l: "length (pipe s) = 8 * n + 10" by (simp add: assms(1) length_concat sum_list_replicate)
  have p: "piped t = pipe s" using assms(2,5) l by simp
  have d: "is_disconnect (pipe s) = (n = 0)"
    by (cases n) (simp_all add: is_disconnect_def assms(1))
  obtain o' s1 where t: "turn_sock t s = (o', s1)" by fastforce
  have s1: "fdpipe_r s1 = fdpipe_r s" "pipe s1 = pipe s" "thread s1 = thread s"
    using t by (auto simp: turn_sock_def split: if_splits)
  have ne: "pipe s \<noteq> []" using l by auto
  show ?thesis
    using assms(3,4,6,7) t s1 p d ne
    by (auto simp: listen_turn_def turn_pipe_def turn_links_def Let_def split: if_splits)
qed

definition merged :: turn where
  "merged = \<lparr>sel = 1, isset = (\<lambda>fd. fd = 4), rcv = [], piped = ''add sockdisconnect'', links = []\<rparr>"

definition reconnected :: fritz_server where
  "reconnected = shutdown_request (fire_timer good_attempt (snd (fritz_startup bad_attempt True initialized)))"

theorem shutdown_stops_iff_witness:
  "fst (snd (listen_turn merged reconnected)) = (1 = (0 :: nat)) \<and>
    pipe (snd (snd (listen_turn merged reconnected))) = [] \<and>
    thread (snd (snd (listen_turn merged reconnected))) = (thread reconnected \<and> 1 \<noteq> (0 :: nat))"
  by (rule shutdown_stops_iff[where s = reconnected and t = merged and n = 1
        and out = "fst (listen_turn merged reconnected)"])
     (simp_all add: reconnected_def shutdown_request_def fire_timer_def fritz_try_reconnect_def
        fritz_connect_def fritz_startup_def fritz_try_connect_def
        bad_attempt_def good_attempt_def merged_def)

lemma connected_state: "bit (w :: u16) 1 \<Longrightarrow> Connected \<le> w"
proof -
  assume "bit w 1"
  then have "w AND 2 \<noteq> 0" using flag_bits(2)[of w] by simp
  moreover have "w AND 2 \<le> w" by (simp add: word_and_le2)
  moreover have "w AND 2 = 0 \<or> w AND 2 = 2"
    by (rule disjI2, rule bit_eqI) (use \<open>bit w 1\<close> in \<open>auto simp: bit_simps\<close>)
  ultimately show ?thesis by simp
qed

lemma link_ok_shutdown:
  assumes "link_ok B s" and "link_step\<^sup>*\<^sup>* (shutdown_request s) (joined (shutdown_request s))"
  shows "link_ok B (fritz_shutdown joined s) \<and> \<not> has (fritz_shutdown joined s) Connected"
proof -
  let ?s = "if has s Listening
    then clear_flag Listening ((joined (shutdown_request s))\<lparr>thread := False\<rparr>) else s"
  have "link_ok B (shutdown_request s)" using assms(1) by (simp add: shutdown_request_def link_ok_fields)
  then have 1: "link_ok B ?s" using link_steps_ok[OF assms(2)] assms(1) by (simp add: link_ok_fields)
  obtain u where u: "u = ?s" by simp
  then have "fritz_shutdown joined s = (if has u Connected then close_sock (clear_flag Connected u) else u)"
    by (simp add: fritz_shutdown_def Let_def close_clear)
  then show ?thesis using link_ok_close[of B u] 1 u by (cases "has u Connected") simp_all
qed

lemma cleanup_closes:
  assumes "link_ok B s" and "\<not> has s Connected"
    and "r = netutil_close_fd (fdpipe_r s)" and "w = netutil_close_fd (fdpipe_w s)"
  shows "open_fds s - set (snd r) - set (snd w) - set (netutil_cleanup (srv_netlink s)) = B"
proof -
  have "0 \<le> fdpipe_r s" "0 \<le> fdpipe_w s" "0 \<le> srv_netlink s"
    "B \<inter> {srv_netlink s, fdpipe_r s, fdpipe_w s} = {}"
    "open_fds s = B \<union> {srv_netlink s, fdpipe_r s, fdpipe_w s}"
    using assms(1,2) by (auto simp: link_ok_def fixed_ok_def)
  then show ?thesis using assms(3,4) by (auto simp: netutil_close_fd_def netutil_cleanup_def)
qed

text \<open>
  When the program ends, the clean-up closes the socket, the pipe and the netlink socket: what
  stays open are the descriptors of the rest of the program. This is for every state that
  startup and the steps after it reach, in all of which the listening thread, if it runs, is joined
  first and makes its own steps until it returns.
\<close>

theorem cleanup_closes_all:
  assumes "fritz_init host port nl (Some (r, w)) s0 = (0, s1)" and "open_fds s0 = B"
    and "0 \<le> nl" and "0 \<le> r" and "0 \<le> w" and "{nl, r, w} \<inter> B = {}"
    and "fresh a s1" and "fritz_startup a ok s1 = (rc, s2)" and "link_step\<^sup>*\<^sup>* s2 s"
    and "link_step\<^sup>*\<^sup>* (shutdown_request s) (joined (shutdown_request s))"
  shows "open_fds (fritz_cleanup joined s) = B \<and> \<not> has (fritz_cleanup joined s) Connected \<and>
    srv_host (fritz_cleanup joined s) = None"
proof -
  have "link_ok B s2"
    using startup_link_ok[of B s1 a ok] init_fixed[OF assms(1-6)] assms(7,8) by simp
  then have s: "link_ok B s" by (rule link_steps_ok[OF assms(9)])
  obtain u where u: "u = (if Connected \<le> srv_state s then fritz_shutdown joined s else s)" by simp
  have "\<not> Connected \<le> srv_state s \<Longrightarrow> \<not> has s Connected"
    using connected_state[of "srv_state s"] flag_bits(2)[of "srv_state s"] by (auto simp: has_def)
  then have "link_ok B u" "\<not> has u Connected" using u s link_ok_shutdown[where joined = joined, OF s assms(10)] by auto
  note c = cleanup_closes[OF this refl refl]
  have "fritz_cleanup joined s = u\<lparr>fdpipe_r := fst (netutil_close_fd (fdpipe_r u)),
      fdpipe_w := fst (netutil_close_fd (fdpipe_w u)), open_fds := B, srv_host := None\<rparr>"
    using u c by (simp add: fritz_cleanup_def Let_def case_prod_beta)
  then show ?thesis using \<open>\<not> has u Connected\<close> by (simp add: has_def)
qed

definition joins :: "fritz_server \<Rightarrow> fritz_server" where
  "joins s = snd (snd (listen_turn \<lparr>sel = 1, isset = (\<lambda>fd. fd = 4), rcv = [], piped = ''disconnect'',
     links = []\<rparr> s))"

theorem cleanup_closes_all_witness:
  "open_fds (fritz_cleanup joins (thread_start running)) = {0, 1, 2} \<and>
    \<not> has (fritz_cleanup joins (thread_start running)) Connected \<and>
    srv_host (fritz_cleanup joins (thread_start running)) = None"
proof (rule cleanup_closes_all[where ?s0.0 = no_server and nl = 3 and r = 4 and w = 5
      and host = "Some ''fritz.box''" and port = 1012 and a = good_attempt and ok = True and rc = 0
      and ?s2.0 = running and ?s1.0 = initialized])
  show "link_step\<^sup>*\<^sup>* running (thread_start running)"
    by (rule r_into_rtranclp, rule link_step.start)
       (simp add: running_def fritz_startup_def)
  let ?t = "\<lparr>sel = 1, isset = (\<lambda>fd. fd = 4), rcv = [], piped = ''disconnect'', links = []\<rparr>"
  let ?s = "shutdown_request (thread_start running)"
  obtain out stop s' where t: "listen_turn ?t ?s = (out, stop, s')" using prod_cases3 by blast
  have "thread ?s" by (simp add: shutdown_request_def thread_start_def running_def fritz_startup_def)
  moreover have "turn_fresh ?t ?s" by (simp add: turn_fresh_def)
  ultimately show "link_step\<^sup>*\<^sup>* ?s (joins ?s)"
    using link_step.turn[OF _ _ t] t by (auto simp: joins_def)
qed (auto simp: fresh_def good_attempt_def running_def fritz_startup_def initialized_def fritz_init_def
      no_server_def set_flag_def)

end
