(* ===== verification/CIData.thy ===== *)
theory CIData
  imports CText
begin

text \<open>
  The two structures of \<open>CIData.h\<close> that the components hand to each other: a call and a
  caller. Every field is a char array of fixed length; the well-formedness predicates state these
  lengths and that each array holds a string.
\<close>

record CIDataSet =
  cidsNumber :: "char list"
  cidsNumberComplete :: "char list"
  cidsName :: "char list"
  cidsDate :: "char list"
  cidsTime :: "char list"
  cidsMSN :: "char list"
  cidsAlias :: "char list"
  cidsService :: "char list"
  cidsFix :: "char list"
  cidsArea :: "char list"
  cidsAreaCode :: "char list"

record CICaller =
  NumberComplete :: "char list"
  Name :: "char list"
  Number :: "char list"
  AreaCode :: "char list"
  PostalCode :: "char list"
  Street :: "char list"
  City :: "char list"

text \<open>\<open>memset\<close> and \<open>g_malloc0\<close>.\<close>

definition zero_dataset :: CIDataSet where
  "zero_dataset = \<lparr>cidsNumber = replicate 32 NUL, cidsNumberComplete = replicate 32 NUL,
     cidsName = replicate 256 NUL, cidsDate = replicate 16 NUL, cidsTime = replicate 16 NUL,
     cidsMSN = replicate 16 NUL, cidsAlias = replicate 256 NUL, cidsService = replicate 256 NUL,
     cidsFix = replicate 256 NUL, cidsArea = replicate 256 NUL, cidsAreaCode = replicate 16 NUL\<rparr>"

definition zero_caller :: CICaller where
  "zero_caller = \<lparr>NumberComplete = replicate 32 NUL, Name = replicate 256 NUL,
     Number = replicate 32 NUL, AreaCode = replicate 16 NUL, PostalCode = replicate 8 NUL,
     Street = replicate 256 NUL, City = replicate 256 NUL\<rparr>"

definition text_in :: "nat \<Rightarrow> char list \<Rightarrow> bool" where
  "text_in n a \<longleftrightarrow> length a = n \<and> NUL \<in> set a"

definition dataset_ok :: "CIDataSet \<Rightarrow> bool" where
  "dataset_ok d \<longleftrightarrow> text_in 32 (cidsNumber d) \<and> text_in 32 (cidsNumberComplete d) \<and>
     text_in 256 (cidsName d) \<and> text_in 16 (cidsDate d) \<and> text_in 16 (cidsTime d) \<and>
     text_in 16 (cidsMSN d) \<and> text_in 256 (cidsAlias d) \<and> text_in 256 (cidsService d) \<and>
     text_in 256 (cidsFix d) \<and> text_in 256 (cidsArea d) \<and> text_in 16 (cidsAreaCode d)"

definition caller_ok :: "CICaller \<Rightarrow> bool" where
  "caller_ok c \<longleftrightarrow> text_in 32 (NumberComplete c) \<and> text_in 256 (Name c) \<and>
     text_in 32 (Number c) \<and> text_in 16 (AreaCode c) \<and> text_in 8 (PostalCode c) \<and>
     text_in 256 (Street c) \<and> text_in 256 (City c)"

lemma zero_ok: "dataset_ok zero_dataset" "caller_ok zero_caller"
  by (simp_all add: zero_dataset_def zero_caller_def dataset_ok_def caller_ok_def text_in_def)

lemma text_in_cstr: "text_in n a \<Longrightarrow> \<exists>s. cstr a = Some s \<and> length s < n \<and> NUL \<notin> set s"
proof -
  assume t: "text_in n a"
  then obtain s where s: "cstr a = Some s" by (auto simp: text_in_def cstr_def)
  then obtain xs where "a = s @ NUL # xs" "NUL \<notin> set s" by (auto simp: cstr_Some_iff)
  then show ?thesis using s t by (auto simp: text_in_def)
qed

lemma text_in_strcpy:
  "text_in n a \<Longrightarrow> length s < n \<Longrightarrow> NUL \<notin> set s \<Longrightarrow> \<exists>b. strcpy a s = Some b \<and> text_in n b \<and> cstr b = Some s"
  by (auto simp: strcpy_Some_iff text_in_def)

lemma text_in_strlcpy:
  "text_in n a \<Longrightarrow> 0 < k \<Longrightarrow> k \<le> n \<Longrightarrow> NUL \<notin> set s \<Longrightarrow>
     \<exists>b. strlcpy a s k = Some b \<and> text_in n b \<and> cstr b = Some (take (k - 1) s)"
  using strlcpy_fits[of k a s] by (auto simp: text_in_def cstr_Some_iff)

lemma cstr_no_NUL: "cstr a = Some s \<Longrightarrow> NUL \<notin> set s"
  by (simp add: cstr_Some_iff)

end
