(* ===== verification/Clients.thy ===== *)
theory Clients
  imports CIData NetUtils
begin

text \<open>
  The clients of the server, the first part of \<open>ci-server.c\<close>: their versions, the list that is
  guarded by \<open>clist_lock\<close>, sending a message to all of them, and the start and the end of the
  server. What the system calls return is a parameter; the library cinet, which is not part of
  the program, is a parameter that turns a message, given as the values that are set in it, into
  the text that is sent. \<open>None\<close> is an undefined access or a call that never returns.
\<close>

section \<open>Versions\<close>

definition CI_MAKE_VERSION :: "u32 \<Rightarrow> u32 \<Rightarrow> u32 \<Rightarrow> u32" where
  "CI_MAKE_VERSION maj mi pat = (push_bit 16 maj OR push_bit 8 mi OR pat) AND 0x00ffffff"

definition CI_VERSION_MAJ :: "u32 \<Rightarrow> u32" where
  "CI_VERSION_MAJ ver = drop_bit 16 ver AND 0x000000ff"

definition CI_VERSION_MIN :: "u32 \<Rightarrow> u32" where
  "CI_VERSION_MIN ver = drop_bit 8 ver AND 0x000000ff"

definition CI_VERSION_PAT :: "u32 \<Rightarrow> u32" where
  "CI_VERSION_PAT ver = ver AND 0x000000ff"

definition CI_CHECK_VERSION :: "u32 \<Rightarrow> u32 \<Rightarrow> bool" where
  "CI_CHECK_VERSION ver least \<longleftrightarrow> CI_VERSION_MAJ least \<le> CI_VERSION_MAJ ver \<and>
     CI_VERSION_MIN least \<le> CI_VERSION_MIN ver \<and> CI_VERSION_PAT least \<le> CI_VERSION_PAT ver"

section \<open>State\<close>

datatype CIServerState =
    CISrvStateUninitialized
  | CISrvStateInitialized
  | CISrvStateConnected
  | CISrvStateRunning

record CIClient =
  cl_sock :: int
  cl_flags :: "64 word"
  cl_version :: u32

definition CISRV_CLIENT_REMOVE :: "64 word" where
  "CISRV_CLIENT_REMOVE = push_bit 0 1"

definition marked :: "CIClient \<Rightarrow> bool" where
  "marked c \<longleftrightarrow> cl_flags c AND CISRV_CLIENT_REMOVE \<noteq> 0"

definition mark :: "CIClient \<Rightarrow> CIClient" where
  "mark c = c\<lparr>cl_flags := cl_flags c OR CISRV_CLIENT_REMOVE\<rparr>"

text \<open>
  The fields of \<open>CIServer\<close>; then the kernel's side: the open descriptors of the process, what
  \<open>send\<close> has accepted for each socket, and the bytes in the pipe.
\<close>

record CIServer =
  cs_sock :: int
  cs_port :: u16
  cs_thread :: bool
  cs_pipe_r :: int
  cs_pipe_w :: int
  cs_state :: CIServerState
  cs_clients :: "CIClient list"
  cs_open :: "int set"
  cs_sent :: "(int \<times> string) list"
  cs_pipe :: string

definition close_fd :: "int \<Rightarrow> CIServer \<Rightarrow> CIServer" where
  "close_fd fd s = s\<lparr>cs_open := cs_open s - {fd}\<rparr>"

section \<open>The list of clients\<close>

definition cisrv_add_client :: "int \<Rightarrow> CIServer \<Rightarrow> CIServer" where
  "cisrv_add_client fd s =
     s\<lparr>cs_clients := cs_clients s @ [\<lparr>cl_sock = fd, cl_flags = 0, cl_version = CI_MAKE_VERSION 2 0 0\<rparr>]\<rparr>"

text \<open>
  What the peer of a socket does when the server shuts it down: whether \<open>shutdown\<close> succeeds, and
  what the blocking calls of \<open>recv\<close> return one after the other.
\<close>

type_synonym peers = "int \<Rightarrow> bool \<times> int list"

fun drain :: "int list \<Rightarrow> unit option" where
  "drain [] = None"
| "drain (rc # rs) = (if 0 < rc then drain rs else Some ())"

definition cisrv_shutdown_sock :: "peers \<Rightarrow> int \<Rightarrow> CIServer \<Rightarrow> CIServer option" where
  "cisrv_shutdown_sock K fd s = do {
     _ \<leftarrow> (if fst (K fd) then drain (snd (K fd)) else Some ());
     Some (close_fd fd s) }"

text \<open>The loop over the nodes of the list; a client stands for its address, which is unique.\<close>

fun remove_loop :: "peers \<Rightarrow> CIClient list \<Rightarrow> CIServer \<Rightarrow> CIServer option" where
  "remove_loop K [] s = Some s"
| "remove_loop K (c # cs) s =
     (if marked c then do {
        s \<leftarrow> cisrv_shutdown_sock K (cl_sock c) s;
        remove_loop K cs (s\<lparr>cs_clients := remove1 c (cs_clients s)\<rparr>) }
      else remove_loop K cs s)"

definition cisrv_remove_marked_clients :: "peers \<Rightarrow> CIServer \<Rightarrow> CIServer option" where
  "cisrv_remove_marked_clients K s = remove_loop K (cs_clients s) s"

fun close_loop :: "peers \<Rightarrow> CIClient list \<Rightarrow> CIServer \<Rightarrow> CIServer option" where
  "close_loop K [] s = Some s"
| "close_loop K (c # cs) s = do {
     s \<leftarrow> cisrv_shutdown_sock K (cl_sock c) s;
     close_loop K cs (s\<lparr>cs_clients := cs\<rparr>) }"

definition cisrv_close_all_clients :: "peers \<Rightarrow> CIServer \<Rightarrow> CIServer option" where
  "cisrv_close_all_clients K s = close_loop K (cs_clients s) s"

text \<open>The client of a socket, the first one; nothing in the program calls it.\<close>

definition cisrv_remove_client :: "int \<Rightarrow> CIServer \<Rightarrow> CIServer" where
  "cisrv_remove_client fd s =
     (case find (\<lambda>c. cl_sock c = fd) (cs_clients s) of
        None \<Rightarrow> s
      | Some c \<Rightarrow> (close_fd fd s)\<lparr>cs_clients := remove1 c (cs_clients s)\<rparr>)"

section \<open>Messages to all clients\<close>

datatype CIServerMsg =
    CIServerMsgMessage
  | CIServerMsgUpdate
  | CIServerMsgDisconnect
  | CIServerMsgComplete
  | CIServerMsgCall

datatype net_type =
    CI_NET_MSG_VERSION
  | CI_NET_MSG_LEAVE
  | CI_NET_MSG_SHUTDOWN
  | CI_NET_MSG_EVENT_RING
  | CI_NET_MSG_EVENT_CALL
  | CI_NET_MSG_DB_NUM_CALLS
  | CI_NET_MSG_DB_CALL_LIST
  | CI_NET_MSG_DB_GET_CALLER
  | CI_NET_MSG_DB_GET_CALLER_LIST

datatype stage = MultipartStageInit | MultipartStageUpdate | MultipartStageComplete

datatype net_value = Text "string option" | Num int | Long "64 word" | Stage stage

text \<open>A message for cinet: its type, the values set by key, and the entries of its list.\<close>

record net_out =
  out_type :: net_type
  out_values :: "(string \<times> net_value) list"
  out_list :: "(string \<times> net_value) list list"

definition set_value :: "string \<Rightarrow> net_value \<Rightarrow> net_out \<Rightarrow> net_out" where
  "set_value k v m = m\<lparr>out_values := out_values m @ [(k, v)]\<rparr>"

text \<open>\<open>a[0] ? a : NULL\<close>, and the text the pointer stands for.\<close>

definition text_value :: "char list \<Rightarrow> net_value option" where
  "text_value a = do {
     c \<leftarrow> rd a 0;
     if c = NUL then Some (Text None) else do { s \<leftarrow> cstr a; Some (Text (Some s)) } }"

fun set_texts :: "(string \<times> char list) list \<Rightarrow> net_out \<Rightarrow> net_out option" where
  "set_texts [] m = Some m"
| "set_texts ((k, a) # fs) m = do { v \<leftarrow> text_value a; set_texts fs (set_value k v m) }"

definition ring_texts :: "CIDataSet \<Rightarrow> (string \<times> char list) list" where
  "ring_texts d = [(''completenumber'', cidsNumberComplete d), (''number'', cidsNumber d),
     (''name'', cidsName d), (''date'', cidsDate d), (''time'', cidsTime d), (''msn'', cidsMSN d),
     (''alias'', cidsAlias d), (''area'', cidsArea d), (''areacode'', cidsAreaCode d)]"

definition call_texts :: "CIDataSet \<Rightarrow> (string \<times> char list) list" where
  "call_texts d = [(''completenumber'', cidsNumberComplete d), (''date'', cidsDate d),
     (''time'', cidsTime d), (''msn'', cidsMSN d), (''alias'', cidsAlias d)]"

fun stage_of :: "CIServerMsg \<Rightarrow> stage option" where
  "stage_of CIServerMsgMessage = Some MultipartStageInit"
| "stage_of CIServerMsgUpdate = Some MultipartStageUpdate"
| "stage_of CIServerMsgComplete = Some MultipartStageComplete"
| "stage_of _ = None"

text \<open>The message for cinet; \<open>Some None\<close> is the return value 1.\<close>

definition broadcast_content ::
  "CIServerMsg \<Rightarrow> CIDataSet option \<Rightarrow> char list option \<Rightarrow> net_out option option" where
  "broadcast_content ty data msgid =
     (case (data, stage_of ty) of
        (Some d, Some st) \<Rightarrow> do {
          m \<leftarrow> set_texts (ring_texts d) \<lparr>out_type = CI_NET_MSG_EVENT_RING, out_values = [], out_list = []\<rparr>;
          m \<leftarrow> (case msgid of None \<Rightarrow> Some m
                | Some i \<Rightarrow> do { t \<leftarrow> cstr i; Some (set_value ''msgid'' (Text (Some t)) m) });
          Some (Some (set_value ''stage'' (Stage st) m)) }
      | _ \<Rightarrow>
          (if data \<noteq> None \<and> ty = CIServerMsgCall
           then do {
             d \<leftarrow> data;
             m \<leftarrow> set_texts (call_texts d) \<lparr>out_type = CI_NET_MSG_EVENT_CALL, out_values = [], out_list = []\<rparr>;
             Some (Some m) }
           else if ty = CIServerMsgDisconnect
           then Some (Some \<lparr>out_type = CI_NET_MSG_SHUTDOWN, out_values = [], out_list = []\<rparr>)
           else Some None))"

text \<open>\<open>CINetMessage\<close>, the message for clients before version 3: a code and the data set as it is.\<close>

fun msg_code :: "CIServerMsg \<Rightarrow> char" where
  "msg_code CIServerMsgMessage = CHR ''m''"
| "msg_code CIServerMsgUpdate = CHR ''u''"
| "msg_code CIServerMsgDisconnect = CHR ''d''"
| "msg_code CIServerMsgComplete = CHR ''c''"
| "msg_code CIServerMsgCall = CHR ''?''"

definition dataset_bytes :: "CIDataSet \<Rightarrow> string" where
  "dataset_bytes d = cidsNumber d @ cidsNumberComplete d @ cidsName d @ cidsDate d @ cidsTime d @
     cidsMSN d @ cidsAlias d @ cidsService d @ cidsFix d @ cidsArea d @ cidsAreaCode d"

definition CINetMessage :: "CIServerMsg \<Rightarrow> CIDataSet option \<Rightarrow> string" where
  "CINetMessage ty data =
     msg_code ty # dataset_bytes (case data of None \<Rightarrow> zero_dataset | Some d \<Rightarrow> d)"

text \<open>
  What \<open>send\<close> returns on a socket: for a message of which an offset has been sent already, and the
  length that is asked for. The loop for version 3 returns whether it was left by an error and how
  much has been sent.
\<close>

type_synonym sends = "int \<Rightarrow> nat \<Rightarrow> nat \<Rightarrow> int"

function send_rest :: "(nat \<Rightarrow> nat \<Rightarrow> int) \<Rightarrow> nat \<Rightarrow> nat \<Rightarrow> bool \<times> nat" where
  "send_rest ans len w =
     (if w < len
      then (let rc = ans w (len - w) in
        if rc \<le> 0 then (True, w) else send_rest ans len (w + nat rc))
      else (False, w))"
  by pat_completeness auto

termination
  by (relation "measure (\<lambda>(ans, len, w). len - w)") auto

declare send_rest.simps [simp del]

text \<open>One client; the comparison of the old protocol is one of unsigned numbers.\<close>

definition broadcast_client ::
  "sends \<Rightarrow> CIServerMsg \<Rightarrow> string \<Rightarrow> string \<Rightarrow> CIClient \<Rightarrow> CIClient \<times> (int \<times> string) list" where
  "broadcast_client A ty msgdata cmsg c =
     (if CI_CHECK_VERSION (cl_version c) (CI_MAKE_VERSION 3 0 0)
      then (let (failed, w) = send_rest (A (cl_sock c)) (length msgdata) 0 in
        (if failed then mark c else c, [(cl_sock c, take w msgdata)]))
      else if ty \<noteq> CIServerMsgCall
      then (let rc = A (cl_sock c) 0 (length cmsg) in
        (if (word_of_int rc :: 64 word) < word_of_int (int (length cmsg)) then mark c else c,
         [(cl_sock c, take (nat rc) cmsg)]))
      else (c, []))"

text \<open>The part of the broadcast that holds the lock.\<close>

definition broadcast_send ::
  "(net_out \<Rightarrow> string) \<Rightarrow> sends \<Rightarrow> CIServerMsg \<Rightarrow> CIDataSet option \<Rightarrow> char list option \<Rightarrow> CIServer \<Rightarrow>
   (int \<times> CIServer) option" where
  "broadcast_send W A ty data msgid s = do {
     m \<leftarrow> broadcast_content ty data msgid;
     (case m of
        None \<Rightarrow> Some (1, s)
      | Some m \<Rightarrow>
          (let rs = map (broadcast_client A ty (W m) (CINetMessage ty data)) (cs_clients s) in
           Some (0, s\<lparr>cs_clients := map fst rs, cs_sent := cs_sent s @ concat (map snd rs)\<rparr>))) }"

definition cisrv_broadcast_message ::
  "(net_out \<Rightarrow> string) \<Rightarrow> sends \<Rightarrow> peers \<Rightarrow> CIServerMsg \<Rightarrow> CIDataSet option \<Rightarrow> char list option \<Rightarrow> CIServer \<Rightarrow>
   (int \<times> CIServer) option" where
  "cisrv_broadcast_message W A K ty data msgid s = do {
     (rc, s) \<leftarrow> broadcast_send W A ty data msgid s;
     if rc \<noteq> 0 then Some (rc, s)
     else do { s \<leftarrow> cisrv_remove_marked_clients K s; Some (0, s) } }"

section \<open>Start and end of the server\<close>

text \<open>\<open>fd\<close> is what \<open>socket\<close> returns, \<open>pp\<close> the descriptors of \<open>pipe\<close> unless it fails.\<close>

definition cisrv_init :: "int \<Rightarrow> CIServer \<Rightarrow> int \<times> CIServer" where
  "cisrv_init fd s =
    (let s = s\<lparr>cs_sock := fd, cs_port := 0, cs_thread := False, cs_pipe_r := 0, cs_pipe_w := 0,
               cs_state := CISrvStateUninitialized, cs_clients := []\<rparr> in
     if fd = - 1 then (1, s)
     else (0, s\<lparr>cs_open := insert fd (cs_open s), cs_state := CISrvStateInitialized\<rparr>))"

definition cisrv_run :: "u16 \<Rightarrow> (int \<times> int) option \<Rightarrow> bool \<Rightarrow> CIServer \<Rightarrow> int \<times> CIServer" where
  "cisrv_run port pp thread_ok s =
    (if cs_state s = CISrvStateUninitialized then (1, s)
     else if cs_state s = CISrvStateRunning then (2, s)
     else (case pp of
         None \<Rightarrow> (3, s)
       | Some (r, w) \<Rightarrow>
           let s = s\<lparr>cs_pipe_r := r, cs_pipe_w := w, cs_open := {r, w} \<union> cs_open s, cs_port := port,
                     cs_thread := thread_ok\<rparr> in
           if thread_ok then (0, s\<lparr>cs_state := CISrvStateRunning\<rparr>) else (4, s)))"

text \<open>\<open>join\<close> is what the listening thread still does until it has ended.\<close>

definition cisrv_disconnect ::
  "(net_out \<Rightarrow> string) \<Rightarrow> sends \<Rightarrow> peers \<Rightarrow> (CIServer \<Rightarrow> CIServer option) \<Rightarrow> CIServer \<Rightarrow> CIServer option" where
  "cisrv_disconnect W A K join s = do {
     s \<leftarrow> (if cs_state s = CISrvStateRunning
           then do {
             let s = s\<lparr>cs_pipe := cs_pipe s @ ''disconnect''\<rparr> in do {
             s \<leftarrow> (if cs_thread s then do { s \<leftarrow> join s; Some (s\<lparr>cs_thread := False\<rparr>) } else Some s);
             Some ((close_fd (cs_pipe_w s) (close_fd (cs_pipe_r s) s))\<lparr>cs_state := CISrvStateConnected\<rparr>) } }
           else Some s);
     s \<leftarrow> (if cs_state s = CISrvStateConnected
           then do {
             (rc, s) \<leftarrow> cisrv_broadcast_message W A K CIServerMsgDisconnect None None s;
             Some (s\<lparr>cs_state := CISrvStateInitialized\<rparr>) }
           else Some s);
     if cs_state s \<noteq> CISrvStateUninitialized
     then do {
       s \<leftarrow> cisrv_close_all_clients K (s\<lparr>cs_state := CISrvStateInitialized\<rparr>);
       Some ((close_fd (cs_sock s) s)\<lparr>cs_sock := - 1\<rparr>) }
     else Some s }"

section \<open>Versions in their order\<close>

datatype version = Version (v_major: byte) (v_minor: byte) (v_patch: byte)

instantiation version :: linorder
begin

definition less_eq_version :: "version \<Rightarrow> version \<Rightarrow> bool" where
  "v \<le> w \<longleftrightarrow> v_major v < v_major w \<or> v_major v = v_major w \<and>
     (v_minor v < v_minor w \<or> v_minor v = v_minor w \<and> v_patch v \<le> v_patch w)"

definition less_version :: "version \<Rightarrow> version \<Rightarrow> bool" where
  "(v :: version) < w \<longleftrightarrow> v \<le> w \<and> \<not> w \<le> v"

instance
  by standard (auto simp: less_eq_version_def less_version_def intro: version.expand)

end

text \<open>The number for a version.\<close>

fun version_number :: "version \<Rightarrow> u32" where
  "version_number (Version a b c) = CI_MAKE_VERSION (ucast a) (ucast b) (ucast c)"

lemma version_fields:
  "CI_VERSION_MAJ (version_number v) = ucast (v_major v)"
  "CI_VERSION_MIN (version_number v) = ucast (v_minor v)"
  "CI_VERSION_PAT (version_number v) = ucast (v_patch v)"
proof -
  obtain a b c where v: "v = Version a b c" by (cases v)
  have m: "(0x00ffffff :: u32) = mask 24" "(0x000000ff :: u32) = mask 8" by (simp_all add: mask_eq_exp_minus_1)
  show "CI_VERSION_MAJ (version_number v) = ucast (v_major v)"
    unfolding v version_number.simps CI_MAKE_VERSION_def CI_VERSION_MAJ_def m
    by (rule bit_word_eqI) (auto simp: bit_simps dest: bit_imp_le_length)
  show "CI_VERSION_MIN (version_number v) = ucast (v_minor v)"
    unfolding v version_number.simps CI_MAKE_VERSION_def CI_VERSION_MIN_def m
    by (rule bit_word_eqI) (auto simp: bit_simps dest: bit_imp_le_length)
  show "CI_VERSION_PAT (version_number v) = ucast (v_patch v)"
    unfolding v version_number.simps CI_MAKE_VERSION_def CI_VERSION_PAT_def m
    by (rule bit_word_eqI) (auto simp: bit_simps dest: bit_imp_le_length)
qed

lemma ucast_le: "(ucast (a :: byte) :: u32) \<le> ucast b \<longleftrightarrow> a \<le> b"
  by transfer (simp add: take_bit_take_bit)

lemma check_version:
  "CI_CHECK_VERSION (version_number v) (version_number m) \<longleftrightarrow>
     v_major m \<le> v_major v \<and> v_minor m \<le> v_minor v \<and> v_patch m \<le> v_patch v"
  by (simp add: CI_CHECK_VERSION_def version_fields ucast_le)

section \<open>Removing clients\<close>

text \<open>The peer of a socket closes its side, or \<open>shutdown\<close> fails.\<close>

definition peer_ends :: "peers \<Rightarrow> int \<Rightarrow> bool" where
  "peer_ends K fd \<longleftrightarrow> (fst (K fd) \<longrightarrow> list_ex (\<lambda>rc. rc \<le> 0) (snd (K fd)))"

lemma drain_ends: "drain rs = (if list_ex (\<lambda>rc. rc \<le> 0) rs then Some () else None)"
  by (induction rs) auto

lemma shutdown_sock: "cisrv_shutdown_sock K fd s = (if peer_ends K fd then Some (close_fd fd s) else None)"
  by (auto simp: cisrv_shutdown_sock_def peer_ends_def drain_ends)

abbreviation socks :: "CIClient list \<Rightarrow> int set" where
  "socks cs \<equiv> cl_sock ` set cs"

lemma remove_loop_filter:
  "cs_clients s = kept @ cs \<Longrightarrow> list_all (\<lambda>c. \<not> marked c) kept \<Longrightarrow>
   remove_loop K cs s =
     (if list_all (peer_ends K) (map cl_sock (filter marked cs))
      then Some (s\<lparr>cs_clients := kept @ filter (\<lambda>c. \<not> marked c) cs,
                   cs_open := cs_open s - socks (filter marked cs)\<rparr>) else None)"
proof (induction cs arbitrary: s kept)
  case Nil
  then show ?case by simp
next
  case (Cons c cs)
  show ?case
  proof (cases "marked c")
    case True
    then have "c \<notin> set kept" using Cons.prems(2) by (auto simp: list_all_iff)
    then have "remove1 c (kept @ c # cs) = kept @ cs" by (simp add: remove1_append)
    then have "remove_loop K cs (close_fd (cl_sock c) s\<lparr>cs_clients := remove1 c (cs_clients s)\<rparr>)
      = (if list_all (peer_ends K) (map cl_sock (filter marked cs))
         then Some (close_fd (cl_sock c) s\<lparr>cs_clients := kept @ filter (\<lambda>c. \<not> marked c) cs,
                   cs_open := cs_open s - {cl_sock c} - socks (filter marked cs)\<rparr>) else None)"
      using Cons.prems Cons.IH[of "close_fd (cl_sock c) s\<lparr>cs_clients := kept @ cs\<rparr>" kept] by (simp add: close_fd_def)
    then show ?thesis using True by (simp add: shutdown_sock close_fd_def flip: Diff_insert2)
  next
    case False
    then show ?thesis using Cons.prems Cons.IH[of s "kept @ [c]"] by simp
  qed
qed

lemma remove_marked:
  "cisrv_remove_marked_clients K s =
     (if list_all (peer_ends K) (map cl_sock (filter marked (cs_clients s)))
      then Some (s\<lparr>cs_clients := filter (\<lambda>c. \<not> marked c) (cs_clients s),
                   cs_open := cs_open s - socks (filter marked (cs_clients s))\<rparr>) else None)"
  unfolding cisrv_remove_marked_clients_def by (subst remove_loop_filter[where kept = "[]"]) simp_all

lemma close_loop_all:
  "cs_clients s = cs \<Longrightarrow>
   close_loop K cs s =
     (if list_all (peer_ends K) (map cl_sock cs)
      then Some (s\<lparr>cs_clients := [], cs_open := cs_open s - socks cs\<rparr>) else None)"
proof (induction cs arbitrary: s)
  case Nil
  then show ?case by (cases s) simp
next
  case (Cons c cs)
  then show ?case
    using Cons.IH[of "close_fd (cl_sock c) s\<lparr>cs_clients := cs\<rparr>"]
    by (simp add: shutdown_sock close_fd_def flip: Diff_insert2)
qed

lemma close_all:
  "cisrv_close_all_clients K s =
     (if list_all (peer_ends K) (map cl_sock (cs_clients s))
      then Some (s\<lparr>cs_clients := [], cs_open := cs_open s - socks (cs_clients s)\<rparr>) else None)"
  unfolding cisrv_close_all_clients_def by (rule close_loop_all) simp

section \<open>Sending\<close>

text \<open>\<open>send\<close> accepts at most what it is given, or fails with -1.\<close>

definition sends_ok :: "sends \<Rightarrow> bool" where
  "sends_ok A \<longleftrightarrow> (\<forall>fd w n. - 1 \<le> A fd w n \<and> A fd w n \<le> int n)"

lemma send_rest_spec:
  assumes "\<And>w n. ans w n \<le> int n" and "w \<le> len"
  shows "w \<le> snd (send_rest ans len w) \<and> snd (send_rest ans len w) \<le> len \<and>
    (fst (send_rest ans len w) \<longleftrightarrow> snd (send_rest ans len w) < len)"
  using assms(2)
proof (induction "len - w" arbitrary: w rule: less_induct)
  case less
  show ?case
  proof (cases "w < len \<and> 0 < ans w (len - w)")
    case True
    let ?w = "w + nat (ans w (len - w))"
    have "?w \<le> len" using True assms(1)[of w "len - w"] by linarith
    then have "?w \<le> snd (send_rest ans len ?w) \<and> snd (send_rest ans len ?w) \<le> len \<and>
      (fst (send_rest ans len ?w) \<longleftrightarrow> snd (send_rest ans len ?w) < len)"
      using True by (intro less) auto
    moreover have "send_rest ans len w = send_rest ans len ?w"
      using True by (subst send_rest.simps) (simp add: Let_def)
    ultimately show ?thesis by simp
  next
    case False
    then show ?thesis using less(2) by (auto simp: send_rest.simps[of ans len w] Let_def)
  qed
qed

section \<open>What a client receives\<close>

text \<open>The value a text array stands for: no value when it is empty.\<close>

definition shown :: "char list \<Rightarrow> net_value" where
  "shown a = Text (case cstr a of None \<Rightarrow> None | Some s \<Rightarrow> if s = [] then None else Some s)"

lemma text_value_shown: "text_in n a \<Longrightarrow> text_value a = Some (shown a)"
proof -
  assume "text_in n a"
  then obtain s where s: "cstr a = Some s" using text_in_cstr by blast
  then obtain xs where "a = s @ NUL # xs" "NUL \<notin> set s" by (auto simp: cstr_Some_iff)
  then show ?thesis using s by (cases s) (auto simp: text_value_def shown_def rd_def)
qed

lemma set_texts_shown:
  "list_all (\<lambda>(k, a). \<exists>n. text_in n a) fs \<Longrightarrow>
     set_texts fs m = Some (m\<lparr>out_values := out_values m @ map (\<lambda>(k, a). (k, shown a)) fs\<rparr>)"
proof (induction fs arbitrary: m)
  case Nil
  then show ?case by simp
next
  case (Cons f fs)
  obtain k a where f: "f = (k, a)" by (cases f)
  then obtain n where "text_in n a" using Cons.prems by auto
  then show ?case using Cons by (simp add: f text_value_shown set_value_def)
qed

lemma dataset_texts_ok:
  assumes "dataset_ok d"
  shows "list_all (\<lambda>(k, a). \<exists>n. text_in n a) (ring_texts d)" "list_all (\<lambda>(k, a). \<exists>n. text_in n a) (call_texts d)"
  using assms by (auto simp: dataset_ok_def ring_texts_def call_texts_def)

lemma ring_content:
  assumes "dataset_ok d" and "stage_of ty = Some st" and "cstr i = Some t"
  shows "broadcast_content ty (Some d) (Some i) = Some (Some \<lparr>out_type = CI_NET_MSG_EVENT_RING,
    out_values = map (\<lambda>(k, a). (k, shown a)) (ring_texts d) @ [(''msgid'', Text (Some t)), (''stage'', Stage st)],
    out_list = []\<rparr>)"
  by (simp add: broadcast_content_def assms set_texts_shown[OF dataset_texts_ok(1)[OF assms(1)]] set_value_def)

lemma call_content:
  assumes "dataset_ok d"
  shows "broadcast_content CIServerMsgCall (Some d) msgid = Some (Some \<lparr>out_type = CI_NET_MSG_EVENT_CALL,
    out_values = map (\<lambda>(k, a). (k, shown a)) (call_texts d), out_list = []\<rparr>)"
  by (simp add: broadcast_content_def assms set_texts_shown[OF dataset_texts_ok(2)[OF assms(1)]])

lemma length_CINetMessage: "dataset_ok d \<Longrightarrow> length (CINetMessage ty (Some d)) = 1409"
  by (simp add: CINetMessage_def dataset_bytes_def dataset_ok_def text_in_def)

definition modern :: "CIClient \<Rightarrow> bool" where
  "modern c \<longleftrightarrow> CI_CHECK_VERSION (cl_version c) (CI_MAKE_VERSION 3 0 0)"

text \<open>The sending to a client raises no error: \<open>text\<close> is the message for version 3, \<open>old\<close> the other.\<close>

definition reached :: "sends \<Rightarrow> CIServerMsg \<Rightarrow> string \<Rightarrow> string \<Rightarrow> CIClient \<Rightarrow> bool" where
  "reached A ty text old c \<longleftrightarrow>
     (if modern c then snd (send_rest (A (cl_sock c)) (length text) 0) = length text
      else ty = CIServerMsgCall \<or> A (cl_sock c) 0 (length old) \<notin> {0 ..< int (length old)})"

definition delivery :: "sends \<Rightarrow> CIServerMsg \<Rightarrow> string \<Rightarrow> string \<Rightarrow> CIClient \<Rightarrow> (int \<times> string) list" where
  "delivery A ty text old = (\<lambda>c. snd (broadcast_client A ty text old c))"

lemma unsigned_less:
  assumes "rc \<le> int n" and "n < 2 ^ 63" and "- (2 ^ 63) \<le> rc"
  shows "(word_of_int rc :: 64 word) < word_of_int (int n) \<longleftrightarrow> rc \<in> {0 ..< int n}"
proof -
  have n: "uint (word_of_nat n :: 64 word) = int n"
    using assms(2) by (simp add: unsigned_of_nat take_bit_nat_eq_self_iff)
  have "uint (word_of_int rc :: 64 word) < int n \<longleftrightarrow> rc \<in> {0 ..< int n}"
  proof (cases "rc < 0")
    case True
    have "rc mod 2 ^ 64 = (rc + 2 ^ 64) mod 2 ^ 64" by simp
    also have "\<dots> = rc + 2 ^ 64" by (rule mod_pos_pos_trivial) (use True assms(3) in simp_all)
    finally have "uint (word_of_int rc :: 64 word) = rc + 2 ^ 64"
      by (simp add: uint_word_of_int_eq take_bit_eq_mod)
    then show ?thesis using True assms(2,3) by simp
  next
    case False
    then have "uint (word_of_int rc :: 64 word) = rc"
      using assms(1,2) by (simp add: uint_word_of_int_eq take_bit_int_eq_self)
    then show ?thesis using False by simp
  qed
  then show ?thesis by (simp add: word_less_def n)
qed


text \<open>Sending marks exactly the clients it did not reach, and changes nothing else.\<close>

lemma broadcast_client_marks:
  assumes "sends_ok A" and "length old < 2 ^ 63"
  shows "fst (broadcast_client A ty text old c) = (if reached A ty text old c then c else mark c)"
proof (cases "modern c")
  case True
  have "\<And>w n. A (cl_sock c) w n \<le> int n" using assms(1) by (simp add: sends_ok_def)
  from send_rest_spec[where ans = "A (cl_sock c)" and w = 0 and len = "length text", OF this] True show ?thesis
    by (auto simp: broadcast_client_def reached_def modern_def split: prod.splits)
next
  case False
  have "- 1 \<le> A (cl_sock c) 0 (length old)" "A (cl_sock c) 0 (length old) \<le> int (length old)"
    using assms(1) by (simp_all add: sends_ok_def)
  with unsigned_less[OF this(2) assms(2)] False show ?thesis
    by (auto simp: broadcast_client_def reached_def modern_def Let_def)
qed

lemma modern_delivered:
  assumes "sends_ok A" and "modern c" and "reached A ty text old c"
  shows "delivery A ty text old c = [(cl_sock c, text)]"
  using assms(2,3) by (auto simp: delivery_def broadcast_client_def reached_def modern_def split: prod.splits)

lemma delivered_old:
  assumes "\<not> modern c" and "ty \<noteq> CIServerMsgCall" and "reached A ty text old c" and "sends_ok A"
    and "0 \<le> A (cl_sock c) 0 (length old)"
  shows "delivery A ty text old c = [(cl_sock c, old)]"
proof -
  have "A (cl_sock c) 0 (length old) \<le> int (length old)" using assms(4) by (simp add: sends_ok_def)
  then have "A (cl_sock c) 0 (length old) = int (length old)" using assms by (auto simp: reached_def)
  then show ?thesis using assms(1,2) by (simp add: delivery_def broadcast_client_def modern_def Let_def)
qed

lemma marked_mark [simp]: "marked (mark c)"
proof -
  have "bit (cl_flags c OR CISRV_CLIENT_REMOVE AND CISRV_CLIENT_REMOVE) 0" "bit CISRV_CLIENT_REMOVE 0"
    by (simp_all add: CISRV_CLIENT_REMOVE_def bit_simps)
  then have "bit ((cl_flags c OR CISRV_CLIENT_REMOVE) AND CISRV_CLIENT_REMOVE) 0" by (simp add: bit_simps)
  then show ?thesis by (auto simp: marked_def mark_def)
qed

lemma mark_sock [simp]: "cl_sock (mark c) = cl_sock c"
  by (simp add: mark_def)

text \<open>A client that stays: it was not marked before, and nothing failed.\<close>

definition keeps :: "sends \<Rightarrow> CIServerMsg \<Rightarrow> string \<Rightarrow> string \<Rightarrow> CIClient \<Rightarrow> bool" where
  "keeps A ty text old c \<longleftrightarrow> \<not> marked c \<and> reached A ty text old c"

lemma filter_marks:
  "filter (\<lambda>c. \<not> marked c) (map (\<lambda>c. if r c then c else mark c) cs) = filter (\<lambda>c. \<not> marked c \<and> r c) cs"
  "map cl_sock (filter marked (map (\<lambda>c. if r c then c else mark c) cs)) = map cl_sock (filter (\<lambda>c. \<not> (\<not> marked c \<and> r c)) cs)"
  by (induction cs) auto

lemma broadcast_message:
  assumes "sends_ok A" and "length (CINetMessage ty data) < 2 ^ 63"
    and "broadcast_content ty data msgid = Some (Some m)"
  shows "cisrv_broadcast_message W A K ty data msgid s =
    (let keep = keeps A ty (W m) (CINetMessage ty data); cs = cs_clients s; lost = filter (\<lambda>c. \<not> keep c) cs in
     if list_all (peer_ends K) (map cl_sock lost)
     then Some (0, s\<lparr>cs_clients := filter keep cs, cs_open := cs_open s - socks lost,
       cs_sent := cs_sent s @ concat (map (delivery A ty (W m) (CINetMessage ty data)) cs)\<rparr>)
     else None)"
proof -
  let ?r = "reached A ty (W m) (CINetMessage ty data)" and ?cs = "cs_clients s"
  let ?f = "\<lambda>c. if ?r c then c else mark c" and ?keep = "keeps A ty (W m) (CINetMessage ty data)"
  let ?sent = "cs_sent s @ concat (map (delivery A ty (W m) (CINetMessage ty data)) ?cs)"
  define s1 where "s1 = s\<lparr>cs_clients := map ?f ?cs, cs_sent := ?sent\<rparr>"
  have s1: "cs_clients s1 = map ?f ?cs" "cs_open s1 = cs_open s" by (simp_all add: s1_def)
  have send: "broadcast_send W A ty data msgid s = Some (0, s1)"
    by (simp add: broadcast_send_def assms(3) s1_def delivery_def broadcast_client_marks[OF assms(1,2)] comp_def Let_def)
  have lost: "map cl_sock (filter marked (map ?f ?cs)) = map cl_sock (filter (\<lambda>c. \<not> ?keep c) ?cs)"
    unfolding filter_marks(2) keeps_def by simp
  have lost_set: "socks (filter marked (map ?f ?cs)) = socks (filter (\<lambda>c. \<not> ?keep c) ?cs)"
    using arg_cong[OF lost, of set] by (simp only: set_map)
  have kept: "filter (\<lambda>c. \<not> marked c) (map ?f ?cs) = filter ?keep ?cs"
    unfolding filter_marks(1) keeps_def by simp
  have "cisrv_remove_marked_clients K s1
    = (if list_all (peer_ends K) (map cl_sock (filter (\<lambda>c. \<not> ?keep c) ?cs))
       then Some (s1\<lparr>cs_clients := filter ?keep ?cs, cs_open := cs_open s - socks (filter (\<lambda>c. \<not> ?keep c) ?cs)\<rparr>)
       else None)"
    unfolding remove_marked s1 lost lost_set kept ..
  then show ?thesis
    unfolding cisrv_broadcast_message_def send Let_def by (simp add: s1_def)
qed


lemma delivery_sock: "ty \<noteq> CIServerMsgCall \<Longrightarrow> map fst (delivery A ty text old c) = [cl_sock c]"
  by (auto simp: delivery_def broadcast_client_def Let_def split: prod.splits)

lemma delivery_socks:
  "ty \<noteq> CIServerMsgCall \<Longrightarrow> map fst (concat (map (delivery A ty text old) cs)) = map cl_sock cs"
  by (induction cs) (simp_all add: delivery_sock)

lemma ring_broadcast:
  assumes "sends_ok A" and "dataset_ok d" and "stage_of ty = Some st" and "cstr i = Some t"
    and "list_all (peer_ends K) (map cl_sock (cs_clients s))"
  shows "\<exists>m s' log. broadcast_content ty (Some d) (Some i) = Some (Some m) \<and>
    out_values m = map (\<lambda>(k, a). (k, shown a)) (ring_texts d) @ [(''msgid'', Text (Some t)), (''stage'', Stage st)] \<and>
    cisrv_broadcast_message W A K ty (Some d) (Some i) s = Some (0, s') \<and>
    cs_clients s' = filter (keeps A ty (W m) (CINetMessage ty (Some d))) (cs_clients s) \<and>
    cs_sent s' = cs_sent s @ log \<and> map fst log = map cl_sock (cs_clients s) \<and>
    list_all (\<lambda>c. (cl_sock c, W m) \<in> set log) (filter modern (cs_clients s')) \<and>
    cs_open s' = cs_open s - socks (filter (\<lambda>c. c \<notin> set (cs_clients s')) (cs_clients s))"
proof -
  let ?cs = "cs_clients s"
  obtain m where m: "broadcast_content ty (Some d) (Some i) = Some (Some m)"
    "out_values m = map (\<lambda>(k, a). (k, shown a)) (ring_texts d) @ [(''msgid'', Text (Some t)), (''stage'', Stage st)]"
    using ring_content[OF assms(2-4)] by simp
  let ?keep = "keeps A ty (W m) (CINetMessage ty (Some d))"
  let ?log = "concat (map (delivery A ty (W m) (CINetMessage ty (Some d))) ?cs)"
  have "list_all (peer_ends K) (map cl_sock (filter (\<lambda>c. \<not> ?keep c) ?cs))"
    using assms(5) by (auto simp: list_all_iff)
  then have b: "cisrv_broadcast_message W A K ty (Some d) (Some i) s = Some (0, s\<lparr>cs_clients := filter ?keep ?cs,
      cs_open := cs_open s - socks (filter (\<lambda>c. \<not> ?keep c) ?cs), cs_sent := cs_sent s @ ?log\<rparr>)"
    using broadcast_message[OF assms(1) _ m(1)] length_CINetMessage[OF assms(2)] by (simp add: Let_def)
  have "ty \<noteq> CIServerMsgCall" using assms(3) by auto
  then have l: "map fst ?log = map cl_sock ?cs" by (rule delivery_socks)
  have d: "list_all (\<lambda>c. (cl_sock c, W m) \<in> set ?log) (filter modern (filter ?keep ?cs))"
  proof -
    have "(cl_sock c, W m) \<in> set ?log" if c: "c \<in> set ?cs" "modern c" "?keep c" for c
    proof -
      have "delivery A ty (W m) (CINetMessage ty (Some d)) c = [(cl_sock c, W m)]"
        using modern_delivered[OF assms(1) c(2)] c(3) by (simp add: keeps_def)
      then show ?thesis using c(1) by force
    qed
    then show ?thesis by (auto simp: list_all_iff)
  qed
  have "{c \<in> set ?cs. c \<in> set ?cs \<longrightarrow> \<not> ?keep c} = {c \<in> set ?cs. \<not> ?keep c}" by auto
  then show ?thesis using m b l d by simp
qed

section \<open>Properties\<close>

text \<open>
  C32: The version check against 3.0.0, the only one the server makes, is the comparison of versions
  in their order, major number first. It compares the three numbers one by one, so in general it
  only implies the order: 4.0.0 does not pass a check against 3.1.0.
\<close>

theorem version_check_order:
  "(CI_CHECK_VERSION (version_number v) (CI_MAKE_VERSION 3 0 0) \<longleftrightarrow> Version 3 0 0 \<le> v) \<and>
   (if CI_CHECK_VERSION (version_number v) (version_number m) then m \<le> v else True) \<and>
   Version 3 1 0 \<le> Version 4 0 0 \<and>
   \<not> CI_CHECK_VERSION (version_number (Version 4 0 0)) (version_number (Version 3 1 0))"
proof (intro conjI)
  have "CI_MAKE_VERSION 3 0 0 = version_number (Version 3 0 0)" by simp
  then show "CI_CHECK_VERSION (version_number v) (CI_MAKE_VERSION 3 0 0) \<longleftrightarrow> Version 3 0 0 \<le> v"
    unfolding \<open>CI_MAKE_VERSION 3 0 0 = version_number (Version 3 0 0)\<close> check_version
    by (auto simp: less_eq_version_def word_gt_0)
  show "if CI_CHECK_VERSION (version_number v) (version_number m) then m \<le> v else True"
    unfolding check_version by (auto simp: less_eq_version_def)
  show "Version 3 1 0 \<le> Version 4 0 0" by (simp add: less_eq_version_def)
  show "\<not> CI_CHECK_VERSION (version_number (Version 4 0 0)) (version_number (Version 3 1 0))"
    unfolding check_version by simp
qed


definition sample_client :: "int \<Rightarrow> u32 \<Rightarrow> CIClient" where
  "sample_client fd v = \<lparr>cl_sock = fd, cl_flags = 0, cl_version = v\<rparr>"

definition sample_server :: CIServer where
  "sample_server = \<lparr>cs_sock = 3, cs_port = 63690, cs_thread = True, cs_pipe_r = 4, cs_pipe_w = 5,
     cs_state = CISrvStateRunning,
     cs_clients = [sample_client 6 (CI_MAKE_VERSION 2 0 0), sample_client 7 (CI_MAKE_VERSION 3 0 0)],
     cs_open = {0, 1, 2, 3, 4, 5, 6, 7}, cs_sent = [], cs_pipe = []\<rparr>"


end
