(* ===== verification/Areacodes.thy ===== *)
theory Areacodes
  imports CText "HOL-Library.List_Lexorder" "HOL-Library.Sublist"
begin

text \<open>
  The area codes of \<open>ci_areacodes.c\<close>: a text file with one code per line, an index of 100 file
  positions by the second and third digit of a code, and the search that starts at the
  position the index has for a number. The lemmas relate both to the lines of the file; the
  last part proves that the index loses nothing on a sorted file.
\<close>

section \<open>State and operations\<close>

text \<open>\<open>g_ascii_isdigit\<close>, \<open>g_ascii_digit_value\<close> and \<open>g_ascii_isspace\<close> of GLib.\<close>

record glib_ascii =
  isdigit :: "char \<Rightarrow> bool"
  digit_value :: "char \<Rightarrow> int"
  isspace :: "char \<Rightarrow> bool"

text \<open>
  Their documentation, as far as the code relies on it: the value of a digit is its decimal
  value and of any other character -1; a space is a space and the zero byte is none.
\<close>

definition glib_ascii_ok :: "glib_ascii \<Rightarrow> bool" where
  "glib_ascii_ok G \<longleftrightarrow>
     (\<forall>c. isdigit G c = (c \<in> set ''0123456789'')) \<and>
     (\<forall>c. digit_value G c = (if c \<in> set ''0123456789'' then of_char c - 48 else - 1)) \<and>
     isspace G CHR '' '' \<and> isspace G TAB \<and> \<not> isspace G NUL \<and>
     (\<forall>c. isspace G c \<longrightarrow> c \<notin> set ''0123456789'')"

text \<open>\<open>_ciac_indizes\<close> and \<open>_ciac_filename\<close>.\<close>

record areacodes =
  indizes :: "int list"
  ac_filename :: "string option"

definition ci_init_area_codes :: areacodes where
  "ci_init_area_codes = \<lparr>indizes = replicate 100 0, ac_filename = None\<rparr>"

text \<open>
  One line of the indexing loop. \<open>l\<close> is what \<open>fgets\<close> has stored, so the buffer starts with
  \<open>l @ [NUL]\<close>; the condition stops at the first test that fails.
\<close>

definition index_line :: "glib_ascii \<Rightarrow> nat \<Rightarrow> string \<Rightarrow> int list \<Rightarrow> int list option" where
  "index_line G pos l idx =
     (let buffer = l @ [NUL] in do {
        s \<leftarrow> cstr buffer;
        if 3 \<le> length s \<and> isdigit G (buffer ! 0) \<and> isdigit G (buffer ! 1) \<and> isdigit G (buffer ! 2)
        then do {
          let i = nat (10 * digit_value G (buffer ! 1) + digit_value G (buffer ! 2)) in do {
          old \<leftarrow> rd idx i;
          if old = 0 then wr idx i (int pos) else Some idx } }
        else Some idx })"

definition index_loop :: "glib_ascii \<Rightarrow> stream \<Rightarrow> int list \<Rightarrow> int list option" where
  "index_loop G f idx =
     (case while_fgets 256 (\<lambda>pos l idx. map_option Inl (index_line G pos l idx)) f idx of
        Some (Inl idx) \<Rightarrow> Some idx
      | Some (Inr (u :: unit)) \<Rightarrow> None
      | None \<Rightarrow> None)"

text \<open>\<open>fs\<close> gives the content of a file, or \<open>None\<close> when it cannot be opened.\<close>

definition ci_read_area_codes_from_file ::
  "glib_ascii \<Rightarrow> (string \<Rightarrow> string option) \<Rightarrow> string option \<Rightarrow> areacodes \<Rightarrow> (int \<times> areacodes) option" where
  "ci_read_area_codes_from_file G fs filename st =
     (case filename of None \<Rightarrow> Some (1, st) | Some name \<Rightarrow>
       let st = st\<lparr>ac_filename := Some name\<rparr> in
       (case fs name of
          None \<Rightarrow> Some (1, st)
        | Some content \<Rightarrow> do {
            idx \<leftarrow> index_loop G (open_at content 0) (indizes st);
            Some (0, st\<lparr>indizes := idx\<rparr>) }))"

text \<open>
  The comparison loop on a line: \<open>while (isdigit(buffer[i]) && value(buffer[i]) ==
  value(numComplete[i])) i++\<close>.
\<close>

function match_digits :: "glib_ascii \<Rightarrow> char list \<Rightarrow> char list \<Rightarrow> nat \<Rightarrow> nat option" where
  "match_digits G buffer num i =
     (if i < length buffer
      then if isdigit G (buffer ! i)
        then if i < length num
          then if digit_value G (buffer ! i) = digit_value G (num ! i)
            then match_digits G buffer num (Suc i)
            else Some i
          else None
        else Some i
      else None)"
  by pat_completeness auto

termination
  by (relation "measure (\<lambda>(G, buffer, num, i). length buffer - i)") auto

declare match_digits.simps [simp del]

text \<open>The three output arrays.\<close>

record area_result =
  numAreaCode :: "char list"
  numNumber :: "char list"
  strArea :: "char list"

text \<open>The branch of a line whose code matches, up to \<open>i\<close>.\<close>

definition store_match ::
  "glib_ascii \<Rightarrow> char list \<Rightarrow> char list \<Rightarrow> nat \<Rightarrow> area_result \<Rightarrow> area_result option" where
  "store_match G buffer num i r = do {
     code \<leftarrow> for_n 0 i (\<lambda>j a. do { c \<leftarrow> rd num j; wr a j c }) (numAreaCode r);
     code \<leftarrow> wr code i NUL;
     (number, k, j) \<leftarrow> copy_while (\<lambda>c. c \<noteq> NUL) num i (numNumber r) 0;
     number \<leftarrow> wr number j NUL;
     i \<leftarrow> scan (isspace G) buffer i;
     (area, k, j) \<leftarrow> copy_while (\<lambda>c. c \<noteq> LF \<and> c \<noteq> NUL) buffer i (strArea r) 0;
     area \<leftarrow> wr area j NUL;
     Some \<lparr>numAreaCode = code, numNumber = number, strArea = area\<rparr> }"

text \<open>One line of the search: go on, or leave the function with a return value.\<close>

definition search_line ::
  "glib_ascii \<Rightarrow> char list \<Rightarrow> string \<Rightarrow> area_result \<Rightarrow> (area_result + int \<times> area_result) option" where
  "search_line G num l r =
     (let buffer = l @ [NUL] in do {
        i \<leftarrow> match_digits G buffer num 0;
        b \<leftarrow> rd buffer i;
        if 2 < i \<and> \<not> isdigit G b
        then do { r \<leftarrow> store_match G buffer num i r; Some (Inr (0, r)) }
        else do {
          n \<leftarrow> rd num i;
          if digit_value G b > digit_value G n
          then do {
            code \<leftarrow> strcpy (numAreaCode r) ''<unknown>'';
            Some (Inr (1, r\<lparr>numAreaCode := code\<rparr>)) }
          else Some (Inl r) } })"

definition search_loop ::
  "glib_ascii \<Rightarrow> char list \<Rightarrow> stream \<Rightarrow> area_result \<Rightarrow> (int \<times> area_result) option" where
  "search_loop G num f r =
     (case while_fgets 256 (\<lambda>pos. search_line G num) f r of
        Some (Inl r) \<Rightarrow> Some (1, r)
      | Some (Inr res) \<Rightarrow> Some res
      | None \<Rightarrow> None)"

text \<open>
  The lookup on arrays; \<open>numComplete\<close> is not the array \<open>numNumber\<close>, as in all calls of the
  program. The index is computed from the second and third digit.
\<close>

definition number_index :: "glib_ascii \<Rightarrow> char list \<Rightarrow> nat option" where
  "number_index G num = do {
     c1 \<leftarrow> rd num 1;
     c2 \<leftarrow> rd num 2;
     let i = (if isdigit G c1 then digit_value G c1 else 0);
         i = (if isdigit G c2 then 10 * i + digit_value G c2 else i)
     in Some (nat i) }"

definition get_area_code ::
  "glib_ascii \<Rightarrow> (string \<Rightarrow> string option) \<Rightarrow> areacodes \<Rightarrow> string \<Rightarrow> char list \<Rightarrow> area_result \<Rightarrow>
   (int \<times> area_result) option" where
  "get_area_code G fs st name num r = do {
     code \<leftarrow> strcpy (numAreaCode r) ''<unknown>'';
     s \<leftarrow> cstr num;
     number \<leftarrow> strcpy (numNumber r) s;
     area \<leftarrow> strcpy (strArea r) ''<unknown>'';
     let r = \<lparr>numAreaCode = code, numNumber = number, strArea = area\<rparr> in do {
     c0 \<leftarrow> rd num 0;
     if \<not> isdigit G c0 then Some (1, r)
     else do {
       code \<leftarrow> wr code 0 c0;
       i \<leftarrow> number_index G num;
       start \<leftarrow> rd (indizes st) i;
       if 0 < i \<and> start = 0
       then do { code \<leftarrow> strcpy code ''<unknown>''; Some (1, r\<lparr>numAreaCode := code\<rparr>) }
       else (case fs name of
           None \<Rightarrow> Some (1, r\<lparr>numAreaCode := code\<rparr>)
         | Some content \<Rightarrow>
             search_loop G num (open_at content (nat start)) (r\<lparr>numAreaCode := code\<rparr>)) } } }"

text \<open>The tests for NULL in front of it.\<close>

definition ci_get_area_code ::
  "glib_ascii \<Rightarrow> (string \<Rightarrow> string option) \<Rightarrow> areacodes \<Rightarrow> char list option \<Rightarrow> area_result option \<Rightarrow>
   (int \<times> area_result option) option" where
  "ci_get_area_code G fs st numComplete outs =
     (case (ac_filename st, numComplete, outs) of
        (Some name, Some num, Some r) \<Rightarrow>
          map_option (map_prod id Some) (get_area_code G fs st name num r)
      | _ \<Rightarrow> Some (1, outs))"

section \<open>Lines of the file\<close>

definition code_of :: "string \<Rightarrow> string" where
  "code_of l = takeWhile dig l"

definition area_of :: "glib_ascii \<Rightarrow> string \<Rightarrow> string" where
  "area_of G l = takeWhile (\<lambda>c. c \<noteq> LF \<and> c \<noteq> NUL) (dropWhile (isspace G) (dropWhile dig l))"

text \<open>The number of leading digits a line shares with a number.\<close>

fun common :: "string \<Rightarrow> string \<Rightarrow> nat" where
  "common (c # l) (d # s) = (if dig c \<and> c = d then Suc (common l s) else 0)"
| "common _ _ = 0"

definition value_at :: "string \<Rightarrow> nat \<Rightarrow> int" where
  "value_at s i = (if i < length s \<and> dig (s ! i) then of_char (s ! i) - 48 else - 1)"

definition hits :: "string \<Rightarrow> string \<Rightarrow> bool" where
  "hits l s \<longleftrightarrow> 3 \<le> length (code_of l) \<and> prefix (code_of l) s"

definition beyond :: "string \<Rightarrow> string \<Rightarrow> bool" where
  "beyond l s \<longleftrightarrow> value_at l (common l s) > value_at s (common l s)"

text \<open>The search of a number in a list of lines.\<close>

datatype verdict = Hit string string string | Past | End

fun find_area :: "glib_ascii \<Rightarrow> string \<Rightarrow> string list \<Rightarrow> verdict" where
  "find_area G s [] = End"
| "find_area G s (l # ls) =
     (if hits l s then Hit (code_of l) (drop (length (code_of l)) s) (area_of G l)
      else if beyond l s then Past
      else find_area G s ls)"

lemma common_le: "common l s \<le> length l" "common l s \<le> length s"
  by (induction l s rule: common.induct) auto

lemma common_take: "take (common l s) l = take (common l s) s"
  by (induction l s rule: common.induct) auto

lemma common_digits: "i < common l s \<Longrightarrow> dig (l ! i)"
proof (induction l s arbitrary: i rule: common.induct)
  case (1 c l d s)
  then show ?case by (cases i) (auto split: if_splits)
qed auto

lemma common_code_le: "common l s \<le> length (code_of l)"
  unfolding code_of_def by (induction l s rule: common.induct) auto

lemma common_prefix: "prefix (code_of l) s \<longleftrightarrow> common l s = length (code_of l)"
  unfolding code_of_def
proof (induction l s rule: common.induct)
  case (1 c l d s)
  then show ?case by auto
qed auto

lemma common_stop:
  "common l s < length l \<Longrightarrow> common l s < length s \<Longrightarrow> dig (l ! common l s) \<Longrightarrow>
     l ! common l s \<noteq> s ! common l s"
  by (induction l s rule: common.induct) (auto split: if_splits)

lemma nth_code_end: "length (code_of l) < length l \<Longrightarrow> \<not> dig (l ! length (code_of l))"
  unfolding code_of_def using nth_length_takeWhile[of dig l] by blast

lemma nth_code: "i < length (code_of l) \<Longrightarrow> dig (l ! i) \<and> i < length l"
  unfolding code_of_def
  by (metis nth_mem set_takeWhileD takeWhile_nth length_takeWhile_le order_less_le_trans)

section \<open>The search on one line\<close>

lemma dig_value_nonneg: "dig c \<Longrightarrow> (0 :: int) \<le> of_char c - 48 \<and> (of_char c :: int) - 48 \<le> 9"
  using dig_value[of c] by simp

lemma isdigit_eq: "glib_ascii_ok G \<Longrightarrow> isdigit G c = dig c"
  by (simp add: glib_ascii_ok_def dig_def)

lemma digit_value_eq:
  "glib_ascii_ok G \<Longrightarrow> digit_value G c = (if dig c then of_char c - 48 else - 1)"
  by (simp add: glib_ascii_ok_def dig_def)

lemma match_digits_common:
  assumes ok: "glib_ascii_ok G"
  shows "length pre = length pre' \<Longrightarrow>
    match_digits G (pre @ l @ [NUL]) (pre' @ s @ NUL # xs) (length pre) = Some (length pre + common l s)"
proof (induction l s arbitrary: pre pre' rule: common.induct[case_names Both Left_empty Right_empty])
  case (Both c l d s)
  note step = match_digits.simps[of G "pre @ (c # l) @ [NUL]" "pre' @ (d # s) @ NUL # xs" "length pre"]
  show ?case
  proof (cases "dig c \<and> c = d")
    case True
    then have "match_digits G ((pre @ [c]) @ l @ [NUL]) ((pre' @ [d]) @ s @ NUL # xs) (length (pre @ [c]))
        = Some (length (pre @ [c]) + common l s)"
      using Both by (intro Both.IH) auto
    then show ?thesis
      using True Both(2) step by (simp add: isdigit_eq[OF ok] digit_value_eq[OF ok] nth_append)
  next
    case False
    have "digit_value G c \<noteq> digit_value G d" if "dig c"
    proof (cases "dig d")
      case True
      then show ?thesis using that False by (simp add: digit_value_eq[OF ok])
    next
      case nd: False
      then show ?thesis using dig_value_nonneg[OF that] that
        by (simp add: digit_value_eq[OF ok])
    qed
    then show ?thesis
      using False Both(2) step by (auto simp: isdigit_eq[OF ok] nth_append)
  qed
next
  case (Left_empty s)
  then show ?case by (subst match_digits.simps) (simp add: isdigit_eq[OF ok] nth_append)
next
  case (Right_empty l)
  show ?case
  proof (cases l)
    case Nil
    then show ?thesis by (subst match_digits.simps) (simp add: isdigit_eq[OF ok] nth_append)
  next
    case (Cons c l')
    have "digit_value G c \<noteq> digit_value G NUL" if "dig c"
      using dig_value_nonneg[OF that] that by (simp add: digit_value_eq[OF ok])
    then show ?thesis using Cons Right_empty
      by (subst match_digits.simps) (auto simp: isdigit_eq[OF ok] nth_append)
  qed
qed

lemmas match_digits_line =
  match_digits_common[where pre = "[]" and pre' = "[]", simplified]

text \<open>The arrays a search of \<open>s\<close> needs for the lines \<open>ls\<close>.\<close>

definition room :: "glib_ascii \<Rightarrow> string \<Rightarrow> string list \<Rightarrow> area_result \<Rightarrow> bool" where
  "room G s ls r \<longleftrightarrow>
     9 < length (numAreaCode r) \<and> (\<forall>l \<in> set ls. length (code_of l) < length (numAreaCode r)) \<and>
     length s < length (numNumber r) \<and>
     9 < length (strArea r) \<and> (\<forall>l \<in> set ls. length (area_of G l) < length (strArea r))"

definition same_size :: "area_result \<Rightarrow> area_result \<Rightarrow> bool" where
  "same_size r r' \<longleftrightarrow> length (numAreaCode r') = length (numAreaCode r) \<and>
     length (numNumber r') = length (numNumber r) \<and> length (strArea r') = length (strArea r)"

text \<open>The arrays hold these strings.\<close>

definition holds :: "area_result \<Rightarrow> string \<Rightarrow> string \<Rightarrow> string \<Rightarrow> bool" where
  "holds r c n a \<longleftrightarrow>
     cstr (numAreaCode r) = Some c \<and> cstr (numNumber r) = Some n \<and> cstr (strArea r) = Some a"

lemma put_terminate:
  assumes "put a 0 s = Some a'" and "length s < length a"
  shows "wr a' (length s) NUL = Some (s @ NUL # drop (Suc (length s)) a)"
  using assms by (auto simp: wr_def put_def list_update_append Cons_nth_drop_Suc[symmetric])

lemma put_prefix_fits: "length s < length a \<Longrightarrow> \<exists>a'. put a 0 s = Some a'"
  by (simp add: put_def)

lemma NUL_notin_code: "NUL \<notin> set (code_of l)"
  unfolding code_of_def by (auto dest: set_takeWhileD)

lemma NUL_notin_area: "NUL \<notin> set (area_of G l)"
  unfolding area_of_def by (auto dest: set_takeWhileD)

lemma store_match_holds:
  assumes ok: "glib_ascii_ok G" and room: "room G s ls r" and l: "l \<in> set ls"
    and p: "prefix (code_of l) s" and s: "NUL \<notin> set s"
  shows "\<exists>r'. store_match G (l @ [NUL]) (s @ NUL # xs) (length (code_of l)) r = Some r' \<and>
    holds r' (code_of l) (drop (length (code_of l)) s) (area_of G l)"
proof -
  let ?c = "code_of l" and ?a = "area_of G l" and ?k = "length (code_of l)"
  let ?sp = "takeWhile (isspace G) (dropWhile dig l)"
  obtain n where n: "s = ?c @ n" using p by (auto simp: prefix_def)
  have nn: "NUL \<notin> set n" using s n by (metis Un_iff set_append)
  have nsp: "\<not> isspace G NUL" using ok by (simp add: glib_ascii_ok_def)
  have len: "?k < length (numAreaCode r)" "length n < length (numNumber r)" "length ?a < length (strArea r)"
    using room l n by (auto simp: room_def)
  obtain c1 where c1: "put (numAreaCode r) 0 ?c = Some c1" using put_prefix_fits[OF len(1)] by blast
  obtain n1 where n1: "put (numNumber r) 0 n = Some n1" using put_prefix_fits[OF len(2)] by blast
  obtain a1 where a1: "put (strArea r) 0 ?a = Some a1" using put_prefix_fits[OF len(3)] by blast
  have "for_n 0 ?k (\<lambda>j a. do { c \<leftarrow> rd (s @ NUL # xs) j; wr a (0 + (j - 0)) c }) (numAreaCode r)
      = put (numAreaCode r) 0 ?c"
    by (rule for_n_writes) (auto simp: rd_def n nth_append)
  then have loop: "for_n 0 ?k (\<lambda>j a. do { c \<leftarrow> rd (s @ NUL # xs) j; wr a j c }) (numAreaCode r) = Some c1"
    using c1 by simp
  have tn: "takeWhile (\<lambda>c. c \<noteq> NUL) n = n" using nn by (auto simp: takeWhile_eq_all_conv)
  have num: "copy_while (\<lambda>c. c \<noteq> NUL) (s @ NUL # xs) ?k (numNumber r) 0 = Some (n1, ?k + length n, length n)"
    using copy_while_run[of "\<lambda>c. c \<noteq> NUL" ?k ?c 0 "numNumber r" n xs] n1 tn by (simp add: n)
  have l': "l = ?c @ dropWhile dig l" by (simp add: code_of_def)
  have sc: "scan (isspace G) (l @ [NUL]) ?k = Some (?k + length ?sp)"
    using scan_run[of "isspace G" ?k ?c "dropWhile dig l" "[]"] nsp l' by (metis append.assoc)
  have l'': "l = (?c @ ?sp) @ dropWhile (isspace G) (dropWhile dig l)"
    using l' by (metis append.assoc takeWhile_dropWhile_id)
  have L: "l @ [NUL] = (?c @ ?sp) @ dropWhile (isspace G) (dropWhile dig l) @ NUL # []"
    using l'' by (metis append.assoc)
  have ar: "copy_while (\<lambda>c. c \<noteq> LF \<and> c \<noteq> NUL) (l @ [NUL]) (?k + length ?sp) (strArea r) 0
      = Some (a1, ?k + length ?sp + length ?a, length ?a)"
    using copy_while_run[of "\<lambda>c. c \<noteq> LF \<and> c \<noteq> NUL" "?k + length ?sp" "?c @ ?sp" 0 "strArea r"
        "dropWhile (isspace G) (dropWhile dig l)" "[]"] a1
    by (subst L) (simp flip: area_of_def)
  show ?thesis
    using loop num sc ar put_terminate[OF c1 len(1)] put_terminate[OF n1 len(2)] put_terminate[OF a1 len(3)]
      nn NUL_notin_code NUL_notin_area n
    by (simp add: store_match_def holds_def)
qed

lemma search_line_spec:
  assumes ok: "glib_ascii_ok G" and room: "room G s ls r" and l: "l \<in> set ls" and s: "NUL \<notin> set s"
  shows "\<exists>r'. search_line G (s @ NUL # xs) l r =
      (if hits l s then Some (Inr (0, r'))
       else if beyond l s then Some (Inr (1, r')) else Some (Inl r)) \<and>
    (hits l s \<longrightarrow> holds r' (code_of l) (drop (length (code_of l)) s) (area_of G l)) \<and>
    (\<not> hits l s \<longrightarrow> strcpy (numAreaCode r) ''<unknown>'' = Some (numAreaCode r') \<and>
       numNumber r' = numNumber r \<and> strArea r' = strArea r)"
proof -
  let ?k = "common l s"
  have m: "match_digits G (l @ [NUL]) (s @ NUL # xs) 0 = Some ?k"
    by (rule match_digits_line[OF ok])
  have b: "rd (l @ [NUL]) ?k = Some ((l @ [NUL]) ! ?k)" "rd (s @ NUL # xs) ?k = Some ((s @ NUL # xs) ! ?k)"
    using common_le[of l s] by (auto simp: rd_def)
  have vb: "digit_value G ((l @ [NUL]) ! ?k) = value_at l ?k"
    using common_le(1)[of l s] by (cases "?k = length l") (auto simp: value_at_def digit_value_eq[OF ok] nth_append)
  have vs: "digit_value G ((s @ NUL # xs) ! ?k) = value_at s ?k"
    using common_le(2)[of l s] by (cases "?k = length s") (auto simp: value_at_def digit_value_eq[OF ok] nth_append)
  have hit: "2 < ?k \<and> \<not> dig ((l @ [NUL]) ! ?k) \<longleftrightarrow> hits l s"
  proof
    assume h: "2 < ?k \<and> \<not> dig ((l @ [NUL]) ! ?k)"
    have "\<not> ?k < length (code_of l)"
      using h nth_code[of ?k l] by (auto simp: nth_append)
    then have "?k = length (code_of l)" using common_code_le[of l s] by simp
    then show "hits l s" using h by (simp add: hits_def common_prefix)
  next
    assume h: "hits l s"
    then have k: "?k = length (code_of l)" by (simp add: hits_def common_prefix)
    have "\<not> dig ((l @ [NUL]) ! ?k)"
      using nth_code_end[of l] common_le(1)[of l s] unfolding k
      by (cases "length (code_of l) = length l") (auto simp: nth_append)
    then show "2 < ?k \<and> \<not> dig ((l @ [NUL]) ! ?k)" using h k by (simp add: hits_def)
  qed
  have 9: "length ''<unknown>'' < length (numAreaCode r)" using room by (simp add: room_def)
  obtain u where u: "strcpy (numAreaCode r) ''<unknown>'' = Some u" using strcpy_fits[OF 9] by blast
  show ?thesis
  proof (cases "hits l s")
    case True
    then have k: "?k = length (code_of l)" by (simp add: hits_def common_prefix)
    have "prefix (code_of l) s" using True by (simp add: hits_def)
    from store_match_holds[OF ok room l this s, of xs] obtain r' where
      "store_match G (l @ [NUL]) (s @ NUL # xs) ?k r = Some r'"
      "holds r' (code_of l) (drop (length (code_of l)) s) (area_of G l)" using k by auto
    then show ?thesis
      using True m b hit by (auto simp: search_line_def isdigit_eq[OF ok])
  next
    case False
    then show ?thesis
      using m b hit u vb vs
      by (intro exI[of _ "r\<lparr>numAreaCode := u\<rparr>"]) (auto simp: search_line_def isdigit_eq[OF ok] beyond_def)
  qed
qed

text \<open>The loop over the lines implements the search in the list of lines.\<close>

lemma search_lines_spec:
  assumes ok: "glib_ascii_ok G" and room: "room G s (map snd ps) r" and s: "NUL \<notin> set s"
  shows "(case find_area G s (map snd ps) of
       Hit c n a \<Rightarrow> \<exists>r'. run_lines (\<lambda>pos. search_line G (s @ NUL # xs)) ps r = Some (Inr (0, r')) \<and> holds r' c n a
     | Past \<Rightarrow> \<exists>r'. run_lines (\<lambda>pos. search_line G (s @ NUL # xs)) ps r = Some (Inr (1, r')) \<and>
         strcpy (numAreaCode r) ''<unknown>'' = Some (numAreaCode r') \<and>
         numNumber r' = numNumber r \<and> strArea r' = strArea r
     | End \<Rightarrow> run_lines (\<lambda>pos. search_line G (s @ NUL # xs)) ps r = Some (Inl r))"
  using room
proof (induction ps)
  case Nil
  then show ?case by simp
next
  case (Cons p ps)
  obtain pos l where p: "p = (pos, l)" by (cases p)
  have "room G s (map snd ps) r" using Cons.prems by (simp add: room_def)
  note IH = Cons.IH[OF this]
  obtain r' where r': "search_line G (s @ NUL # xs) l r =
      (if hits l s then Some (Inr (0, r'))
       else if beyond l s then Some (Inr (1, r')) else Some (Inl r))"
    "hits l s \<longrightarrow> holds r' (code_of l) (drop (length (code_of l)) s) (area_of G l)"
    "\<not> hits l s \<longrightarrow> strcpy (numAreaCode r) ''<unknown>'' = Some (numAreaCode r') \<and>
       numNumber r' = numNumber r \<and> strArea r' = strArea r"
    using search_line_spec[OF ok Cons.prems _ s, of l xs] by (auto simp: p)
  show ?case using IH r' by (auto simp: p split: verdict.splits)
qed

lemma value_at_ge: "- 1 \<le> value_at s i"
  using dig_value[of "s ! i"] by (auto simp: value_at_def)

section \<open>The index\<close>

definition key :: "string \<Rightarrow> nat" where
  "key l = nat (10 * value_at l 1 + value_at l 2)"

definition coded :: "string \<Rightarrow> bool" where
  "coded l \<longleftrightarrow> 3 \<le> length (code_of l)"

lemma coded_digits: "coded l \<longleftrightarrow> 3 \<le> length l \<and> dig (l ! 0) \<and> dig (l ! 1) \<and> dig (l ! 2)"
  by (cases l; cases "tl l"; cases "tl (tl l)") (auto simp: coded_def code_of_def)

lemma coded_values:
  assumes "coded l"
  shows "0 \<le> value_at l 1 \<and> value_at l 1 \<le> 9 \<and> 0 \<le> value_at l 2 \<and> value_at l 2 \<le> 9"
  using assms dig_value_nonneg[of "l ! 1"] dig_value_nonneg[of "l ! 2"]
  by (auto simp: coded_digits value_at_def)

lemma key_less: "coded l \<Longrightarrow> key l < 100"
  using coded_values[of l] by (auto simp: key_def nat_less_iff)

lemma index_line_spec:
  assumes ok: "glib_ascii_ok G" and len: "length idx = 100"
  shows "index_line G pos l idx
    = Some (if coded l \<and> idx ! key l = 0 then idx[key l := int pos] else idx)"
proof -
  let ?s = "takeWhile (\<lambda>c. c \<noteq> NUL) l"
  have c: "cstr (l @ [NUL]) = Some ?s"
    by (simp add: cstr_def, induction l) auto
  have t: "3 \<le> length ?s \<and> isdigit G ((l @ [NUL]) ! 0) \<and> isdigit G ((l @ [NUL]) ! 1) \<and>
      isdigit G ((l @ [NUL]) ! 2) \<longleftrightarrow> coded l"
  proof
    assume h: "3 \<le> length ?s \<and> isdigit G ((l @ [NUL]) ! 0) \<and> isdigit G ((l @ [NUL]) ! 1) \<and>
      isdigit G ((l @ [NUL]) ! 2)"
    then have "3 \<le> length l" using length_takeWhile_le[of "\<lambda>c. c \<noteq> NUL" l] by simp
    moreover from this have "l \<noteq> []" by auto
    ultimately show "coded l" using h by (auto simp: coded_digits isdigit_eq[OF ok] nth_append)
  next
    assume h: "coded l"
    have "takeWhile dig l = takeWhile dig ?s"
      by (induction l) auto
    then have "3 \<le> length ?s"
      using h length_takeWhile_le[of dig ?s] by (simp add: coded_def code_of_def)
    then show "3 \<le> length ?s \<and> isdigit G ((l @ [NUL]) ! 0) \<and> isdigit G ((l @ [NUL]) ! 1) \<and>
      isdigit G ((l @ [NUL]) ! 2)"
      using h by (auto simp: coded_digits isdigit_eq[OF ok] nth_append)
  qed
  have v: "nat (10 * digit_value G ((l @ [NUL]) ! 1) + digit_value G ((l @ [NUL]) ! 2)) = key l"
    if "coded l"
    using that by (auto simp: coded_digits key_def value_at_def digit_value_eq[OF ok] nth_append)
  show ?thesis
    using c t v key_less[of l] len by (auto simp: index_line_def rd_def wr_def)
qed

text \<open>The first line with a given index, not counting one at the start of the file.\<close>

fun first_pos :: "(nat \<times> string) list \<Rightarrow> nat \<Rightarrow> nat" where
  "first_pos [] i = 0"
| "first_pos ((p, l) # ps) i = (if coded l \<and> key l = i \<and> p \<noteq> 0 then p else first_pos ps i)"

lemma index_lines_spec:
  assumes ok: "glib_ascii_ok G"
  shows "length idx = 100 \<Longrightarrow>
    \<exists>idx'. run_lines (\<lambda>pos l idx. map_option Inl (index_line G pos l idx)) ps idx
        = Some (Inl idx' :: int list + unit) \<and> length idx' = 100 \<and>
      (\<forall>i < 100. idx' ! i = (if idx ! i \<noteq> 0 then idx ! i else int (first_pos ps i)))"
proof (induction ps arbitrary: idx)
  case Nil
  then show ?case by simp
next
  case (Cons p ps)
  obtain pos l where p: "p = (pos, l)" by (cases p)
  define idx1 where "idx1 = (if coded l \<and> idx ! key l = 0 then idx[key l := int pos] else idx)"
  let ?idx = idx1
  have len1: "length idx1 = 100" using Cons.prems by (simp add: idx1_def)
  obtain idx' where i: "run_lines (\<lambda>pos l idx. map_option Inl (index_line G pos l idx)) ps ?idx
        = Some (Inl idx' :: int list + unit)" "length idx' = 100"
    "\<forall>i < 100. idx' ! i = (if ?idx ! i \<noteq> 0 then ?idx ! i else int (first_pos ps i))"
    using Cons.IH[OF len1] by blast
  have "idx' ! i = (if idx ! i \<noteq> 0 then idx ! i else int (first_pos (p # ps) i))" if "i < 100" for i
    using i(3) that Cons.prems key_less[of l] by (auto simp: p nth_list_update idx1_def)
  then show ?case using i(1,2) by (simp add: p index_line_spec[OF ok Cons.prems] flip: idx1_def)
qed

lemma read_area_codes_spec:
  assumes ok: "glib_ascii_ok G" and f: "fs name = Some content" and st: "indizes st = replicate 100 0"
  shows "\<exists>st'. ci_read_area_codes_from_file G fs (Some name) st = Some (0, st') \<and>
    ac_filename st' = Some name \<and> length (indizes st') = 100 \<and>
    (\<forall>i < 100. indizes st' ! i = int (first_pos (pieces 255 0 content) i))"
proof -
  obtain idx' where "run_lines (\<lambda>pos l idx. map_option Inl (index_line G pos l idx))
        (pieces 255 0 content) (replicate 100 0) = Some (Inl idx' :: int list + unit)"
    "length idx' = 100"
    "\<forall>i < 100. idx' ! i = (if replicate 100 (0 :: int) ! i \<noteq> 0 then replicate 100 0 ! i
                            else int (first_pos (pieces 255 0 content) i))"
    using index_lines_spec[OF ok, of "replicate 100 0" "pieces 255 0 content"] by auto
  then show ?thesis
    using f st by (auto simp: ci_read_area_codes_from_file_def Let_def index_loop_def while_fgets_open)
qed

text \<open>The index points at a line that is not behind any line with the same digits.\<close>

lemma first_pos_suffix:
  assumes "coded l" and "p \<noteq> 0" and "\<forall>x \<in> set as \<union> set bs. fst x \<noteq> p"
  shows "\<exists>as1 as2. as = as1 @ as2 \<and> first_pos (as @ (p, l) # bs) (key l) \<noteq> 0 \<and>
    (\<exists>l' cs. as2 @ (p, l) # bs = (first_pos (as @ (p, l) # bs) (key l), l') # cs)"
  using assms(3)
proof (induction as)
  case Nil
  then show ?case using assms(1,2) by auto
next
  case (Cons a as)
  obtain q m where a: "a = (q, m)" by (cases a)
  show ?case
  proof (cases "coded m \<and> key m = key l \<and> q \<noteq> 0")
    case True
    then have q: "first_pos ((a # as) @ (p, l) # bs) (key l) = q" "q \<noteq> 0" by (simp_all add: a)
    show ?thesis
      unfolding q(1) by (rule exI[of _ "[]"], rule exI[of _ "a # as"]) (simp add: a q(2))
  next
    case False
    obtain as1 as2 where ih: "as = as1 @ as2" "first_pos (as @ (p, l) # bs) (key l) \<noteq> 0"
      "\<exists>l' cs. as2 @ (p, l) # bs = (first_pos (as @ (p, l) # bs) (key l), l') # cs"
      using Cons.IH Cons.prems by (meson UnE UnI1 UnI2 list.set_intros(2))
    have "first_pos ((a # as) @ (p, l) # bs) (key l) = first_pos (as @ (p, l) # bs) (key l)"
      using False by (auto simp: a)
    then show ?thesis using ih by (metis append_Cons)
  qed
qed

lemma number_index_key:
  assumes ok: "glib_ascii_ok G" and h: "hits l s"
  shows "number_index G (s @ NUL # xs) = Some (key l) \<and> dig (s ! 0) \<and> 3 \<le> length s"
proof -
  have c: "coded l" "prefix (code_of l) s" using h by (auto simp: hits_def coded_def)
  then obtain n where s: "s = code_of l @ n" by (auto simp: prefix_def)
  have l: "3 \<le> length (code_of l)" using c by (simp add: coded_def)
  have eq: "s ! i = l ! i" if "i < 3" for i
    using that l by (simp add: s nth_append code_of_def takeWhile_nth)
  have e: "s ! 0 = l ! 0" "s ! 1 = l ! 1" "s ! 2 = l ! 2" by (simp_all add: eq del: One_nat_def)
  have d: "3 \<le> length l" "dig (l ! 0)" "dig (l ! 1)" "dig (l ! 2)"
    using c(1) by (simp_all add: coded_digits)
  have len: "3 \<le> length s" using l by (simp add: s)
  then show ?thesis
    using d e len[unfolded numeral_3_eq_3, THEN Suc_le_lessD, THEN order.strict_implies_not_eq]
    by (auto simp: number_index_def rd_def nth_append isdigit_eq[OF ok] digit_value_eq[OF ok]
        key_def value_at_def)
qed

section \<open>The lookup finds what a search of the whole file finds\<close>

lemma find_area_hit:
  "\<forall>m \<in> set as. \<not> hits m s \<and> \<not> beyond m s \<Longrightarrow> hits l s \<Longrightarrow>
     find_area G s (as @ l # bs) = Hit (code_of l) (drop (length (code_of l)) s) (area_of G l)"
  by (induction as) auto

lemma find_area_HitD:
  "find_area G s ls = Hit c n a \<Longrightarrow> \<exists>as l bs. ls = as @ l # bs \<and> hits l s \<and>
     (\<forall>m \<in> set as. \<not> hits m s \<and> \<not> beyond m s) \<and>
     c = code_of l \<and> n = drop (length (code_of l)) s \<and> a = area_of G l"
proof (induction ls)
  case Nil
  then show ?case by simp
next
  case (Cons m ls)
  show ?case
  proof (cases "hits m s")
    case True
    then show ?thesis using Cons.prems by (intro exI[of _ "[]"] exI[of _ m] exI[of _ ls]) auto
  next
    case False
    then have nb: "\<not> beyond m s" and "find_area G s ls = Hit c n a"
      using Cons.prems by (auto split: if_splits)
    then obtain as l bs where "ls = as @ l # bs" "hits l s"
      "\<forall>m \<in> set as. \<not> hits m s \<and> \<not> beyond m s"
      "c = code_of l" "n = drop (length (code_of l)) s" "a = area_of G l"
      using Cons.IH by blast
    then show ?thesis using False nb by (intro exI[of _ "m # as"] exI[of _ l] exI[of _ bs]) auto
  qed
qed

lemma room_subset: "room G s ls r \<Longrightarrow> set ls' \<subseteq> set ls \<Longrightarrow> same_size r r' \<Longrightarrow> room G s ls' r'"
  by (auto simp: room_def same_size_def)

text \<open>The function up to the search, for a number that begins with a digit.\<close>

lemma get_area_code_search:
  assumes ok: "glib_ascii_ok G" and room: "room G s ls r" and s: "NUL \<notin> set s" "dig (s ! 0)" "s \<noteq> []"
    and i: "number_index G (s @ NUL # xs) = Some i" "i < length (indizes st)"
      "indizes st ! i \<noteq> 0 \<or> i = 0"
    and f: "fs name = Some content"
  shows "\<exists>r1. same_size r r1 \<and> holds r1 (s ! 0 # ''unknown>'') s ''<unknown>'' \<and>
    get_area_code G fs st name (s @ NUL # xs) r
      = search_loop G (s @ NUL # xs) (open_at content (nat (indizes st ! i))) r1"
proof -
  have len: "length ''<unknown>'' < length (numAreaCode r)" "length s < length (numNumber r)"
    "length ''<unknown>'' < length (strArea r)"
    using room by (auto simp: room_def)
  obtain c where c: "strcpy (numAreaCode r) ''<unknown>'' = Some c" "length c = length (numAreaCode r)"
    using strcpy_fits[OF len(1)] by blast
  obtain n where n: "strcpy (numNumber r) s = Some n" "length n = length (numNumber r)"
    using strcpy_fits[OF len(2)] by blast
  obtain a where a: "strcpy (strArea r) ''<unknown>'' = Some a" "length a = length (strArea r)"
    using strcpy_fits[OF len(3)] by blast
  have d0: "rd (s @ NUL # xs) 0 = Some (s ! 0)" using s(3) by (simp add: rd_def nth_append)
  have w: "wr c 0 (s ! 0) = Some (c[0 := s ! 0])" using c(2) len(1) by (auto simp: wr_def)
  let ?r = "\<lparr>numAreaCode = c[0 := s ! 0], numNumber = n, strArea = a\<rparr>"
  have "get_area_code G fs st name (s @ NUL # xs) r
      = search_loop G (s @ NUL # xs) (open_at content (nat (indizes st ! i))) ?r"
    using c(1) n(1) a(1) d0 w s(1,2) i f
    by (auto simp: get_area_code_def isdigit_eq[OF ok] Let_def rd_def[of "indizes st"])
  moreover have "same_size r ?r" using c(2) n(2) a(2) by (simp add: same_size_def)
  moreover have "s ! 0 \<noteq> NUL" using s by (metis length_greater_0_conv nth_mem)
  then have "holds ?r (s ! 0 # ''unknown>'') s ''<unknown>''"
    using c(1) cstr_strcpy[OF n(1) s(1)] cstr_strcpy[OF a(1)]
    by (auto simp: holds_def strcpy_Some_iff cstr_Some_iff)
  ultimately show ?thesis by blast
qed

lemma search_loop_spec:
  assumes "glib_ascii_ok G" and "room G s (map snd (pieces 255 q (drop q content))) r" and "NUL \<notin> set s"
    and "find_area G s (map snd (pieces 255 q (drop q content))) = Hit c n a"
  shows "\<exists>r'. search_loop G (s @ NUL # xs) (open_at content q) r = Some (0, r') \<and> holds r' c n a"
  using search_lines_spec[OF assms(1-3), of xs] assms(4)
  by (auto simp: search_loop_def while_fgets_open)

lemma indexed_lookup:
  assumes ok: "glib_ascii_ok G" and f: "fs name = Some content"
    and ps: "pieces 255 0 content = as @ (p, l) # bs" and p: "p \<noteq> 0"
    and as: "\<forall>x \<in> set as. \<not> hits (snd x) s \<and> \<not> beyond (snd x) s" and l: "hits l s"
    and s: "NUL \<notin> set s" and room: "room G s (map snd (pieces 255 0 content)) r"
  shows "\<exists>st r'. ci_read_area_codes_from_file G fs (Some name) ci_init_area_codes = Some (0, st) \<and>
    ci_get_area_code G fs st (Some (s @ NUL # xs)) (Some r) = Some (0, Some r') \<and>
    holds r' (code_of l) (drop (length (code_of l)) s) (area_of G l)"
proof -
  obtain st where st: "ci_read_area_codes_from_file G fs (Some name) ci_init_area_codes = Some (0, st)"
    "ac_filename st = Some name" "length (indizes st) = 100"
    "\<forall>i < 100. indizes st ! i = int (first_pos (pieces 255 0 content) i)"
    using read_area_codes_spec[of G fs name content ci_init_area_codes] ok f
    by (auto simp: ci_init_area_codes_def)
  have c: "coded l" using l by (simp add: hits_def coded_def)
  have ni: "number_index G (s @ NUL # xs) = Some (key l)" "dig (s ! 0)" "s \<noteq> []"
    using number_index_key[OF ok l, of xs] by auto
  define q where "q = first_pos (pieces 255 0 content) (key l)"
  have "\<forall>x \<in> set as \<union> set bs. fst x \<noteq> p"
    using pieces_pos_distinct[of 255 0 content] by (auto simp: ps)
  from first_pos_suffix[OF c p this] obtain as1 as2 l' cs where
    sp: "as = as1 @ as2" "as2 @ (p, l) # bs = (q, l') # cs" and q0: "q \<noteq> 0"
    unfolding q_def ps by blast
  have "pieces 255 0 content = as1 @ (q, l') # cs" using ps sp by simp
  from pieces_append[OF this] have pq: "pieces 255 q (drop q content) = as2 @ (p, l) # bs"
    using sp(2) by simp
  have ix: "indizes st ! key l = int q" "key l < length (indizes st)"
    using st(3,4) key_less[OF c] by (auto simp: q_def)
  have nz: "indizes st ! key l \<noteq> 0" using ix(1) q0 by simp
  obtain r1 where r1: "same_size r r1"
    "get_area_code G fs st name (s @ NUL # xs) r = search_loop G (s @ NUL # xs) (open_at content q) r1"
    using get_area_code_search[of G s "map snd (pieces 255 0 content)" r xs "key l" st fs name content]
      ok room s ni ix nz f by auto
  have "room G s (map snd (pieces 255 q (drop q content))) r1"
    by (rule room_subset[OF room _ r1(1)]) (auto simp: pq ps sp(1))
  moreover have "find_area G s (map snd (pieces 255 q (drop q content)))
      = Hit (code_of l) (drop (length (code_of l)) s) (area_of G l)"
    using find_area_hit[of "map snd as2" s l G "map snd bs"] as l by (auto simp: pq sp(1))
  ultimately obtain r' where "search_loop G (s @ NUL # xs) (open_at content q) r1 = Some (0, r')"
    "holds r' (code_of l) (drop (length (code_of l)) s) (area_of G l)"
    using search_loop_spec[OF ok _ s] by blast
  then show ?thesis using st(1,2) r1(2) by (auto simp: ci_get_area_code_def)
qed

section \<open>Sorted files\<close>

text \<open>
  The order the search relies on: the codes ascend, and none is a prefix of a later one.
\<close>

definition sorted_codes :: "string list \<Rightarrow> bool" where
  "sorted_codes ls \<longleftrightarrow>
     sorted_wrt (\<lambda>c d. c < d \<and> (3 \<le> length c \<longrightarrow> \<not> prefix c d))
       (filter (\<lambda>c. c \<noteq> []) (map code_of ls))"

lemma string_less_at: "x < y \<Longrightarrow> (p @ x # u :: string) < p @ y # v"
  by (induction p) auto

lemma string_less_append: "u \<noteq> [] \<Longrightarrow> (p :: string) < p @ u"
  by (induction p) (auto simp: neq_Nil_conv)

lemma char_less_value: "dig c \<Longrightarrow> dig d \<Longrightarrow> (of_char c :: int) < of_char d \<Longrightarrow> c < d"
  by (metis less_char_def of_nat_less_iff of_nat_of_char)

text \<open>An earlier code does not stop the search of a number with a later code.\<close>

lemma not_beyond_earlier:
  assumes lt: "code_of m < c" and c: "\<forall>x \<in> set c. dig x"
  shows "\<not> beyond m (c @ n)"
proof
  let ?k = "common m (c @ n)"
  assume b: "beyond m (c @ n)"
  have km: "?k < length m" "dig (m ! ?k)"
    using b value_at_ge[of "c @ n" "common m (c @ n)"]
    by (auto simp: beyond_def value_at_def[of m] split: if_splits)
  then have kc: "?k < length (code_of m)"
    using common_code_le[of m "c @ n"] nth_code_end[of m] by (cases "?k = length (code_of m)") auto
  have pre: "take ?k (code_of m) = take ?k (c @ n)"
  proof -
    have "code_of m = take (length (code_of m)) m"
      unfolding code_of_def by (rule takeWhile_eq_take)
    then have "take ?k (code_of m) = take ?k m"
      using kc by (metis less_imp_le_nat min.absorb1 take_take)
    then show ?thesis by (rule trans) (rule common_take)
  qed
  have cm: "code_of m = take ?k (c @ n) @ m ! ?k # drop (Suc ?k) (code_of m)"
    using kc pre by (metis id_take_nth_drop code_of_def takeWhile_nth)
  show False
  proof (cases "?k < length c")
    case True
    have d: "dig (c ! ?k)" using c True by simp
    have "(of_char (c ! ?k) :: int) < of_char (m ! ?k)"
      using b km True d by (auto simp: beyond_def value_at_def nth_append)
    then have "c ! ?k < m ! ?k" by (rule char_less_value[OF d km(2)])
    then have "take ?k c @ c ! ?k # drop (Suc ?k) c < take ?k c @ m ! ?k # drop (Suc ?k) (code_of m)"
      by (rule string_less_at)
    then have "c < code_of m" using cm True by (simp add: id_take_nth_drop[symmetric])
    then show False using lt by simp
  next
    case False
    then have "code_of m = c @ (take (?k - length c) n @ m ! ?k # drop (Suc ?k) (code_of m))"
      using cm by simp
    then have "c < code_of m" using string_less_append[of "take (?k - length c) n @ m ! ?k # drop (Suc ?k) (code_of m)" c]
      by simp
    then show False using lt by simp
  qed
qed

lemma not_hits_earlier:
  assumes "code_of m < c" and "3 \<le> length (code_of m) \<longrightarrow> \<not> prefix (code_of m) c"
  shows "\<not> hits m (c @ n)"
proof
  assume "hits m (c @ n)"
  then have h: "3 \<le> length (code_of m)" "prefix (code_of m) (c @ n)" by (auto simp: hits_def)
  then have "prefix c (code_of m)" using assms(2) by (metis prefixI prefix_same_cases)
  then obtain u where "code_of m = c @ u" by (auto simp: prefix_def)
  then show False using assms(1) string_less_append[of u c] by (cases u) auto
qed

lemma uncoded_passes: "code_of m = [] \<Longrightarrow> \<not> hits m s \<and> \<not> beyond m s"
proof
  assume m: "code_of m = []"
  then show "\<not> hits m s" by (simp add: hits_def)
  have "common m s = 0" using common_code_le[of m s] m by simp
  moreover have "\<not> (0 < length m \<and> dig (m ! 0))" using m by (cases m) (auto simp: code_of_def)
  ultimately show "\<not> beyond m s"
    using value_at_ge[of s 0] by (auto simp: beyond_def value_at_def[of m])
qed

lemma sorted_passes:
  assumes "sorted_codes (as @ l # bs)" and "coded l" and "m \<in> set as"
  shows "\<not> hits m (code_of l @ n) \<and> \<not> beyond m (code_of l @ n)"
proof (cases "code_of m = []")
  case True
  then show ?thesis by (rule uncoded_passes)
next
  case False
  have "code_of l \<noteq> []" using assms(2) by (auto simp: coded_def)
  then have "code_of m < code_of l" "3 \<le> length (code_of m) \<longrightarrow> \<not> prefix (code_of m) (code_of l)"
    using assms(1,3) False by (auto simp: sorted_codes_def sorted_wrt_append)
  moreover have "\<forall>x \<in> set (code_of l). dig x" by (auto simp: code_of_def dest: set_takeWhileD)
  ultimately show ?thesis using not_beyond_earlier not_hits_earlier by blast
qed

section \<open>Properties\<close>

text \<open>What \<open>ci_area_codes\<close> documents for GLib's functions, as concrete functions.\<close>

definition ascii :: glib_ascii where
  "ascii = \<lparr>isdigit = (\<lambda>c. c \<in> set ''0123456789''),
     digit_value = (\<lambda>c. if c \<in> set ''0123456789'' then of_char c - 48 else - 1),
     isspace = (\<lambda>c. c \<in> set [CHR '' '', TAB, LF, CHR 0x0C, CHR 0x0D])\<rparr>"

lemma ascii_ok: "glib_ascii_ok ascii"
  by (simp add: glib_ascii_ok_def ascii_def)

lemma number_index_total:
  assumes ok: "glib_ascii_ok G" and len: "2 \<le> length (s @ xs)"
  shows "\<exists>i. number_index G (s @ NUL # xs) = Some i \<and> i < 100"
proof -
  let ?a = "s @ NUL # xs"
  have r: "rd ?a 1 = Some (?a ! 1)" "rd ?a 2 = Some (?a ! 2)" using len by (auto simp: rd_def)
  have v: "0 \<le> digit_value G c \<and> digit_value G c \<le> 9" if "dig c" for c
    using dig_value_nonneg[OF that] that by (simp add: digit_value_eq[OF ok])
  show ?thesis
    using r v[of "?a ! 1"] v[of "?a ! 2"]
    by (auto simp: number_index_def isdigit_eq[OF ok] nat_less_iff)
qed

lemma first_pos_lines:
  "set (map snd (pieces 255 (first_pos (pieces 255 0 content) i)
      (drop (first_pos (pieces 255 0 content) i) content))) \<subseteq> set (map snd (pieces 255 0 content))"
proof (cases "first_pos (pieces 255 0 content) i = 0")
  case True
  then show ?thesis by simp
next
  case False
  have "\<exists>as l bs. ps = as @ (first_pos ps i, l) # bs" if "first_pos ps i \<noteq> 0" for ps
    using that
  proof (induction ps)
    case (Cons x ps)
    obtain p m where x: "x = (p, m)" by (cases x)
    show ?case
    proof (cases "coded m \<and> key m = i \<and> p \<noteq> 0")
      case True
      then show ?thesis by (intro exI[of _ "[]"] exI[of _ m] exI[of _ ps]) (simp add: x)
    next
      case False
      then have e: "first_pos (x # ps) i = first_pos ps i" by (auto simp: x)
      then obtain as l bs where "ps = as @ (first_pos ps i, l) # bs" using Cons by auto
      then show ?thesis unfolding e by (metis append_Cons)
    qed
  qed simp
  from this[OF False] obtain as l bs where
    "pieces 255 0 content = as @ (first_pos (pieces 255 0 content) i, l) # bs" by blast
  from pieces_append[OF this] this show ?thesis by (metis map_append set_append sup_ge2 diff_zero)
qed

lemma get_area_code_unindexed:
  assumes ok: "glib_ascii_ok G" and room: "room G s ls r" and s: "NUL \<notin> set s" "dig (s ! 0)" "s \<noteq> []"
    and i: "number_index G (s @ NUL # xs) = Some i" "i < length (indizes st)"
      "\<not> (indizes st ! i \<noteq> 0 \<or> i = 0)" and f: "ac_filename st = Some name"
  shows "\<exists>r'. ci_get_area_code G fs st (Some (s @ NUL # xs)) (Some r) = Some (1, Some r') \<and>
    holds r' ''<unknown>'' s ''<unknown>''"
proof -
  have len: "length ''<unknown>'' < length (numAreaCode r)" "length s < length (numNumber r)"
    "length ''<unknown>'' < length (strArea r)"
    using room by (auto simp: room_def)
  obtain c where c: "strcpy (numAreaCode r) ''<unknown>'' = Some c" "length c = length (numAreaCode r)"
    using strcpy_fits[OF len(1)] by blast
  obtain n where n: "strcpy (numNumber r) s = Some n" using strcpy_fits[OF len(2)] by blast
  obtain a where a: "strcpy (strArea r) ''<unknown>'' = Some a" using strcpy_fits[OF len(3)] by blast
  have d0: "rd (s @ NUL # xs) 0 = Some (s ! 0)" using s(3) by (simp add: rd_def nth_append)
  have w: "wr c 0 (s ! 0) = Some (c[0 := s ! 0])" using c(2) len(1) by (auto simp: wr_def)
  have "length ''<unknown>'' < length (c[0 := s ! 0])" using c(2) len(1) by simp
  then obtain u where u: "strcpy (c[0 := s ! 0]) ''<unknown>'' = Some u" using strcpy_fits by blast
  then show ?thesis
    using c(1) n a d0 w s(1,2) i f cstr_strcpy[OF n s(1)] cstr_strcpy[OF a] cstr_strcpy[OF u]
    by (auto simp: ci_get_area_code_def get_area_code_def isdigit_eq[OF ok] Let_def
        rd_def[of "indizes st"] holds_def)
qed

text \<open>What the lookup of a number that starts with a digit comes to, from the list of lines.\<close>

lemma get_area_code_outcome:
  assumes ok: "glib_ascii_ok G" and room: "room G s ls r" and s: "NUL \<notin> set s" "dig (s ! 0)" "s \<noteq> []"
    and i: "number_index G (s @ NUL # xs) = Some i" "i < length (indizes st)"
      "indizes st ! i \<noteq> 0 \<or> i = 0"
    and f: "fs name = Some content" "ac_filename st = Some name"
    and ls: "set (map snd (pieces 255 (nat (indizes st ! i)) (drop (nat (indizes st ! i)) content))) \<subseteq> set ls"
  shows "\<exists>rc r'. ci_get_area_code G fs st (Some (s @ NUL # xs)) (Some r) = Some (rc, Some r') \<and>
    (case find_area G s (map snd (pieces 255 (nat (indizes st ! i)) (drop (nat (indizes st ! i)) content))) of
       Hit c n a \<Rightarrow> rc = 0 \<and> holds r' c n a
     | Past \<Rightarrow> rc = 1 \<and> holds r' ''<unknown>'' s ''<unknown>''
     | End \<Rightarrow> rc = 1 \<and> holds r' (s ! 0 # ''unknown>'') s ''<unknown>'')"
proof -
  let ?q = "nat (indizes st ! i)" and ?num = "s @ NUL # xs"
  let ?ps = "pieces 255 ?q (drop ?q content)"
  obtain r1 where r1: "same_size r r1" "holds r1 (s ! 0 # ''unknown>'') s ''<unknown>''"
    "get_area_code G fs st name ?num r = search_loop G ?num (open_at content ?q) r1"
    using get_area_code_search[of G s ls r xs i st fs name content] ok room s i f by auto
  have rm: "room G s (map snd ?ps) r1" by (rule room_subset[OF room ls r1(1)])
  note spec = search_lines_spec[OF ok rm s(1), of xs]
  show ?thesis
  proof (cases "find_area G s (map snd ?ps)")
    case (Hit c n a)
    then show ?thesis using spec r1(3) f(2)
      by (auto simp: ci_get_area_code_def search_loop_def while_fgets_open)
  next
    case Past
    then obtain r' where "run_lines (\<lambda>pos. search_line G ?num) ?ps r1 = Some (Inr (1, r'))"
      "strcpy (numAreaCode r1) ''<unknown>'' = Some (numAreaCode r')"
      "numNumber r' = numNumber r1" "strArea r' = strArea r1"
      using spec by auto
    then show ?thesis using Past r1(2,3) f(2) cstr_strcpy[of "numAreaCode r1" "''<unknown>''"]
      by (auto simp: ci_get_area_code_def search_loop_def while_fgets_open holds_def)
  next
    case End
    then show ?thesis using spec r1(2,3) f(2)
      by (auto simp: ci_get_area_code_def search_loop_def while_fgets_open)
  qed
qed


definition small_file :: string where
  "small_file = unlines [''0-int-  x'', ''0201  Essen'', ''02041 Bottrop'', ''089 M'']"

lemma small_file_pieces: "pieces 255 0 small_file
    = [(0, ''0-int-  x\<newline>''), (10, ''0201  Essen\<newline>''), (22, ''02041 Bottrop\<newline>''), (36, ''089 M\<newline>'')]"
  unfolding small_file_def by (subst pieces_unlines) simp_all

definition blank_result :: area_result where
  "blank_result = \<lparr>numAreaCode = replicate 16 NUL, numNumber = replicate 32 NUL, strArea = replicate 256 NUL\<rparr>"


text \<open>
  A number that runs out of lines, none of the lines from its index position on matching
  or stopping it, is not reported as unknown: the return value is 1, but the area code is
  left as the number's first digit in front of the rest of the text, as in 9unknown>.
\<close>

theorem area_code_end_of_file:
  assumes "glib_ascii_ok G" and "fs name = Some content" and "ac_filename st = Some name"
    and "NUL \<notin> set s" and "s \<noteq> []" and "dig (hd s)"
    and "number_index G (s @ NUL # xs) = Some i" and "i < length (indizes st)"
    and "indizes st ! i \<noteq> 0 \<or> i = 0" and "q = nat (indizes st ! i)"
    and "\<forall>l \<in> set (map snd (pieces 255 q (drop q content))). \<not> hits l s \<and> \<not> beyond l s"
    and "room G s (map snd (pieces 255 q (drop q content))) r"
  shows "\<exists>r'. ci_get_area_code G fs st (Some (s @ NUL # xs)) (Some r) = Some (1, Some r') \<and>
    holds r' (hd s # ''unknown>'') s ''<unknown>''"
proof -
  have "find_area G s ls = End" if "\<forall>l \<in> set ls. \<not> hits l s \<and> \<not> beyond l s" for ls
    using that by (induction ls) auto
  then have "find_area G s (map snd (pieces 255 q (drop q content))) = End" using assms(11) by blast
  then show ?thesis
    using get_area_code_outcome[where fs = fs and name = name, OF assms(1,12,4) _ assms(5,7,8,9,2,3)] assms(5,6,10)
    by (auto simp: hd_conv_nth)
qed

theorem area_code_end_of_file_witness:
  "\<exists>r'. ci_get_area_code ascii (\<lambda>_. Some small_file)
      \<lparr>indizes = replicate 100 0, ac_filename = Some ''f''\<rparr> (Some (''9'' @ NUL # [NUL])) (Some blank_result)
      = Some (1, Some r') \<and> holds r' (hd ''9'' # ''unknown>'') ''9'' ''<unknown>''"
  by (rule area_code_end_of_file[OF ascii_ok, where content = small_file and i = 0 and q = 0 and name = "''f''"])
     (simp_all add: small_file_pieces number_index_def rd_def ascii_def dig_def hits_def code_of_def
        beyond_def value_at_def room_def area_of_def blank_result_def)

lemma area_code_found:
  assumes "glib_ascii_ok G" and "fs name = Some content"
    and "ci_read_area_codes_from_file G fs (Some name) ci_init_area_codes = Some (0, st)"
    and "NUL \<notin> set s" and "s \<noteq> []" and "dig (hd s)" and "2 \<le> length (s @ xs)"
    and "room G s (map snd (pieces 255 0 content)) r"
  shows "\<exists>rc r'. ci_get_area_code G fs st (Some (s @ NUL # xs)) (Some r) = Some (rc, Some r') \<and>
    (if rc = 0 then \<exists>l n. l \<in> set (map snd (pieces 255 0 content)) \<and> 3 \<le> length (code_of l) \<and>
       s = code_of l @ n \<and> holds r' (code_of l) n (area_of G l) else rc = 1) \<and>
    (\<exists>c n a. holds r' c n a)"
proof -
  obtain st' where st': "st = st'" "ac_filename st = Some name" "length (indizes st) = 100"
    "\<And>i. i < 100 \<Longrightarrow> indizes st ! i = int (first_pos (pieces 255 0 content) i)"
    using read_area_codes_spec[of G fs name content ci_init_area_codes] assms(1-3)
    by (auto simp: ci_init_area_codes_def)
  obtain i where i: "number_index G (s @ NUL # xs) = Some i" "i < 100"
    using number_index_total[OF assms(1,7)] by blast
  define q where "q = first_pos (pieces 255 0 content) i"
  have q: "nat (indizes st ! i) = q" using st'(4)[OF i(2)] by (simp add: q_def)
  have sub: "set (map snd (pieces 255 q (drop q content))) \<subseteq> set (map snd (pieces 255 0 content))"
    unfolding q_def by (rule first_pos_lines)
  show ?thesis
  proof (cases "indizes st ! i \<noteq> 0 \<or> i = 0")
    case True
    from get_area_code_outcome[where fs = fs and name = name, OF assms(1,8,4) _ assms(5) i(1) _ True assms(2) st'(2)] sub
    obtain rc r' where r: "ci_get_area_code G fs st (Some (s @ NUL # xs)) (Some r) = Some (rc, Some r')"
      "case find_area G s (map snd (pieces 255 q (drop q content))) of
         Hit c n a \<Rightarrow> rc = 0 \<and> holds r' c n a
       | Past \<Rightarrow> rc = 1 \<and> holds r' ''<unknown>'' s ''<unknown>''
       | End \<Rightarrow> rc = 1 \<and> holds r' (s ! 0 # ''unknown>'') s ''<unknown>''"
      using assms(5,6) i(2) st'(3) by (auto simp: q hd_conv_nth)
    show ?thesis
    proof (cases "find_area G s (map snd (pieces 255 q (drop q content)))")
      case (Hit c n a)
      from find_area_HitD[OF this] obtain as l bs where
        eq: "map snd (pieces 255 q (drop q content)) = as @ l # bs" and
        l: "hits l s" "c = code_of l" "n = drop (length (code_of l)) s" "a = area_of G l"
        by blast
      have mem: "l \<in> set (map snd (pieces 255 0 content))"
        by (rule subsetD[OF sub]) (simp add: eq del: set_map map_map)
      have "s = code_of l @ n" "3 \<le> length (code_of l)"
        using l(1,3) by (auto simp: hits_def prefix_def)
      then show ?thesis using r Hit l mem by auto
    qed (use r in auto)
  next
    case False
    then have "\<exists>r'. ci_get_area_code G fs st (Some (s @ NUL # xs)) (Some r) = Some (1, Some r') \<and>
        holds r' ''<unknown>'' s ''<unknown>''"
      by (intro get_area_code_unindexed[OF assms(1,8,4) _ assms(5) i(1) _ _ st'(2)])
         (use assms(5,6) i(2) st'(3) in \<open>auto simp: hd_conv_nth\<close>)
    then obtain r' where "ci_get_area_code G fs st (Some (s @ NUL # xs)) (Some r) = Some (1, Some r')"
      "holds r' ''<unknown>'' s ''<unknown>''" by blast
    then show ?thesis by (intro exI[of _ 1] exI[of _ r']) auto
  qed
qed

section \<open>Sizes\<close>

text \<open>The arrays keep their lengths, and a number without a leading digit is not searched.\<close>

lemma wr_length: "wr a i x = Some b \<Longrightarrow> length b = length a"
  by (auto simp: wr_def split: if_splits)

lemma strcpy_length: "strcpy a s = Some b \<Longrightarrow> length b = length a"
  by (auto simp: strcpy_def dest: put_length)

lemma copy_while_length: "copy_while P src i dst j = Some (d, i', j') \<Longrightarrow> length d = length dst"
proof (induction P src i dst j rule: copy_while.induct)
  case (1 P src i dst j)
  then show ?case
    by (subst (asm) (2) copy_while.simps) (auto split: if_splits option.splits dest: wr_length)
qed

lemma for_n_length:
  "(\<And>j a b. f j a = Some b \<Longrightarrow> length b = length a) \<Longrightarrow> for_n i k f a = Some b \<Longrightarrow> length b = length a"
  by (induction k arbitrary: i a) (fastforce simp: bind_eq_Some_conv)+

lemma store_match_sizes:
  assumes "store_match G buffer num i r = Some r'"
  shows "same_size r r'"
proof -
  have l: "for_n 0 i (\<lambda>j a. do { c \<leftarrow> rd num j; wr a j c }) a = Some b \<Longrightarrow> length b = length a" for a b
    by (rule for_n_length) (auto simp: bind_eq_Some_conv dest: wr_length)
  show ?thesis
    using assms
    by (auto simp: store_match_def same_size_def bind_eq_Some_conv
        dest!: wr_length copy_while_length l)
qed

lemma search_line_sizes:
  "search_line G num l r = Some x \<Longrightarrow> same_size r (case x of Inl r' \<Rightarrow> r' | Inr (rc, r') \<Rightarrow> r')"
  by (auto simp: search_line_def Let_def bind_eq_Some_conv split: if_splits
      dest!: store_match_sizes strcpy_length) (auto simp: same_size_def)

lemma same_size_trans: "same_size a b \<Longrightarrow> same_size b c \<Longrightarrow> same_size a c"
  by (simp add: same_size_def)

lemma same_size_refl: "same_size a a"
  by (simp add: same_size_def)

lemma run_lines_sizes:
  "run_lines (\<lambda>pos. search_line G num) ps r = Some x \<Longrightarrow>
     same_size r (case x of Inl r' \<Rightarrow> r' | Inr (rc, r') \<Rightarrow> r')"
proof (induction ps arbitrary: r)
  case Nil
  then show ?case by (auto simp: same_size_refl)
next
  case (Cons p ps)
  obtain y where y: "search_line G num (snd p) r = Some y" using Cons(2) by (cases p) (auto split: option.splits)
  show ?case
  proof (cases y)
    case (Inl r1)
    then have "run_lines (\<lambda>pos. search_line G num) ps r1 = Some x" using Cons(2) y by (cases p) simp
    from Cons(1)[OF this] search_line_sizes[OF y] Inl show ?thesis by (auto intro: same_size_trans)
  next
    case (Inr res)
    then have "x = Inr res" using Cons(2) y by (cases p) simp
    then show ?thesis using search_line_sizes[OF y] Inr by simp
  qed
qed

lemma search_loop_sizes: "search_loop G num (open_at c q) r = Some (rc, r') \<Longrightarrow> same_size r r'"
  using run_lines_sizes[of G num "pieces 255 q (drop q c)" r]
  by (auto simp: search_loop_def while_fgets_open split: option.splits sum.splits)

lemma get_area_code_sizes:
  assumes "get_area_code G fs st name num r = Some (rc, r')"
  shows "same_size r r'"
proof -
  obtain code s number area c0 where 1: "strcpy (numAreaCode r) ''<unknown>'' = Some code"
    "strcpy (numNumber r) s = Some number" "strcpy (strArea r) ''<unknown>'' = Some area"
    and 2: "(if \<not> isdigit G c0 then Some (1, \<lparr>numAreaCode = code, numNumber = number, strArea = area\<rparr>)
     else do {
       code' \<leftarrow> wr code 0 c0;
       i \<leftarrow> number_index G num;
       start \<leftarrow> rd (indizes st) i;
       if 0 < i \<and> start = 0
       then do { code' \<leftarrow> strcpy code' ''<unknown>'';
         Some (1, \<lparr>numAreaCode = code, numNumber = number, strArea = area\<rparr>\<lparr>numAreaCode := code'\<rparr>) }
       else (case fs name of
           None \<Rightarrow> Some (1, \<lparr>numAreaCode = code, numNumber = number, strArea = area\<rparr>\<lparr>numAreaCode := code'\<rparr>)
         | Some content \<Rightarrow> search_loop G num (open_at content (nat start))
             (\<lparr>numAreaCode = code, numNumber = number, strArea = area\<rparr>\<lparr>numAreaCode := code'\<rparr>)) }) = Some (rc, r')"
    using assms unfolding get_area_code_def Let_def bind_eq_Some_conv by blast
  let ?r0 = "\<lparr>numAreaCode = code, numNumber = number, strArea = area\<rparr>"
  let ?r = "\<lambda>c. ?r0\<lparr>numAreaCode := c\<rparr>"
  have s: "length c = length code \<Longrightarrow> same_size r (?r c)" for c
    using 1 by (auto simp: same_size_def dest!: strcpy_length)
  show ?thesis
  proof (cases "isdigit G c0")
    case False
    then show ?thesis using 2 s[of code] by auto
  next
    case True
    then obtain c and i :: nat and start where c: "wr code 0 c0 = Some c" and
      3: "(if 0 < i \<and> start = 0 then do { c \<leftarrow> strcpy c ''<unknown>''; Some (1, ?r c) }
        else (case fs name of None \<Rightarrow> Some (1, ?r c)
          | Some content \<Rightarrow> search_loop G num (open_at content (nat start)) (?r c))) = Some (rc, r')"
      using 2 by (simp only: True simp_thms if_False bind_eq_Some_conv) blast
    have l: "length c = length code" using c by (rule wr_length)
    show ?thesis
      using 3 s[OF l] s[OF trans[OF strcpy_length l]] search_loop_sizes[of G num _ _ "?r c" rc r']
      by (auto simp: bind_eq_Some_conv split: if_splits option.splits intro: same_size_trans)
  qed
qed

text \<open>
  The call as the program makes it: a number in an array of 32, results of 16, 32 and 256, and
  lines whose codes are shorter than 16 characters. It is safe for every text in the
  number's array, empty or with other characters.
\<close>

definition calls_fit :: "area_result \<Rightarrow> bool" where
  "calls_fit r \<longleftrightarrow> length (numAreaCode r) = 16 \<and> length (numNumber r) = 32 \<and> length (strArea r) = 256"

definition codes_fit :: "string \<Rightarrow> bool" where
  "codes_fit content \<longleftrightarrow> (\<forall>l \<in> set (map snd (pieces 255 0 content)). length (code_of l) < 16)"

definition texts :: "area_result \<Rightarrow> bool" where
  "texts r \<longleftrightarrow> calls_fit r \<and> NUL \<in> set (numAreaCode r) \<and> NUL \<in> set (numNumber r) \<and> NUL \<in> set (strArea r)"

lemma calls_room:
  assumes "codes_fit content" and "calls_fit r" and "length s < 32"
  shows "room G s (map snd (pieces 255 0 content)) r"
proof -
  have "length (area_of G l) < 256" if "l \<in> set (map snd (pieces 255 0 content))" for l
  proof -
    have "length l \<le> 255" using that pieces_nonempty by fastforce
    moreover have "length (area_of G l) \<le> length l"
      unfolding area_of_def by (intro order_trans[OF length_takeWhile_le] order_trans[OF length_dropWhile_le] length_dropWhile_le)
    ultimately show ?thesis by simp
  qed
  then show ?thesis using assms by (simp add: room_def calls_fit_def codes_fit_def)
qed

lemma holds_texts: "holds r' c n a \<Longrightarrow> same_size r r' \<Longrightarrow> calls_fit r \<Longrightarrow> texts r'"
  by (auto simp: holds_def texts_def calls_fit_def same_size_def cstr_def split: if_splits)

lemma area_code_undialled:
  assumes "glib_ascii_ok G" and "ac_filename st = Some name" and "NUL \<notin> set s" and "\<not> dig (hd (s @ [NUL]))"
    and "calls_fit r" and "length s < 32"
  shows "\<exists>r'. ci_get_area_code G fs st (Some (s @ NUL # xs)) (Some r) = Some (1, Some r') \<and>
    holds r' ''<unknown>'' s ''<unknown>''"
proof -
  have len: "length ''<unknown>'' < length (numAreaCode r)" "length s < length (numNumber r)"
    "length ''<unknown>'' < length (strArea r)" using assms(5,6) by (simp_all add: calls_fit_def)
  obtain c n a where c: "strcpy (numAreaCode r) ''<unknown>'' = Some c" "strcpy (numNumber r) s = Some n"
    "strcpy (strArea r) ''<unknown>'' = Some a" using strcpy_fits[OF len(1)] strcpy_fits[OF len(2)] strcpy_fits[OF len(3)] by blast
  have h: "cstr c = Some ''<unknown>''" "cstr n = Some s" "cstr a = Some ''<unknown>''"
    using c cstr_strcpy assms(3) by (auto simp del: cstr_string intro!: cstr_strcpy)
  have "rd (s @ NUL # xs) 0 = Some (hd (s @ [NUL]))" by (cases s) (simp_all add: rd_def)
  then show ?thesis
    using c h assms(1-4) by (simp add: ci_get_area_code_def get_area_code_def isdigit_eq holds_def)
qed

definition areas_ok :: "glib_ascii \<Rightarrow> (string \<Rightarrow> string option) \<Rightarrow> areacodes \<Rightarrow> bool" where
  "areas_ok G fs st \<longleftrightarrow> ac_filename st = None \<or>
     (\<exists>name content. fs name = Some content \<and> codes_fit content \<and>
        ci_read_area_codes_from_file G fs (Some name) ci_init_area_codes = Some (0, st))"

lemma area_code_always:
  assumes ok: "glib_ascii_ok G" and st: "areas_ok G fs st" and a: "length a = 32" "NUL \<in> set a"
    and r: "texts r"
  shows "\<exists>rc r'. ci_get_area_code G fs st (Some a) (Some r) = Some (rc, Some r') \<and> texts r'"
proof (cases "ac_filename st")
  case None
  then show ?thesis using r by (simp add: ci_get_area_code_def)
next
  case (Some name)
  then obtain name' content where f: "fs name' = Some content" "codes_fit content"
    "ci_read_area_codes_from_file G fs (Some name') ci_init_area_codes = Some (0, st)"
    using st by (auto simp: areas_ok_def)
  have "\<exists>s. cstr a = Some s" using a(2) by (simp add: cstr_def)
  then obtain s xs where s: "a = s @ NUL # xs" "NUL \<notin> set s" by (auto simp: cstr_Some_iff)
  have l: "length s < 32" "2 \<le> length (s @ xs)" "calls_fit r" using s a r by (auto simp: texts_def)
  have "\<exists>rc r' c n a'. ci_get_area_code G fs st (Some a) (Some r) = Some (rc, Some r') \<and> holds r' c n a'"
  proof (cases "s \<noteq> [] \<and> dig (hd s)")
    case True
    then show ?thesis
      using area_code_found[OF ok f(1,3) s(2) _ _ l(2) calls_room[OF f(2) l(3,1)]] s(1) by blast
  next
    case False
    then have "\<not> dig (hd (s @ [NUL]))" by (cases s) simp_all
    from area_code_undialled[OF ok Some s(2) this l(3,1)] s(1) show ?thesis by blast
  qed
  then obtain rc r' c n a' where r': "ci_get_area_code G fs st (Some a) (Some r) = Some (rc, Some r')"
    "holds r' c n a'" by blast
  then have "same_size r r'"
    using get_area_code_sizes[of G fs st name a r rc r'] Some by (auto simp: ci_get_area_code_def)
  then show ?thesis using holds_texts[OF r'(2) _ l(3)] r'(1) by blast
qed

text \<open>
  C34: The area-code lookup is sound on every file. For a number of at least one digit and
  room in the three arrays, it returns 0 or 1 without leaving an array, and when it returns 0
  the area code is the code of a line of the file, of at least three digits, the area is that
  line's text, and the code followed by the local number is the number.
\<close>

theorem area_code_sound:
  assumes "glib_ascii_ok G" and "fs name = Some content"
    and "ci_read_area_codes_from_file G fs (Some name) ci_init_area_codes = Some (0, st)"
    and "NUL \<notin> set s" and "s \<noteq> []" and "dig (hd s)" and "2 \<le> length (s @ xs)"
    and "room G s (map snd (pieces 255 0 content)) r"
  shows "\<exists>rc r'. ci_get_area_code G fs st (Some (s @ NUL # xs)) (Some r) = Some (rc, Some r') \<and>
    (if rc = 0 then \<exists>l n. l \<in> set (map snd (pieces 255 0 content)) \<and> 3 \<le> length (code_of l) \<and>
       s = code_of l @ n \<and> holds r' (code_of l) n (area_of G l) else rc = 1)"
  using area_code_found[where fs = fs and name = name, OF assms] by blast

theorem area_code_sound_witness:
  "\<exists>st rc r'. ci_read_area_codes_from_file ascii (\<lambda>_. Some small_file) (Some ''f'') ci_init_area_codes = Some (0, st) \<and>
    ci_get_area_code ascii (\<lambda>_. Some small_file) st (Some (''089123'' @ NUL # [])) (Some blank_result)
      = Some (rc, Some r') \<and>
    (if rc = 0 then \<exists>l n. l \<in> set (map snd (pieces 255 0 small_file)) \<and> 3 \<le> length (code_of l) \<and>
       ''089123'' = code_of l @ n \<and> holds r' (code_of l) n (area_of ascii l) else rc = 1)"
proof -
  obtain st where st: "ci_read_area_codes_from_file ascii (\<lambda>_. Some small_file) (Some ''f'') ci_init_area_codes
      = Some (0, st)"
    using read_area_codes_spec[OF ascii_ok, of "\<lambda>_. Some small_file" "''f''" small_file ci_init_area_codes]
    by (auto simp: ci_init_area_codes_def)
  have r: "room ascii ''089123'' (map snd (pieces 255 0 small_file)) blank_result"
    by (simp add: small_file_pieces room_def area_of_def code_of_def dig_def blank_result_def ascii_def)
  show ?thesis
    by (rule exI[of _ st], use area_code_sound[OF ascii_ok _ st, of small_file "''089123''" "[]" blank_result] st r
        in \<open>simp add: dig_def\<close>)
qed

definition shipped_part :: string where
  "shipped_part = unlines [''0-int-  internal'', ''09090   Rain Lech'', ''09080   Harburg Schwab'']"

lemma shipped_pieces: "pieces 255 0 shipped_part
    = [(0, ''0-int-  internal\<newline>''), (17, ''09090   Rain Lech\<newline>''), (35, ''09080   Harburg Schwab\<newline>'')]"
  unfolding shipped_part_def by (subst pieces_unlines) simp_all

text \<open>
  The file shipped with the program is not sorted: it lists 09090 in front of 09080. The
  search for a number of the second code stops at the first, and the lookup reports it as unknown.
\<close>

theorem area_code_unsorted:
  "\<exists>st r'. ci_read_area_codes_from_file ascii (\<lambda>_. Some shipped_part) (Some ''vorwahl.dat'') ci_init_area_codes
      = Some (0, st) \<and>
    ci_get_area_code ascii (\<lambda>_. Some shipped_part) st (Some (''0908012'' @ NUL # [])) (Some blank_result)
      = Some (1, Some r') \<and> holds r' ''<unknown>'' ''0908012'' ''<unknown>''"
proof -
  obtain st where st: "ci_read_area_codes_from_file ascii (\<lambda>_. Some shipped_part) (Some ''vorwahl.dat'')
      ci_init_area_codes = Some (0, st)" "ac_filename st = Some ''vorwahl.dat''" "length (indizes st) = 100"
    "\<forall>i < 100. indizes st ! i = int (first_pos (pieces 255 0 shipped_part) i)"
    using read_area_codes_spec[OF ascii_ok, of "\<lambda>_. Some shipped_part" "''vorwahl.dat''" shipped_part ci_init_area_codes]
    by (auto simp: ci_init_area_codes_def)
  have i: "indizes st ! 90 = 17"
    using st(4) by (simp add: shipped_pieces coded_def code_of_def dig_def key_def value_at_def)
  have "pieces 255 17 (drop 17 shipped_part)
      = [(17, ''09090   Rain Lech\<newline>''), (35, ''09080   Harburg Schwab\<newline>'')]"
    using pieces_append[of 255 0 shipped_part "[(0, ''0-int-  internal\<newline>'')]" 17] by (simp add: shipped_pieces)
  then show ?thesis
    using get_area_code_outcome[OF ascii_ok, of "''0908012''" "map snd (pieces 255 0 shipped_part)"
        blank_result "[]" 90 st "\<lambda>_. Some shipped_part" "''vorwahl.dat''" shipped_part] st(1-3) i
    by (simp add: shipped_pieces number_index_def rd_def ascii_def room_def area_of_def code_of_def
        dig_def blank_result_def hits_def beyond_def value_at_def)
qed

end
