(* ===== verification/Db.thy ===== *)
theory Db
  imports CIData Areacodes Notification "HOL-Library.Multiset"
begin

text \<open>
  The call database of \<open>dbhandler.c\<close>: calls are recorded with a timestamp made from their date and
  time, listed for a client together with area codes and the names of the client's own
  directory, and the directory is kept. The two tables are lists of rows and the SQL of the
  source is written as operations on them; the order that SQLite gives to the rows of an ordered
  query, LIKE, \<open>mktime\<close> and \<open>strftime\<close> are parameters.
\<close>

section \<open>Tables\<close>

record call_row =
  call_id :: int
  call_number :: "string option"
  call_name :: "string option"
  call_time :: int
  call_msn :: "string option"
  call_alias :: "string option"
  call_service :: "string option"
  call_fix :: "string option"

record caller_row =
  clientid :: int
  caller_number :: "string option"
  caller_name :: "string option"

text \<open>
  \<open>insert_stepped\<close>: the statement that inserts a call has been stepped and not been reset. SQLite
  refuses to bind parameters of such a statement.
\<close>

record database =
  cidata :: "call_row list"
  cicaller :: "caller_row list"
  insert_stepped :: bool

definition new_database :: database where
  "new_database = \<lparr>cidata = [], cicaller = [], insert_stepped = False\<rparr>"

record CIDbCall =
  db_id :: int
  db_data :: CIDataSet

record CIDbCaller =
  dbc_number :: "string option"
  dbc_name :: "string option"

section \<open>Dates and numbers\<close>

text \<open>
  One component of a date: the characters up to the separator are copied to \<open>buf[64]\<close> and read by
  \<open>atoi\<close>; the result is the number and the position behind the separator.
\<close>

definition component :: "char \<Rightarrow> char list \<Rightarrow> nat \<Rightarrow> char list \<Rightarrow> (int \<times> nat \<times> char list) option" where
  "component sep a j buf = do {
     (buf, j, i) \<leftarrow> copy_while (\<lambda>c. c \<noteq> sep) a j buf 0;
     buf \<leftarrow> wr buf i NUL;
     s \<leftarrow> cstr buf;
     n \<leftarrow> atoi s;
     Some (n, Suc j, buf) }"

definition parse_date :: "char list \<Rightarrow> char list \<Rightarrow> tm \<Rightarrow> (char list \<times> tm) option" where
  "parse_date date buf t = do {
     (y, j, buf) \<leftarrow> component CHR ''-'' date 0 buf;
     (m, j, buf) \<leftarrow> component CHR ''-'' date j buf;
     (d, j, buf) \<leftarrow> component NUL date j buf;
     Some (buf, t\<lparr>tm_year := y - 1900, tm_mon := m - 1, tm_mday := d\<rparr>) }"

definition parse_time :: "char list \<Rightarrow> char list \<Rightarrow> tm \<Rightarrow> (char list \<times> tm) option" where
  "parse_time time buf t = do {
     (h, j, buf) \<leftarrow> component CHR '':'' time 0 buf;
     (m, j, buf) \<leftarrow> component CHR '':'' time j buf;
     (s, j, buf) \<leftarrow> component NUL time j buf;
     Some (buf, t\<lparr>tm_hour := h, tm_min := m, tm_sec := s\<rparr>) }"

definition parse_datetime ::
  "(tm \<Rightarrow> int) \<Rightarrow> char list option \<Rightarrow> char list option \<Rightarrow> 64 word option" where
  "parse_datetime mktime date time = do {
     (buf, t) \<leftarrow> (case date of None \<Rightarrow> Some (replicate 64 NUL, zero_tm)
                    | Some d \<Rightarrow> parse_date d (replicate 64 NUL) zero_tm);
     (buf, t) \<leftarrow> (case time of None \<Rightarrow> Some (buf, t) | Some a \<Rightarrow> parse_time a buf t);
     Some (of_int (mktime (t\<lparr>tm_isdst := - 1\<rparr>))) }"

function number_loop :: "glib_ascii \<Rightarrow> char list \<Rightarrow> nat \<Rightarrow> bool option" where
  "number_loop G a j =
     (if j < length a
      then if a ! j = NUL then Some True
        else if \<not> isdigit G (a ! j) then Some False
        else number_loop G a (Suc j)
      else None)"
  by pat_completeness auto

termination
  by (relation "measure (\<lambda>(G, a, j). length a - j)") auto

declare number_loop.simps [simp del]

definition is_valid_number :: "glib_ascii \<Rightarrow> char list option \<Rightarrow> bool option" where
  "is_valid_number G num =
     (case num of
        None \<Rightarrow> Some False
      | Some a \<Rightarrow> do { c \<leftarrow> rd a 0; if c = NUL then Some False else number_loop G a 0 })"

section \<open>Recording calls\<close>

text \<open>
  What SQLite answers to the statements: \<open>binds\<close> tells whether the parameter at a position can be
  bound, \<open>steps\<close> whether the insertion succeeds. The timestamp is bound as an int. The primary
  key of a new row is one more than the largest.
\<close>

record insert_env =
  binds :: "nat \<Rightarrow> bool"
  steps :: bool
  mktime :: "tm \<Rightarrow> int"

definition next_id :: "call_row list \<Rightarrow> int" where
  "next_id rows = 1 + foldr (\<lambda>r m. max (call_id r) m) rows 0"

definition insert_call :: "bool \<Rightarrow> call_row \<Rightarrow> database \<Rightarrow> int \<times> database" where
  "insert_call ok row db =
     (if ok then (0, db\<lparr>cidata := cidata db @ [row\<lparr>call_id := next_id (cidata db)\<rparr>]\<rparr>)
      else (1, db\<lparr>insert_stepped := True\<rparr>))"

definition dbhandler_add_data :: "insert_env \<Rightarrow> CIDataSet option \<Rightarrow> database \<Rightarrow> (int \<times> database) option" where
  "dbhandler_add_data E data db =
     (let bound = (\<lambda>i k. if binds E i \<and> \<not> insert_stepped db then k else Some (1, db)) in
      case data of
        None \<Rightarrow> Some (1, db)
      | Some d \<Rightarrow> do {
          n \<leftarrow> cstr (cidsNumberComplete d);
          bound 1 (do {
          name \<leftarrow> cstr (cidsName d);
          bound 2 (do {
          t \<leftarrow> parse_datetime (mktime E) (Some (cidsDate d)) (Some (cidsTime d));
          bound 3 (do {
          m \<leftarrow> cstr (cidsMSN d);
          bound 4 (do {
          al \<leftarrow> cstr (cidsAlias d);
          bound 5 (do {
          service \<leftarrow> cstr (cidsService d);
          bound 6 (do {
          fx \<leftarrow> cstr (cidsFix d);
          bound 7 (Some (insert_call (steps E)
            \<lparr>call_id = 0, call_number = Some n, call_name = Some name,
             call_time = sint (ucast t :: 32 word), call_msn = Some m, call_alias = Some al,
             call_service = Some service, call_fix = Some fx\<rparr> db)) }) }) }) }) }) }) })"

text \<open>The count is read as an int.\<close>

definition dbhandler_get_num_calls :: "bool \<Rightarrow> database \<Rightarrow> 64 word" where
  "dbhandler_get_num_calls ok db =
     (if ok then scast (of_nat (length (cidata db)) :: 32 word) else 0)"

section \<open>The directory of callers\<close>

definition caller_is :: "int \<Rightarrow> string \<Rightarrow> caller_row \<Rightarrow> bool" where
  "caller_is user n r \<longleftrightarrow> clientid r = user \<and> caller_number r = Some n"

text \<open>\<open>ok\<close>: the statement is executed.\<close>

definition dbhandler_get_caller :: "glib_ascii \<Rightarrow> bool \<Rightarrow> database \<Rightarrow> int \<Rightarrow> char list option \<Rightarrow>
    char list option \<Rightarrow> (int \<times> char list option) option" where
  "dbhandler_get_caller G ok db user num name = do {
     v \<leftarrow> is_valid_number G num;
     if \<not> v then Some (1, name)
     else do {
       a \<leftarrow> num;
       n \<leftarrow> cstr a;
       (case (if ok then find (caller_is user n) (cicaller db) else None) of
          None \<Rightarrow> Some (1, name)
        | Some r \<Rightarrow>
            (case (caller_name r, name) of
               (Some s, Some b) \<Rightarrow> do { b \<leftarrow> strlcpy b s 256; Some (0, Some b) }
             | _ \<Rightarrow> Some (0, name))) } }"

definition dbhandler_add_caller :: "glib_ascii \<Rightarrow> bool \<Rightarrow> bool \<Rightarrow> database \<Rightarrow> int \<Rightarrow> char list option \<Rightarrow>
    char list option \<Rightarrow> (int \<times> database) option" where
  "dbhandler_add_caller G update_ok insert_ok db user num name =
     (case (num, name) of
        (Some a, Some b) \<Rightarrow> do {
          v \<leftarrow> is_valid_number G (Some a);
          if \<not> v then Some (1, db)
          else do {
            n \<leftarrow> cstr a;
            m \<leftarrow> cstr b;
            if \<not> update_ok then Some (1, db)
            else if list_ex (caller_is user n) (cicaller db)
            then Some (0, db\<lparr>cicaller := map (\<lambda>r. if caller_is user n r then r\<lparr>caller_name := Some m\<rparr> else r)
                     (cicaller db)\<rparr>)
            else if insert_ok
            then Some (0, db\<lparr>cicaller := cicaller db @
                     [\<lparr>clientid = user, caller_number = Some n, caller_name = Some m\<rparr>]\<rparr>)
            else Some (1, db) } }
      | _ \<Rightarrow> Some (1, db))"

definition dbhandler_remove_caller :: "glib_ascii \<Rightarrow> bool \<Rightarrow> database \<Rightarrow> int \<Rightarrow> char list option \<Rightarrow>
    char list option \<Rightarrow> (int \<times> database) option" where
  "dbhandler_remove_caller G ok db user num name = do {
     v \<leftarrow> is_valid_number G num;
     if \<not> v then Some (1, db)
     else do {
       a \<leftarrow> num;
       n \<leftarrow> cstr a;
       m \<leftarrow> (case name of None \<Rightarrow> Some None | Some b \<Rightarrow> map_option Some (cstr b));
       Some (if ok
         then (0, db\<lparr>cicaller := filter (\<lambda>r. \<not> (caller_is user n r \<and> m \<noteq> None \<and> caller_name r = m)) (cicaller db)\<rparr>)
         else (1, db)) } }"

text \<open>
  The callers of a client; \<open>like\<close> is SQL's LIKE with the filter between two wildcards, NULL is like
  nothing. \<open>done\<close> is false when the statement cannot be prepared; the rows come in the order of the
  table, as many as \<open>got\<close> says before a step fails.
\<close>

definition dbhandler_get_callers :: "(string \<Rightarrow> string \<Rightarrow> bool) \<Rightarrow> bool \<Rightarrow> nat option \<Rightarrow> database \<Rightarrow> int \<Rightarrow>
    char list option \<Rightarrow> CIDbCaller list option" where
  "dbhandler_get_callers like prepared got db user filt = do {
     f \<leftarrow> (case filt of None \<Rightarrow> Some [] | Some a \<Rightarrow> cstr a);
     let hit = (\<lambda>c. case c of None \<Rightarrow> False | Some s \<Rightarrow> like f s);
         rows = filter (\<lambda>r. clientid r = user \<and>
           (f \<noteq> [] \<longrightarrow> hit (caller_name r) \<or> hit (caller_number r))) (cicaller db);
         rows = (case got of None \<Rightarrow> rows | Some k \<Rightarrow> take k rows)
     in Some (if prepared
          then rev (map (\<lambda>r. \<lparr>dbc_number = caller_number r, dbc_name = caller_name r\<rparr>) rows)
          else []) }"

section \<open>Listing calls\<close>

text \<open>
  \<open>order by timestamp desc limit ?,?\<close>: \<open>ordered\<close> is the order SQLite chooses, a negative count is no
  limit, a negative offset is 0. \<open>date_of\<close> and \<open>time_of\<close> are \<open>strftime\<close> of the local time.
\<close>

definition sql_limit :: "int \<Rightarrow> int \<Rightarrow> 'a list \<Rightarrow> 'a list" where
  "sql_limit offset cnt rows =
     (if cnt < 0 then drop (nat offset) rows else take (nat cnt) (drop (nat offset) rows))"

record list_env =
  l_glib :: glib_ascii
  l_files :: "string \<Rightarrow> string option"
  l_areas :: areacodes
  ordered :: "call_row list \<Rightarrow> call_row list"
  finished :: bool
  date_of :: "int \<Rightarrow> string"
  time_of :: "int \<Rightarrow> string"
  names_ok :: bool

definition copy_text :: "string option \<Rightarrow> char list \<Rightarrow> nat \<Rightarrow> char list option" where
  "copy_text col a n = (case col of None \<Rightarrow> Some a | Some s \<Rightarrow> strlcpy a s n)"

definition call_of_row :: "list_env \<Rightarrow> call_row \<Rightarrow> CIDbCall option" where
  "call_of_row E r = do {
     n \<leftarrow> copy_text (call_number r) (cidsNumberComplete zero_dataset) 32;
     name \<leftarrow> copy_text (call_name r) (cidsName zero_dataset) 256;
     date \<leftarrow> strcpy (cidsDate zero_dataset) (date_of E (call_time r));
     time \<leftarrow> strcpy (cidsTime zero_dataset) (time_of E (call_time r));
     msn \<leftarrow> copy_text (call_msn r) (cidsMSN zero_dataset) 16;
     al \<leftarrow> copy_text (call_alias r) (cidsAlias zero_dataset) 256;
     service \<leftarrow> copy_text (call_service r) (cidsService zero_dataset) 256;
     fx \<leftarrow> copy_text (call_fix r) (cidsFix zero_dataset) 256;
     Some \<lparr>db_id = call_id r, db_data = zero_dataset\<lparr>cidsNumberComplete := n, cidsName := name,
       cidsDate := date, cidsTime := time, cidsMSN := msn, cidsAlias := al, cidsService := service,
       cidsFix := fx\<rparr>\<rparr> }"

text \<open>The rows become a list by prepending each.\<close>

fun rows_to_list :: "list_env \<Rightarrow> call_row list \<Rightarrow> CIDbCall list \<Rightarrow> CIDbCall list option" where
  "rows_to_list E [] list = Some list"
| "rows_to_list E (r # rs) list = do { c \<leftarrow> call_of_row E r; rows_to_list E rs (c # list) }"

definition complete_call :: "list_env \<Rightarrow> database \<Rightarrow> int \<Rightarrow> CIDbCall \<Rightarrow> CIDbCall option" where
  "complete_call E db user c = (let d = db_data c in do {
     v \<leftarrow> is_valid_number (l_glib E) (Some (cidsNumberComplete d));
     if \<not> v then Some c
     else do {
       (rc, r) \<leftarrow> ci_get_area_code (l_glib E) (l_files E) (l_areas E) (Some (cidsNumberComplete d))
         (Some \<lparr>numAreaCode = cidsAreaCode d, numNumber = cidsNumber d, strArea = cidsArea d\<rparr>);
       r \<leftarrow> r;
       (rc, name) \<leftarrow> dbhandler_get_caller (l_glib E) (names_ok E) db user (Some (cidsNumberComplete d))
         (Some (cidsName d));
       name \<leftarrow> name;
       Some (c\<lparr>db_data := d\<lparr>cidsAreaCode := numAreaCode r, cidsNumber := numNumber r,
         cidsArea := strArea r, cidsName := name\<rparr>\<rparr>) } })"

fun complete_calls :: "list_env \<Rightarrow> database \<Rightarrow> int \<Rightarrow> CIDbCall list \<Rightarrow> CIDbCall list option" where
  "complete_calls E db user [] = Some []"
| "complete_calls E db user (c # cs) = do {
     c \<leftarrow> complete_call E db user c; cs \<leftarrow> complete_calls E db user cs; Some (c # cs) }"

definition dbhandler_get_calls :: "list_env \<Rightarrow> database \<Rightarrow> int \<Rightarrow> int \<Rightarrow> int \<Rightarrow> CIDbCall list option" where
  "dbhandler_get_calls E db user offset cnt = do {
     list \<leftarrow> rows_to_list E (sql_limit offset cnt (ordered E (cidata db))) [];
     if finished E then complete_calls E db user list else Some [] }"

section \<open>Valid numbers\<close>

definition valid_text :: "string \<Rightarrow> bool" where
  "valid_text s \<longleftrightarrow> s \<noteq> [] \<and> list_all dig s"

lemma number_loop_text:
  "glib_ascii_ok G \<Longrightarrow> NUL \<notin> set s \<Longrightarrow> j = length pre \<Longrightarrow>
     number_loop G (pre @ s @ NUL # xs) j = Some (list_all dig s)"
proof (induction s arbitrary: pre j)
  case Nil
  then show ?case by (simp add: number_loop.simps)
next
  case (Cons c s)
  then have "number_loop G ((pre @ [c]) @ s @ NUL # xs) (Suc j) = Some (list_all dig s)" by (intro Cons.IH) auto
  then show ?case using Cons.prems by (subst number_loop.simps) (auto simp: isdigit_eq)
qed

lemma valid_number:
  assumes "glib_ascii_ok G" and "cstr a = Some s"
  shows "is_valid_number G (Some a) = Some (valid_text s)"
proof -
  obtain xs where "a = s @ NUL # xs" "NUL \<notin> set s" using assms(2) by (auto simp: cstr_Some_iff)
  then show ?thesis
    using number_loop_text[OF assms(1), of s 0 "[]" xs]
    by (cases s) (auto simp: is_valid_number_def valid_text_def rd_def)
qed

section \<open>The directory as a map\<close>

datatype caller_op = AddCaller int string string | DelCaller int string string

text \<open>
  What a directory promises: looking a name up after adding is the updated map, and removing takes
  effect only on the name that is there.
\<close>

locale directory =
  fixes entries :: "'d \<Rightarrow> int \<times> string \<Rightarrow> string option"
    and add :: "int \<Rightarrow> string \<Rightarrow> string \<Rightarrow> 'd \<Rightarrow> 'd"
    and del :: "int \<Rightarrow> string \<Rightarrow> string \<Rightarrow> 'd \<Rightarrow> 'd"
    and good :: "'d \<Rightarrow> bool"
  assumes good_add: "good d \<Longrightarrow> good (add u n m d)"
    and good_del: "good d \<Longrightarrow> good (del u n m d)"
    and entries_add: "good d \<Longrightarrow> entries (add u n m d) = (entries d)((u, n) \<mapsto> m)"
    and entries_del: "good d \<Longrightarrow> entries (del u n m d)
      = (if entries d (u, n) = Some m then (entries d)((u, n) := None) else entries d)"
begin

fun apply_op :: "caller_op \<Rightarrow> 'd \<Rightarrow> 'd" where
  "apply_op (AddCaller u n m) d = (if valid_text n then add u n m d else d)"
| "apply_op (DelCaller u n m) d = (if valid_text n then del u n m d else d)"

fun map_op :: "caller_op \<Rightarrow> (int \<times> string \<Rightarrow> string option) \<Rightarrow> int \<times> string \<Rightarrow> string option" where
  "map_op (AddCaller u n m) f = (if valid_text n then f((u, n) \<mapsto> m) else f)"
| "map_op (DelCaller u n m) f = (if valid_text n \<and> f (u, n) = Some m then f((u, n) := None) else f)"

lemma apply_op: "good d \<Longrightarrow> good (apply_op op d) \<and> entries (apply_op op d) = map_op op (entries d)"
  by (cases op) (simp_all add: good_add good_del entries_add entries_del)

lemma apply_ops: "good d \<Longrightarrow>
    good (fold apply_op ops d) \<and> entries (fold apply_op ops d) = fold map_op ops (entries d)"
  by (induction ops arbitrary: d) (simp_all add: apply_op)

end

text \<open>The table keeps at most one row for a client and a number, so it is a directory.\<close>

definition row_key :: "caller_row \<Rightarrow> int \<times> string option" where
  "row_key r = (clientid r, caller_number r)"

definition rows_ok :: "caller_row list \<Rightarrow> bool" where
  "rows_ok rows \<longleftrightarrow> distinct (map row_key rows) \<and> (\<forall>r \<in> set rows. caller_name r \<noteq> None)"

definition row_entries :: "caller_row list \<Rightarrow> int \<times> string \<Rightarrow> string option" where
  "row_entries rows = (\<lambda>(u, n). Option.bind (find (caller_is u n) rows) caller_name)"

definition set_row :: "int \<Rightarrow> string \<Rightarrow> string \<Rightarrow> caller_row \<Rightarrow> caller_row" where
  "set_row u n m r = (if caller_is u n r then r\<lparr>caller_name := Some m\<rparr> else r)"

definition add_row :: "int \<Rightarrow> string \<Rightarrow> string \<Rightarrow> caller_row list \<Rightarrow> caller_row list" where
  "add_row u n m rows = (if list_ex (caller_is u n) rows then map (set_row u n m) rows
     else rows @ [\<lparr>clientid = u, caller_number = Some n, caller_name = Some m\<rparr>])"

definition del_row :: "int \<Rightarrow> string \<Rightarrow> string \<Rightarrow> caller_row list \<Rightarrow> caller_row list" where
  "del_row u n m rows = filter (\<lambda>r. \<not> (caller_is u n r \<and> caller_name r = Some m)) rows"

lemma caller_is_key: "caller_is u n r \<longleftrightarrow> row_key r = (u, Some n)"
  by (auto simp: caller_is_def row_key_def)

lemma row_key_set_row [simp]: "row_key (set_row u n m r) = row_key r"
  by (simp add: set_row_def row_key_def)

lemma rows_ok_add: "rows_ok rows \<Longrightarrow> rows_ok (add_row u n m rows)"
  by (auto simp: rows_ok_def add_row_def list_ex_iff caller_is_key o_def) (auto simp: set_row_def row_key_def)

lemma rows_ok_del: "rows_ok rows \<Longrightarrow> rows_ok (del_row u n m rows)"
  by (auto simp: rows_ok_def del_row_def distinct_map_filter)

lemma find_map_key:
  "(\<And>r. row_key (f r) = row_key r) \<Longrightarrow> find (caller_is u n) (map f rows) = map_option f (find (caller_is u n) rows)"
  by (induction rows) (simp_all add: caller_is_key)

lemma find_caller_is: "find (caller_is u n) rows = Some r \<Longrightarrow> caller_is u n r \<and> r \<in> set rows"
  by (auto simp: find_Some_iff)

lemma find_none: "find (caller_is u n) rows = None \<longleftrightarrow> \<not> list_ex (caller_is u n) rows"
  by (auto simp: find_None_iff list_ex_iff)

lemma find_snoc: "find P (xs @ [x]) = (case find P xs of None \<Rightarrow> (if P x then Some x else None) | Some y \<Rightarrow> Some y)"
  by (induction xs) auto

lemma entries_add_row: "row_entries (add_row u n m rows) = (row_entries rows)((u, n) \<mapsto> m)"
proof (rule ext, clarify)
  fix u' n'
  show "row_entries (add_row u n m rows) (u', n') = ((row_entries rows)((u, n) \<mapsto> m)) (u', n')"
  proof (cases "list_ex (caller_is u n) rows")
    case True
    have "Option.bind (map_option (set_row u n m) (find (caller_is u' n') rows)) caller_name
        = (if (u', n') = (u, n) then Some m else Option.bind (find (caller_is u' n') rows) caller_name)"
      using True find_none[of u n rows] find_caller_is[of u' n' rows]
      by (cases "find (caller_is u' n') rows") (auto simp: set_row_def caller_is_def)
    then show ?thesis using True by (simp add: row_entries_def add_row_def find_map_key)
  next
    case False
    then have "find (caller_is u n) rows = None" by (simp add: find_none)
    then show ?thesis using False
      by (cases "(u', n') = (u, n)"; cases "find (caller_is u' n') rows")
         (auto simp: row_entries_def add_row_def find_snoc caller_is_def)
  qed
qed

lemma find_filter_other:
  "\<forall>r \<in> set rows. caller_is u n r \<longrightarrow> Q r \<Longrightarrow> find (caller_is u n) (filter Q rows) = find (caller_is u n) rows"
  by (induction rows) auto

lemma entries_del_row:
  assumes "rows_ok rows"
  shows "row_entries (del_row u n m rows)
    = (if row_entries rows (u, n) = Some m then (row_entries rows)((u, n) := None) else row_entries rows)"
proof (rule ext, clarify)
  fix u' n'
  have uniq: "r = r'" if "r \<in> set rows" "r' \<in> set rows" "caller_is u n r" "caller_is u n r'" for r r'
    using that assms by (auto simp: rows_ok_def caller_is_key distinct_map inj_on_def)
  show "row_entries (del_row u n m rows) (u', n')
      = (if row_entries rows (u, n) = Some m then (row_entries rows)((u, n) := None) else row_entries rows) (u', n')"
  proof (cases "(u', n') = (u, n)")
    case False
    then have "find (caller_is u' n') (del_row u n m rows) = find (caller_is u' n') rows"
      unfolding del_row_def by (intro find_filter_other) (auto simp: caller_is_def)
    then show ?thesis using False by (auto simp: row_entries_def)
  next
    case True
    show ?thesis
    proof (cases "row_entries rows (u, n) = Some m")
      case e: True
      then obtain r where r: "find (caller_is u n) rows = Some r" "caller_name r = Some m"
        by (auto simp: row_entries_def bind_eq_Some_conv)
      have "caller_name r' = Some m" if "r' \<in> set rows" "caller_is u n r'" for r'
        using uniq[OF that(1) _ that(2)] find_caller_is[OF r(1)] r(2) by blast
      then have "find (caller_is u n) (del_row u n m rows) = None"
        by (auto simp: find_none list_ex_iff del_row_def)
      then show ?thesis using True e by (simp add: row_entries_def)
    next
      case e: False
      have "caller_name r' \<noteq> Some m" if h: "r' \<in> set rows" "caller_is u n r'" for r'
      proof -
        obtain r where r: "find (caller_is u n) rows = Some r"
          using h find_none[of u n rows] by (cases "find (caller_is u n) rows") (auto simp: list_ex_iff)
        then show ?thesis using uniq[OF h(1) _ h(2), of r] find_caller_is[OF r] e by (auto simp: row_entries_def)
      qed
      then have "find (caller_is u n) (del_row u n m rows) = find (caller_is u n) rows"
        unfolding del_row_def by (intro find_filter_other) blast
      then show ?thesis using True e by (simp add: row_entries_def)
    qed
  qed
qed

interpretation table: directory row_entries add_row del_row rows_ok
  by unfold_locales (simp_all add: rows_ok_add rows_ok_del entries_add_row entries_del_row)

text \<open>The operations of the program on valid and other numbers, with every statement executed.\<close>

lemma add_caller_row:
  assumes "glib_ascii_ok G" and "cstr a = Some n" and "cstr b = Some m"
  shows "dbhandler_add_caller G True True db u (Some a) (Some b)
    = Some (if valid_text n then (0, db\<lparr>cicaller := add_row u n m (cicaller db)\<rparr>) else (1, db))"
  using assms valid_number[OF assms(1,2)]
  by (simp add: dbhandler_add_caller_def add_row_def set_row_def[abs_def])

lemma remove_caller_row:
  assumes "glib_ascii_ok G" and "cstr a = Some n" and "cstr b = Some m"
  shows "dbhandler_remove_caller G True db u (Some a) (Some b)
    = Some (if valid_text n then (0, db\<lparr>cicaller := del_row u n m (cicaller db)\<rparr>) else (1, db))"
  using assms valid_number[OF assms(1,2)]
  by (simp add: dbhandler_remove_caller_def del_row_def)

lemma get_caller_entry:
  assumes "glib_ascii_ok G" and "cstr a = Some n" and "rows_ok (cicaller db)"
  shows "dbhandler_get_caller G True db u (Some a) (Some b)
    = (case (if valid_text n then row_entries (cicaller db) (u, n) else None) of
         None \<Rightarrow> Some (1, Some b) | Some m \<Rightarrow> map_option (\<lambda>x. (0, Some x)) (strlcpy b m 256))"
proof (cases "find (caller_is u n) (cicaller db)")
  case None
  then show ?thesis using assms valid_number[OF assms(1,2)] by (simp add: dbhandler_get_caller_def row_entries_def)
next
  case (Some r)
  then obtain m where "caller_name r = Some m"
    using find_caller_is[OF Some] assms(3) by (auto simp: rows_ok_def)
  then show ?thesis
    using Some assms valid_number[OF assms(1,2)]
    by (simp add: dbhandler_get_caller_def row_entries_def map_conv_bind_option o_def)
qed

fun run_op :: "glib_ascii \<Rightarrow> caller_op \<Rightarrow> database \<Rightarrow> database option" where
  "run_op G (AddCaller u n m) db =
     map_option snd (dbhandler_add_caller G True True db u (Some (n @ [NUL])) (Some (m @ [NUL])))"
| "run_op G (DelCaller u n m) db =
     map_option snd (dbhandler_remove_caller G True db u (Some (n @ [NUL])) (Some (m @ [NUL])))"

fun run_ops :: "glib_ascii \<Rightarrow> caller_op list \<Rightarrow> database \<Rightarrow> database option" where
  "run_ops G [] db = Some db"
| "run_ops G (x # xs) db = Option.bind (run_op G x db) (run_ops G xs)"

text \<open>The directory the operations describe.\<close>

fun described :: "caller_op \<Rightarrow> (int \<times> string \<Rightarrow> string option) \<Rightarrow> int \<times> string \<Rightarrow> string option" where
  "described (AddCaller u n m) f = (if valid_text n then f((u, n) \<mapsto> m) else f)"
| "described (DelCaller u n m) f = (if valid_text n \<and> f (u, n) = Some m then f((u, n) := None) else f)"

fun op_text :: "caller_op \<Rightarrow> bool" where
  "op_text (AddCaller u n m) \<longleftrightarrow> NUL \<notin> set n \<and> NUL \<notin> set m"
| "op_text (DelCaller u n m) \<longleftrightarrow> NUL \<notin> set n \<and> NUL \<notin> set m"

lemma described_map_op: "described x f = table.map_op x f"
  by (cases x) simp_all

lemma run_op_row:
  "glib_ascii_ok G \<Longrightarrow> op_text x \<Longrightarrow> run_op G x db = Some (db\<lparr>cicaller := table.apply_op x (cicaller db)\<rparr>)"
  by (cases x) (simp_all add: add_caller_row remove_caller_row)

lemma run_ops_rows:
  "glib_ascii_ok G \<Longrightarrow> list_all op_text xs \<Longrightarrow>
     run_ops G xs db = Some (db\<lparr>cicaller := fold table.apply_op xs (cicaller db)\<rparr>)"
  by (induction xs arbitrary: db) (simp_all add: run_op_row)

section \<open>Dates\<close>

text \<open>Decimal numbers with leading zeros, as \<open>strftime\<close> writes them.\<close>

definition pad :: "nat \<Rightarrow> nat \<Rightarrow> string" where
  "pad k n = replicate (k - length (dec n)) CHR ''0'' @ dec n"

lemma num_of_zeros: "num_of (replicate k CHR ''0'' @ ds) = num_of ds"
  by (induction k) (simp_all add: num_of_def)

lemma pad_digits: "\<forall>c \<in> set (pad k n). dig c"
proof -
  have "dig CHR ''0''" by (simp add: dig_def)
  then show ?thesis using dec_digits[of n] by (auto simp: pad_def)
qed

lemma read_number_digits:
  assumes "\<forall>c \<in> set s. dig c" and "s \<noteq> []"
  shows "read_number s = (False, num_of s)"
proof -
  obtain c u where cu: "s = c # u" using assms(2) by (cases s) auto
  have c: "dig c" using assms(1) cu by simp
  have t: "takeWhile dig (c # u) = c # u" using assms(1) unfolding cu by (simp only: takeWhile_eq_all_conv)
  have "dropWhile c_space (c # u) = c # u" using dig_not_space[OF c] by simp
  then show ?thesis
    using dig_not_space[OF c] unfolding read_number_def Let_def cu by (simp only: t list.case if_False simp_thms)
qed

lemma atoi_pad: "n < 2 ^ 31 \<Longrightarrow> atoi (pad k n) = Some (int n)"
  using read_number_digits[OF pad_digits, of k n] dec_ne[of n]
  by (simp add: atoi_def pad_def num_of_zeros num_of_dec)

lemma length_pad: "n < 10 ^ k \<Longrightarrow> 0 < k \<Longrightarrow> length (pad k n) = k"
  using length_dec[of n k] by (simp add: pad_def)

lemma component_pad:
  assumes "n < 10 ^ k" and "0 < k" and "k < 9" and "\<not> dig sep" and "i = length pre" and "length buf = 64"
  shows "\<exists>buf'. component sep (pre @ pad k n @ sep # post) i buf = Some (int n, Suc (i + k), buf') \<and> length buf' = 64"
proof -
  have l: "length (pad k n) = k" using length_pad[OF assms(1,2)] .
  have ns: "\<forall>c \<in> set (pad k n). c \<noteq> sep" using pad_digits[of k n] assms(4) by blast
  have b: "put buf 0 (pad k n) = Some (pad k n @ drop k buf)" using l assms(3,6) by (simp add: put_def)
  have "copy_while (\<lambda>c. c \<noteq> sep) (pre @ pad k n @ sep # post) i buf 0 = Some (pad k n @ drop k buf, i + k, 0 + k)"
    using copy_while_put[of "pad k n" "\<lambda>c. c \<noteq> sep" sep i pre 0 buf post] ns assms(5) b l by simp
  moreover have "wr (pad k n @ drop k buf) k NUL = Some (pad k n @ NUL # drop (Suc k) buf)"
    using l assms(3,6) Cons_nth_drop_Suc[of k buf, symmetric] by (simp add: wr_def list_update_append)
  moreover have "cstr (pad k n @ NUL # drop (Suc k) buf) = Some (pad k n)"
    using pad_digits[of k n] by (intro cstr_string) auto
  moreover have "n < 2 ^ 31"
  proof -
    have "(10 :: nat) ^ k \<le> 10 ^ 8" using assms(3) by (intro power_increasing) simp_all
    then show ?thesis using assms(1) by simp
  qed
  ultimately show ?thesis using atoi_pad[of n k] l assms(3,6) by (simp add: component_def)
qed

definition iso_date :: "nat \<Rightarrow> nat \<Rightarrow> nat \<Rightarrow> string" where
  "iso_date y m d = pad 4 y @ CHR ''-'' # pad 2 m @ CHR ''-'' # pad 2 d"

definition clock :: "nat \<Rightarrow> nat \<Rightarrow> nat \<Rightarrow> string" where
  "clock h m s = pad 2 h @ CHR '':'' # pad 2 m @ CHR '':'' # pad 2 s"

lemma three_components:
  assumes "a < 10 ^ k" and "0 < k" and "k < 9" and "b < 100" and "c < 100" and "\<not> dig sep" and "length buf = 64"
  shows "\<exists>b1 j1 b2 j2 b3 j3.
    component sep (pad k a @ sep # pad 2 b @ sep # pad 2 c @ NUL # xs) 0 buf = Some (int a, j1, b1) \<and>
    component sep (pad k a @ sep # pad 2 b @ sep # pad 2 c @ NUL # xs) j1 b1 = Some (int b, j2, b2) \<and>
    component NUL (pad k a @ sep # pad 2 b @ sep # pad 2 c @ NUL # xs) j2 b2 = Some (int c, j3, b3) \<and>
    length b3 = 64"
proof -
  let ?s = "pad k a @ sep # pad 2 b @ sep # pad 2 c @ NUL # xs"
  let ?p1 = "pad k a @ [sep]" and ?p2 = "pad k a @ sep # pad 2 b @ [sep]"
  have l: "length (pad k a) = k" "length (pad 2 b) = 2"
    using length_pad[OF assms(1,2)] length_pad[of b 2] assms(4) by simp_all
  obtain b1 where b1: "component sep ([] @ pad k a @ sep # pad 2 b @ sep # pad 2 c @ NUL # xs) 0 buf
      = Some (int a, Suc (0 + k), b1)" "length b1 = 64"
    using component_pad[OF assms(1-3,6) _ assms(7), of 0 "[]" "pad 2 b @ sep # pad 2 c @ NUL # xs"] by auto
  obtain b2 where b2: "component sep (?p1 @ pad 2 b @ sep # pad 2 c @ NUL # xs) (Suc k) b1
      = Some (int b, Suc (Suc k + 2), b2)" "length b2 = 64"
    using component_pad[of b 2 sep "Suc k" ?p1 b1 "pad 2 c @ NUL # xs"] assms(4,6) b1(2) l by auto
  obtain b3 where b3: "component NUL (?p2 @ pad 2 c @ NUL # xs) (Suc (Suc k + 2)) b2
      = Some (int c, Suc (Suc (Suc k + 2) + 2), b3)" "length b3 = 64"
    using component_pad[of c 2 NUL "Suc (Suc k + 2)" ?p2 b2 xs] assms(5) b2(2) l by auto
  show ?thesis
    by (rule exI[of _ b1], rule exI[of _ "Suc k"], rule exI[of _ b2], rule exI[of _ "Suc (Suc k + 2)"],
        rule exI[of _ b3], rule exI[of _ "Suc (Suc (Suc k + 2) + 2)"])
       (use b1(1) b2(1) b3 in simp)
qed

lemma parse_datetime_text:
  assumes "y < 10000" and "m < 100" and "d < 100" and "h < 100" and "n < 100" and "s < 100"
  shows "parse_datetime mk (Some (iso_date y m d @ NUL # xs)) (Some (clock h n s @ NUL # ys))
    = Some (of_int (mk \<lparr>tm_sec = int s, tm_min = int n, tm_hour = int h, tm_mday = int d,
        tm_mon = int m - 1, tm_year = int y - 1900, tm_wday = 0, tm_yday = 0, tm_isdst = - 1\<rparr>))"
proof -
  let ?d = "pad 4 y @ CHR ''-'' # pad 2 m @ CHR ''-'' # pad 2 d @ NUL # xs"
  let ?t = "pad 2 h @ CHR '':'' # pad 2 n @ CHR '':'' # pad 2 s @ NUL # ys"
  have nd: "\<not> dig CHR ''-''" "\<not> dig CHR '':''" by (simp_all add: dig_def)
  obtain b1 j1 b2 j2 b3 j3 where date: "component CHR ''-'' ?d 0 (replicate 64 NUL) = Some (int y, j1, b1)"
    "component CHR ''-'' ?d j1 b1 = Some (int m, j2, b2)" "component NUL ?d j2 b2 = Some (int d, j3, b3)" "length b3 = 64"
    using three_components[of y 4 m d "CHR ''-''" "replicate 64 NUL" xs] assms nd by auto
  obtain c1 k1 c2 k2 c3 k3 where time: "component CHR '':'' ?t 0 b3 = Some (int h, k1, c1)"
    "component CHR '':'' ?t k1 c1 = Some (int n, k2, c2)" "component NUL ?t k2 c2 = Some (int s, k3, c3)"
    using three_components[of h 2 n s "CHR '':''" b3 ys] assms nd date(4) by auto
  have "iso_date y m d @ NUL # xs = ?d" "clock h n s @ NUL # ys = ?t" by (simp_all add: iso_date_def clock_def)
  then show ?thesis
    using date time by (simp add: parse_datetime_def parse_date_def parse_time_def zero_tm_def)
qed

section \<open>The list of calls\<close>

text \<open>
  What SQLite promises for the ordered query, and what \<open>strftime\<close> does for the formats: a text that
  fits into the arrays of 16.
\<close>

definition list_env_ok :: "list_env \<Rightarrow> bool" where
  "list_env_ok E \<longleftrightarrow> glib_ascii_ok (l_glib E) \<and> areas_ok (l_glib E) (l_files E) (l_areas E) \<and>
     (\<forall>rows. mset (ordered E rows) = mset rows \<and> sorted_wrt (\<lambda>a b. call_time b \<le> call_time a) (ordered E rows)) \<and>
     (\<forall>t. length (date_of E t) < 16 \<and> NUL \<notin> set (date_of E t)) \<and>
     (\<forall>t. length (time_of E t) < 16 \<and> NUL \<notin> set (time_of E t)) \<and> finished E \<and> names_ok E"

definition no_NUL :: "string option \<Rightarrow> bool" where
  "no_NUL col = (case col of None \<Rightarrow> True | Some s \<Rightarrow> NUL \<notin> set s)"

definition call_row_ok :: "call_row \<Rightarrow> bool" where
  "call_row_ok r \<longleftrightarrow> no_NUL (call_number r) \<and> no_NUL (call_name r) \<and> no_NUL (call_msn r) \<and>
     no_NUL (call_alias r) \<and> no_NUL (call_service r) \<and> no_NUL (call_fix r)"

definition col_text :: "nat \<Rightarrow> string option \<Rightarrow> string" where
  "col_text n col = (case col of None \<Rightarrow> [] | Some s \<Rightarrow> take (n - 1) s)"

lemma text_in_zeros: "0 < n \<Longrightarrow> text_in n (replicate n NUL)"
  by (simp add: text_in_def)

lemma cstr_zeros_text: "0 < n \<Longrightarrow> cstr (replicate n NUL) = Some []"
  by (cases n) (simp_all add: cstr_def)

lemma copy_text_ok:
  assumes "0 < n" and "no_NUL col"
  shows "\<exists>a. copy_text col (replicate n NUL) n = Some a \<and> text_in n a \<and> cstr a = Some (col_text n col)"
proof (cases col)
  case None
  then show ?thesis using assms(1) text_in_zeros cstr_zeros_text by (simp add: copy_text_def col_text_def)
next
  case (Some s)
  then show ?thesis
    using text_in_strlcpy[OF text_in_zeros[OF assms(1)] assms(1) order_refl, of s] assms(2)
    by (simp add: copy_text_def col_text_def no_NUL_def)
qed

text \<open>A listed call shows its row: the id, and the texts cut to the arrays.\<close>

definition lists_row :: "call_row \<Rightarrow> CIDbCall \<Rightarrow> bool" where
  "lists_row r c \<longleftrightarrow> db_id c = call_id r \<and> dataset_ok (db_data c) \<and>
     cstr (cidsNumberComplete (db_data c)) = Some (col_text 32 (call_number r)) \<and>
     cstr (cidsMSN (db_data c)) = Some (col_text 16 (call_msn r)) \<and>
     cstr (cidsAlias (db_data c)) = Some (col_text 256 (call_alias r))"

lemma call_of_row_ok:
  assumes "list_env_ok E" and "call_row_ok r"
  shows "\<exists>c. call_of_row E r = Some c \<and> lists_row r c \<and>
    cstr (cidsName (db_data c)) = Some (col_text 256 (call_name r))"
proof -
  note r = assms(2)[unfolded call_row_ok_def]
  have d: "length (date_of E (call_time r)) < 16" "NUL \<notin> set (date_of E (call_time r))"
    "length (time_of E (call_time r)) < 16" "NUL \<notin> set (time_of E (call_time r))"
    using assms(1) by (simp_all add: list_env_ok_def)
  obtain a1 where 1: "copy_text (call_number r) (replicate 32 NUL) 32 = Some a1" "text_in 32 a1"
    "cstr a1 = Some (col_text 32 (call_number r))" using r copy_text_ok[of 32, OF zero_less_numeral] by blast
  obtain a2 where 2: "copy_text (call_name r) (replicate 256 NUL) 256 = Some a2" "text_in 256 a2"
    "cstr a2 = Some (col_text 256 (call_name r))" using r copy_text_ok[of 256, OF zero_less_numeral] by blast
  obtain a3 where 3: "strcpy (replicate 16 NUL) (date_of E (call_time r)) = Some a3" "text_in 16 a3"
    using text_in_strcpy[OF text_in_zeros d(1,2)] by auto
  obtain a4 where 4: "strcpy (replicate 16 NUL) (time_of E (call_time r)) = Some a4" "text_in 16 a4"
    using text_in_strcpy[OF text_in_zeros d(3,4)] by auto
  obtain a5 where 5: "copy_text (call_msn r) (replicate 16 NUL) 16 = Some a5" "text_in 16 a5"
    "cstr a5 = Some (col_text 16 (call_msn r))" using r copy_text_ok[of 16, OF zero_less_numeral] by blast
  obtain a6 where 6: "copy_text (call_alias r) (replicate 256 NUL) 256 = Some a6" "text_in 256 a6"
    "cstr a6 = Some (col_text 256 (call_alias r))" using r copy_text_ok[of 256, OF zero_less_numeral] by blast
  obtain a7 where 7: "copy_text (call_service r) (replicate 256 NUL) 256 = Some a7" "text_in 256 a7"
    using r copy_text_ok[of 256, OF zero_less_numeral] by blast
  obtain a8 where 8: "copy_text (call_fix r) (replicate 256 NUL) 256 = Some a8" "text_in 256 a8"
    using r copy_text_ok[of 256, OF zero_less_numeral] by blast
  have z: "cidsNumberComplete zero_dataset = replicate 32 NUL" "cidsName zero_dataset = replicate 256 NUL"
    "cidsDate zero_dataset = replicate 16 NUL" "cidsTime zero_dataset = replicate 16 NUL"
    "cidsMSN zero_dataset = replicate 16 NUL" "cidsAlias zero_dataset = replicate 256 NUL"
    "cidsService zero_dataset = replicate 256 NUL" "cidsFix zero_dataset = replicate 256 NUL"
    by (simp_all add: zero_dataset_def)
  show ?thesis
    unfolding call_of_row_def z 1(1) 2(1) 3(1) 4(1) 5(1) 6(1) 7(1) 8(1)
    using 1 2 3 4 5 6 7 8 zero_ok(1) by (simp add: lists_row_def dataset_ok_def)
qed

text \<open>The name a client sees: that of its directory, or the recorded one.\<close>

definition seen_name :: "database \<Rightarrow> int \<Rightarrow> call_row \<Rightarrow> string" where
  "seen_name db u r =
     (let n = col_text 32 (call_number r) in
      case (if valid_text n then row_entries (cicaller db) (u, n) else None) of
        None \<Rightarrow> col_text 256 (call_name r) | Some m \<Rightarrow> take 255 m)"

definition names_no_NUL :: "database \<Rightarrow> bool" where
  "names_no_NUL db \<longleftrightarrow> (\<forall>r \<in> set (cicaller db). no_NUL (caller_name r))"

lemma complete_call_ok:
  assumes "list_env_ok E" and "rows_ok (cicaller db)" and "names_no_NUL db" and "lists_row r c"
    and "cstr (cidsName (db_data c)) = Some (col_text 256 (call_name r))"
  shows "\<exists>c'. complete_call E db u c = Some c' \<and> lists_row r c' \<and>
    cstr (cidsName (db_data c')) = Some (seen_name db u r)"
proof -
  let ?d = "db_data c" and ?n = "col_text 32 (call_number r)"
  let ?a = "\<lparr>numAreaCode = cidsAreaCode ?d, numNumber = cidsNumber ?d, strArea = cidsArea ?d\<rparr>"
  have G: "glib_ascii_ok (l_glib E)" "areas_ok (l_glib E) (l_files E) (l_areas E)" "names_ok E"
    using assms(1) by (simp_all add: list_env_ok_def)
  have d: "dataset_ok ?d" "cstr (cidsNumberComplete ?d) = Some ?n" using assms(4) by (simp_all add: lists_row_def)
  note v = valid_number[OF G(1) d(2)]
  show ?thesis
  proof (cases "valid_text ?n")
    case False
    then show ?thesis using v assms(4,5) by (simp add: complete_call_def seen_name_def Let_def)
  next
    case True
    have "texts ?a" using d(1) by (simp add: texts_def calls_fit_def dataset_ok_def text_in_def)
    then obtain rc r' where r': "ci_get_area_code (l_glib E) (l_files E) (l_areas E)
        (Some (cidsNumberComplete ?d)) (Some ?a) = Some (rc, Some r')" "texts r'"
      using area_code_always[OF G(1,2), of "cidsNumberComplete ?d" ?a] d(1) by (auto simp: dataset_ok_def text_in_def)
    have t: "text_in 256 (cidsName ?d)" using d(1) by (simp add: dataset_ok_def)
    have "\<exists>rc b. dbhandler_get_caller (l_glib E) True db u (Some (cidsNumberComplete ?d)) (Some (cidsName ?d))
        = Some (rc, Some b) \<and> text_in 256 b \<and> cstr b = Some (seen_name db u r)"
    proof (cases "row_entries (cicaller db) (u, ?n)")
      case None
      then show ?thesis
        using get_caller_entry[OF G(1) d(2) assms(2), of u "cidsName ?d"] True t assms(5) by (simp add: seen_name_def)
    next
      case (Some m)
      then have "NUL \<notin> set m"
        using assms(3) find_caller_is by (fastforce simp: row_entries_def bind_eq_Some_conv names_no_NUL_def no_NUL_def)
      then show ?thesis
        using get_caller_entry[OF G(1) d(2) assms(2), of u "cidsName ?d"] True Some
          text_in_strlcpy[OF t, of 256 m] by (auto simp: seen_name_def)
    qed
    then obtain rc' b where b: "dbhandler_get_caller (l_glib E) True db u (Some (cidsNumberComplete ?d))
        (Some (cidsName ?d)) = Some (rc', Some b)" "text_in 256 b" "cstr b = Some (seen_name db u r)" by blast
    show ?thesis
      using v True r' b G(3) assms(4) d(1)
      by (simp add: complete_call_def Let_def lists_row_def dataset_ok_def texts_def calls_fit_def text_in_def)
  qed
qed

definition listed :: "database \<Rightarrow> int \<Rightarrow> call_row \<Rightarrow> CIDbCall \<Rightarrow> bool" where
  "listed db u r c \<longleftrightarrow> lists_row r c \<and> cstr (cidsName (db_data c)) = Some (seen_name db u r)"

lemma rows_to_list_ok:
  "list_env_ok E \<Longrightarrow> \<forall>r \<in> set rows. call_row_ok r \<Longrightarrow>
     \<exists>cs. rows_to_list E rows acc = Some (rev cs @ acc) \<and>
       list_all2 (\<lambda>r c. lists_row r c \<and> cstr (cidsName (db_data c)) = Some (col_text 256 (call_name r))) rows cs"
proof (induction rows arbitrary: acc)
  case (Cons r rows)
  obtain c where c: "call_of_row E r = Some c" "lists_row r c"
    "cstr (cidsName (db_data c)) = Some (col_text 256 (call_name r))"
    using call_of_row_ok[OF Cons(2), of r] Cons(3) by auto
  obtain cs where "rows_to_list E rows (c # acc) = Some (rev cs @ c # acc)"
    "list_all2 (\<lambda>r c. lists_row r c \<and> cstr (cidsName (db_data c)) = Some (col_text 256 (call_name r))) rows cs"
    using Cons(1)[OF Cons(2), of "c # acc"] Cons(3) by auto
  then show ?case using c by (intro exI[of _ "c # cs"]) simp
qed simp

lemma complete_calls_ok:
  assumes "list_env_ok E" and "rows_ok (cicaller db)" and "names_no_NUL db"
  shows "list_all2 (\<lambda>r c. lists_row r c \<and> cstr (cidsName (db_data c)) = Some (col_text 256 (call_name r))) rows cs \<Longrightarrow>
    \<exists>cs'. complete_calls E db u cs = Some cs' \<and> list_all2 (listed db u) rows cs'"
proof (induction rows cs rule: list_all2_induct)
  case (Cons r rows c cs)
  then show ?case using complete_call_ok[OF assms, of r c u] by (auto simp: listed_def)
qed simp

lemma get_calls_listed:
  assumes "list_env_ok E" and "rows_ok (cicaller db)" and "names_no_NUL db" and "\<forall>r \<in> set (cidata db). call_row_ok r"
  shows "\<exists>cs. dbhandler_get_calls E db u off cnt = Some cs \<and>
    list_all2 (listed db u) (rev (sql_limit off cnt (ordered E (cidata db)))) cs"
proof -
  let ?rows = "sql_limit off cnt (ordered E (cidata db))"
  have "set (ordered E (cidata db)) = set (cidata db)"
    using assms(1) by (metis list_env_ok_def set_mset_mset)
  then have "\<forall>r \<in> set ?rows. call_row_ok r"
    using assms(4) by (auto simp: sql_limit_def dest!: in_set_takeD in_set_dropD)
  from rows_to_list_ok[OF assms(1) this, of "[]"] obtain cs where cs: "rows_to_list E ?rows [] = Some (rev cs)"
    "list_all2 (\<lambda>r c. lists_row r c \<and> cstr (cidsName (db_data c)) = Some (col_text 256 (call_name r))) ?rows cs" by auto
  then have "list_all2 (\<lambda>r c. lists_row r c \<and> cstr (cidsName (db_data c)) = Some (col_text 256 (call_name r))) (rev ?rows) (rev cs)"
    by simp
  from complete_calls_ok[OF assms(1-3) this, of u] show ?thesis
    using cs(1) assms(1) by (simp add: dbhandler_get_calls_def list_env_ok_def)
qed

section \<open>Adding a call\<close>

lemma dataset_texts:
  assumes "dataset_ok d"
  shows "\<exists>n name m al service fx. cstr (cidsNumberComplete d) = Some n \<and> cstr (cidsName d) = Some name \<and>
    cstr (cidsMSN d) = Some m \<and> cstr (cidsAlias d) = Some al \<and> cstr (cidsService d) = Some service \<and>
    cstr (cidsFix d) = Some fx \<and> length n < 32 \<and> length name < 256 \<and> length m < 16 \<and> length al < 256"
  using assms text_in_cstr[of 32 "cidsNumberComplete d"] text_in_cstr[of 256 "cidsName d"]
    text_in_cstr[of 16 "cidsMSN d"] text_in_cstr[of 256 "cidsAlias d"] text_in_cstr[of 256 "cidsService d"]
    text_in_cstr[of 256 "cidsFix d"]
  by (auto simp: dataset_ok_def)

text \<open>The row of a call, except for its key.\<close>

definition records :: "CIDataSet \<Rightarrow> call_row \<Rightarrow> bool" where
  "records d r \<longleftrightarrow> call_number r = cstr (cidsNumberComplete d) \<and> call_name r = cstr (cidsName d) \<and>
     call_msn r = cstr (cidsMSN d) \<and> call_alias r = cstr (cidsAlias d) \<and>
     call_service r = cstr (cidsService d) \<and> call_fix r = cstr (cidsFix d)"

definition recorded_row :: "CIDataSet \<Rightarrow> 64 word \<Rightarrow> call_row" where
  "recorded_row d t = \<lparr>call_id = 0, call_number = cstr (cidsNumberComplete d), call_name = cstr (cidsName d),
     call_time = sint (ucast t :: 32 word), call_msn = cstr (cidsMSN d), call_alias = cstr (cidsAlias d),
     call_service = cstr (cidsService d), call_fix = cstr (cidsFix d)\<rparr>"

lemma records_recorded_row: "records d (recorded_row d t\<lparr>call_id := i\<rparr>)"
  by (simp add: records_def recorded_row_def)

lemma next_id_fresh: "r \<in> set rows \<Longrightarrow> call_id r < next_id rows"
proof -
  have "r \<in> set rows \<Longrightarrow> call_id r \<le> foldr (\<lambda>r m. max (call_id r) m) rows 0" by (induction rows) auto
  then show "r \<in> set rows \<Longrightarrow> call_id r < next_id rows" by (simp add: next_id_def)
qed

lemma list_all2_partner: "list_all2 P xs ys \<Longrightarrow> x \<in> set xs \<Longrightarrow> \<exists>y \<in> set ys. P x y"
  by (induction rule: list_all2_induct) auto

lemma add_data_cases:
  assumes "dataset_ok d" and "parse_datetime (mktime E) (Some (cidsDate d)) (Some (cidsTime d)) = Some t"
  shows "dbhandler_add_data E (Some d) db =
    (if insert_stepped db \<or> \<not> list_all (binds E) [1, 2, 3, 4, 5, 6, 7] then Some (1, db)
     else Some (insert_call (steps E) (recorded_row d t) db))"
proof -
  obtain n name m al service fx where c: "cstr (cidsNumberComplete d) = Some n" "cstr (cidsName d) = Some name"
    "cstr (cidsMSN d) = Some m" "cstr (cidsAlias d) = Some al" "cstr (cidsService d) = Some service"
    "cstr (cidsFix d) = Some fx" using dataset_texts[OF assms(1)] by blast
  show ?thesis unfolding dbhandler_add_data_def option.case Let_def recorded_row_def c assms(2) by simp
qed

lemma records_no_NUL: "records d r \<Longrightarrow> call_row_ok r"
  by (auto simp: records_def call_row_ok_def no_NUL_def dest: cstr_no_NUL split: option.split)

lemma described_values:
  assumes "fold described ops f (u, n) = Some m" and "list_all op_text ops"
  shows "f (u, n) = Some m \<or> valid_text n \<and> NUL \<notin> set m"
  using assms
proof (induction ops arbitrary: f)
  case (Cons x ops)
  from Cons(1)[of "described x f"] Cons(2,3)
  have "described x f (u, n) = Some m \<or> valid_text n \<and> NUL \<notin> set m" by simp
  then show ?case using Cons(3) by (cases x) (auto split: if_splits)
qed simp

text \<open>After the operations the table is the directory they describe.\<close>

lemma run_ops_directory:
  assumes "glib_ascii_ok G" and "list_all op_text ops"
  shows "\<exists>rows. run_ops G ops new_database = Some (new_database\<lparr>cicaller := rows\<rparr>) \<and> rows_ok rows \<and>
    row_entries rows = fold described ops (\<lambda>k. None)"
proof -
  let ?rows = "fold table.apply_op ops []"
  have "rows_ok ?rows" "row_entries ?rows = fold described ops (\<lambda>k. None)"
    using table.apply_ops[of "[]" ops] by (simp_all add: rows_ok_def row_entries_def described_map_op[abs_def] case_prod_unfold)
  moreover have "run_ops G ops new_database = Some (new_database\<lparr>cicaller := ?rows\<rparr>)"
    using run_ops_rows[OF assms, of new_database] by (simp add: new_database_def)
  ultimately show ?thesis by blast
qed

section \<open>Properties\<close>

text \<open>
  C9: The directory of callers is a map from client and number to name. After any sequence of
  additions and removals on a new database, the name the program finds for a client and a
  number is the one the sequence describes, cut to 255 characters: an addition sets it, a removal
  takes effect only when it gives the present name, and numbers with anything but digits are
  refused.
\<close>

theorem caller_directory:
  assumes "glib_ascii_ok G" and "list_all op_text ops" and "text_in 256 b" and "NUL \<notin> set n"
  shows "\<exists>db. run_ops G ops new_database = Some db \<and> cidata db = [] \<and>
    (case fold described ops (\<lambda>k. None) (u, n) of
       None \<Rightarrow> dbhandler_get_caller G True db u (Some (n @ [NUL])) (Some b) = Some (1, Some b)
     | Some m \<Rightarrow> \<exists>x. dbhandler_get_caller G True db u (Some (n @ [NUL])) (Some b) = Some (0, Some x) \<and>
         cstr x = Some (take 255 m))"
proof -
  obtain rows where r: "run_ops G ops new_database = Some (new_database\<lparr>cicaller := rows\<rparr>)"
    and e: "rows_ok rows" "row_entries rows = fold described ops (\<lambda>k. None)"
    using run_ops_directory[OF assms(1,2)] by blast
  have n: "cstr (n @ [NUL]) = Some n" using assms(4) by simp
  note g = get_caller_entry[OF assms(1) n, of "new_database\<lparr>cicaller := rows\<rparr>" u b]
  show ?thesis
  proof (cases "fold described ops (\<lambda>k. None) (u, n)")
    case None
    then show ?thesis using r g e by (simp add: new_database_def)
  next
    case (Some m)
    then have "valid_text n" "NUL \<notin> set m" using described_values[OF Some assms(2)] by auto
    then show ?thesis
      using r g e Some text_in_strlcpy[OF assms(3), of 256 m] by (auto simp: new_database_def)
  qed
qed

theorem caller_directory_witness:
  "\<exists>db. run_ops ascii [AddCaller 1 ''030'' ''Bob'', AddCaller 1 ''030'' ''Eve'', DelCaller 1 ''030'' ''Bob'']
      new_database = Some db \<and> cidata db = [] \<and>
    (case fold described [AddCaller 1 ''030'' ''Bob'', AddCaller 1 ''030'' ''Eve'', DelCaller 1 ''030'' ''Bob'']
        (\<lambda>k. None) (1, ''030'') of
       None \<Rightarrow> dbhandler_get_caller ascii True db 1 (Some (''030'' @ [NUL])) (Some (replicate 256 NUL))
         = Some (1, Some (replicate 256 NUL))
     | Some m \<Rightarrow> \<exists>x. dbhandler_get_caller ascii True db 1 (Some (''030'' @ [NUL])) (Some (replicate 256 NUL))
         = Some (0, Some x) \<and> cstr x = Some (take 255 m))"
  by (rule caller_directory[OF ascii_ok]) (simp_all add: text_in_def)


definition sample_list_env :: list_env where
  "sample_list_env = \<lparr>l_glib = ascii, l_files = \<lambda>n. None, l_areas = ci_init_area_codes,
     ordered = \<lambda>rows. rev (sort_key call_time rows), finished = True, date_of = \<lambda>t. ''2014-01-05'',
     time_of = \<lambda>t. ''12:00:00'', names_ok = True\<rparr>"

lemma sample_list_env_ok: "list_env_ok sample_list_env"
proof -
  have "\<forall>rows. sorted_wrt (\<lambda>a b. call_time b \<le> call_time a) (rev (sort_key call_time rows))"
  proof
    fix rows
    show "sorted_wrt (\<lambda>a b. call_time b \<le> call_time a) (rev (sort_key call_time rows))"
      using sorted_sort_key[of call_time rows] by (simp add: sorted_wrt_rev sorted_wrt_map)
  qed
  then show ?thesis
    using ascii_ok by (simp add: list_env_ok_def sample_list_env_def areas_ok_def ci_init_area_codes_def)
qed

definition sample_call_row :: "int \<Rightarrow> call_row" where
  "sample_call_row t = \<lparr>call_id = t, call_number = Some ''030555'', call_name = None, call_time = t,
     call_msn = Some ''80504'', call_alias = None, call_service = None, call_fix = None\<rparr>"

definition sample_database :: database where
  "sample_database = \<lparr>cidata = map sample_call_row [1, 3, 2],
     cicaller = [\<lparr>clientid = 1, caller_number = Some ''030555'', caller_name = Some ''Bob''\<rparr>], insert_stepped = False\<rparr>"



definition sample_insert_env :: insert_env where
  "sample_insert_env = \<lparr>binds = \<lambda>i. True, steps = True, mktime = \<lambda>t. 1388919600\<rparr>"

definition sample_data :: CIDataSet where
  "sample_data = zero_dataset\<lparr>cidsNumberComplete := ''030555'' @ NUL # replicate 25 NUL,
     cidsDate := iso_date 2014 1 5 @ NUL # replicate 5 NUL, cidsTime := clock 12 0 0 @ NUL # replicate 7 NUL\<rparr>"

lemma sample_data_ok:
  "dataset_ok sample_data"
  "parse_datetime mk (Some (cidsDate sample_data)) (Some (cidsTime sample_data)) \<noteq> None"
proof -
  have "length (iso_date 2014 1 5) = 10" "length (clock 12 0 0) = 8"
    by (simp_all add: iso_date_def clock_def length_pad)
  then show "dataset_ok sample_data"
    using zero_ok(1) by (simp add: sample_data_def dataset_ok_def text_in_def)
  show "parse_datetime mk (Some (cidsDate sample_data)) (Some (cidsTime sample_data)) \<noteq> None"
    using parse_datetime_text[of 2014 1 5 12 0 0 mk "replicate 5 NUL" "replicate 7 NUL"] by (simp add: sample_data_def)
qed


text \<open>
  The statement that records calls does not recover from a failure: when SQLite has refused one
  insertion, the statement is not reset, no parameter can be bound again, and every later call
  is refused without being written, whatever SQLite would answer.
\<close>

theorem insert_never_recovers:
  assumes "dataset_ok d" and "parse_datetime (mktime E) (Some (cidsDate d)) (Some (cidsTime d)) \<noteq> None"
    and "list_all (binds E) [1, 2, 3, 4, 5, 6, 7]" and "\<not> steps E" and "dataset_ok d'"
    and "parse_datetime (mktime E') (Some (cidsDate d')) (Some (cidsTime d')) \<noteq> None"
  shows "\<exists>db1. dbhandler_add_data E (Some d) db = Some (1, db1) \<and> cidata db1 = cidata db \<and>
    dbhandler_add_data E' (Some d') db1 = Some (1, db1)"
proof -
  obtain t t' where t: "parse_datetime (mktime E) (Some (cidsDate d)) (Some (cidsTime d)) = Some t"
    "parse_datetime (mktime E') (Some (cidsDate d')) (Some (cidsTime d')) = Some t'" using assms(2,6) by auto
  let ?db = "db\<lparr>insert_stepped := True\<rparr>"
  have "dbhandler_add_data E (Some d) db = Some (1, if insert_stepped db then db else ?db)"
    using add_data_cases[OF assms(1) t(1), of db] assms(3,4) by (auto simp: insert_call_def)
  moreover have "(if insert_stepped db then db else ?db) = ?db" by (cases db) simp
  moreover have "dbhandler_add_data E' (Some d') ?db = Some (1, ?db)"
    using add_data_cases[OF assms(5) t(2), of ?db] by simp
  ultimately show ?thesis by auto
qed

theorem insert_never_recovers_witness:
  "\<exists>db1. dbhandler_add_data (sample_insert_env\<lparr>steps := False\<rparr>) (Some sample_data) new_database = Some (1, db1) \<and>
    cidata db1 = cidata new_database \<and> dbhandler_add_data sample_insert_env (Some sample_data) db1 = Some (1, db1)"
  by (rule insert_never_recovers) (simp_all add: sample_data_ok sample_insert_env_def)

text \<open>
  The timestamp of a call is made from the date and time the call monitor's message was formatted
  to: year, month, day, hour, minute and second, with leading zeros, reach \<open>mktime\<close> with the offsets
  of \<open>struct tm\<close>.
\<close>

theorem parse_datetime_fields:
  assumes "y < 10000" and "m < 100" and "d < 100" and "h < 100" and "n < 100" and "s < 100"
  shows "parse_datetime mk (Some (iso_date y m d @ NUL # xs)) (Some (clock h n s @ NUL # ys))
    = Some (of_int (mk \<lparr>tm_sec = int s, tm_min = int n, tm_hour = int h, tm_mday = int d,
        tm_mon = int m - 1, tm_year = int y - 1900, tm_wday = 0, tm_yday = 0, tm_isdst = - 1\<rparr>))"
  by (rule parse_datetime_text[OF assms])

theorem parse_datetime_fields_witness:
  "parse_datetime (\<lambda>t. tm_hour t * 60 + tm_min t) (Some (iso_date 2014 1 5 @ NUL # [])) (Some (clock 12 30 0 @ NUL # []))
    = Some (of_int ((\<lambda>t. tm_hour t * 60 + tm_min t) \<lparr>tm_sec = int 0, tm_min = int 30, tm_hour = int 12, tm_mday = int 5,
        tm_mon = int 1 - 1, tm_year = int 2014 - 1900, tm_wday = 0, tm_yday = 0, tm_isdst = - 1\<rparr>))"
  by (rule parse_datetime_fields) simp_all

end
