(* ===== verification/Requests.thy ===== *)
theory Requests
  imports Clients Db
begin

text \<open>
  The requests of a client, the middle part of \<open>ci-server.c\<close>: a message is collected from the
  socket, the library cinet reads it, and the handler of its type works on the call database and
  sends the answer to the same client.
\<close>

section \<open>Messages of a client\<close>

text \<open>
  What cinet makes of the bytes of a message, with the fields the handlers use; a text is a pointer
  to characters or NULL.
\<close>

datatype net_msg =
    NetVersion int u32 u32 u32
  | NetLeave int
  | NetDbNumCalls int
  | NetDbCallList int int int int
  | NetDbGetCaller int int "char list option"
  | NetDbAddCaller int int "char list option" "char list option"
  | NetDbDelCaller int int "char list option" "char list option"
  | NetDbGetCallerList int int "char list option"
  | NetOther int

text \<open>
  The functions of cinet: writing a new message, writing one that has been read, the return value
  and the field \<open>msglen\<close> when a header is read, and reading a whole message.
\<close>

record cinet =
  write_out :: "net_out \<Rightarrow> string"
  write_in :: "net_msg \<Rightarrow> string"
  header_length :: nat
  read_header :: "string \<Rightarrow> nat \<times> nat"
  read_msg :: "string \<Rightarrow> net_msg option"

text \<open>
  What the rest of the world answers during a request: \<open>send\<close>, the environment of the listing of
  calls, the indeterminate content of \<open>char name[256]\<close>, whether SQLite executes the statements, LIKE,
  and \<open>malloc\<close>.
\<close>

record request_env =
  q_send :: sends
  q_list :: list_env
  q_stack :: "char list"
  q_count :: bool
  q_update :: bool
  q_insert :: bool
  q_delete :: bool
  q_like :: "string \<Rightarrow> string \<Rightarrow> bool"
  q_prepared :: bool
  q_got :: "nat option"
  q_alloc :: bool

type_synonym served = "CIClient \<times> database \<times> (int \<times> string) list"

section \<open>Answers\<close>

text \<open>One call of \<open>send\<close>, whose result is not looked at.\<close>

definition cisrv_send_message :: "sends \<Rightarrow> CIClient option \<Rightarrow> string \<Rightarrow> int \<times> (int \<times> string) list" where
  "cisrv_send_message A client buffer =
     (case client of
        None \<Rightarrow> (- 1, [])
      | Some c \<Rightarrow> (0, [(cl_sock c, take (nat (A (cl_sock c) 0 (length buffer))) buffer)]))"

definition answer :: "sends \<Rightarrow> CIClient \<Rightarrow> database \<Rightarrow> string \<Rightarrow> served" where
  "answer A c db msgdata = (c, db, snd (cisrv_send_message A (Some c) msgdata))"

definition new_message :: "net_type \<Rightarrow> (string \<times> net_value) list \<Rightarrow> net_out" where
  "new_message ty vs = \<lparr>out_type = ty, out_values = vs, out_list = []\<rparr>"

text \<open>The text of a pointer, and of an array.\<close>

definition ptr_text :: "char list option \<Rightarrow> net_value option" where
  "ptr_text p = (case p of None \<Rightarrow> Some (Text None) | Some a \<Rightarrow> do { s \<leftarrow> cstr a; Some (Text (Some s)) })"

section \<open>The handlers\<close>

definition handle_version :: "cinet \<Rightarrow> request_env \<Rightarrow> CIClient \<Rightarrow> database \<Rightarrow> int \<Rightarrow> u32 \<Rightarrow> u32 \<Rightarrow> u32 \<Rightarrow> served" where
  "handle_version L Q c db guid maj mi pat =
     answer (q_send Q) (c\<lparr>cl_version := CI_MAKE_VERSION maj mi pat\<rparr>) db (write_out L (new_message CI_NET_MSG_VERSION
       [(''major'', Num 3), (''minor'', Num 0), (''patch'', Num 0), (''guid'', Num guid)]))"

definition handle_leave :: "cinet \<Rightarrow> request_env \<Rightarrow> CIClient \<Rightarrow> database \<Rightarrow> int \<Rightarrow> served" where
  "handle_leave L Q c db guid =
     answer (q_send Q) (mark c) db (write_out L (new_message CI_NET_MSG_LEAVE [(''guid'', Num guid)]))"

definition handle_db_num_calls :: "cinet \<Rightarrow> request_env \<Rightarrow> CIClient \<Rightarrow> database \<Rightarrow> int \<Rightarrow> served" where
  "handle_db_num_calls L Q c db guid =
     answer (q_send Q) c db (write_out L (new_message CI_NET_MSG_DB_NUM_CALLS
       [(''count'', Long (dbhandler_get_num_calls (q_count Q) db)), (''guid'', Num guid)]))"

text \<open>The description of a call; the list is built by prepending and then reversed.\<close>

definition call_info :: "CIDbCall \<Rightarrow> (string \<times> net_value) list option" where
  "call_info c = do {
     n \<leftarrow> ptr_text (Some (cidsNumberComplete (db_data c)));
     code \<leftarrow> ptr_text (Some (cidsAreaCode (db_data c)));
     k \<leftarrow> ptr_text (Some (cidsNumber (db_data c)));
     date \<leftarrow> ptr_text (Some (cidsDate (db_data c)));
     time \<leftarrow> ptr_text (Some (cidsTime (db_data c)));
     m \<leftarrow> ptr_text (Some (cidsMSN (db_data c)));
     al \<leftarrow> ptr_text (Some (cidsAlias (db_data c)));
     area \<leftarrow> ptr_text (Some (cidsArea (db_data c)));
     name \<leftarrow> ptr_text (Some (cidsName (db_data c)));
     Some [(''id'', Num (db_id c)), (''completenumber'', n), (''areacode'', code), (''number'', k),
       (''date'', date), (''time'', time), (''msn'', m), (''alias'', al), (''area'', area), (''name'', name)] }"

fun add_calls :: "CIDbCall list \<Rightarrow> net_out \<Rightarrow> net_out option" where
  "add_calls [] reply = Some reply"
| "add_calls (c # cs) reply = do { i \<leftarrow> call_info c; add_calls cs (reply\<lparr>out_list := i # out_list reply\<rparr>) }"

definition handle_db_call_list ::
  "cinet \<Rightarrow> request_env \<Rightarrow> CIClient \<Rightarrow> database \<Rightarrow> int \<Rightarrow> int \<Rightarrow> int \<Rightarrow> int \<Rightarrow> served option" where
  "handle_db_call_list L Q c db guid user off cnt = do {
     result \<leftarrow> dbhandler_get_calls (q_list Q) db user off cnt;
     reply \<leftarrow> add_calls result (new_message CI_NET_MSG_DB_CALL_LIST
       [(''user'', Num user), (''offset'', Num off), (''count'', Num cnt), (''guid'', Num guid)]);
     Some (answer (q_send Q) c db (write_out L (reply\<lparr>out_list := rev (out_list reply)\<rparr>))) }"

definition handle_db_get_caller ::
  "cinet \<Rightarrow> request_env \<Rightarrow> CIClient \<Rightarrow> database \<Rightarrow> int \<Rightarrow> int \<Rightarrow> char list option \<Rightarrow> served option" where
  "handle_db_get_caller L Q c db guid user num = do {
     (rc, name) \<leftarrow> dbhandler_get_caller (l_glib (q_list Q)) (names_ok (q_list Q)) db user num (Some (q_stack Q));
     n \<leftarrow> ptr_text num;
     name \<leftarrow> ptr_text (if rc = 0 then name else None);
     Some (answer (q_send Q) c db (write_out L (new_message CI_NET_MSG_DB_GET_CALLER
       [(''guid'', Num guid), (''user'', Num user), (''number'', n), (''name'', name)]))) }"

text \<open>The request itself is the answer, whatever the database said.\<close>

definition handle_db_add_caller ::
  "cinet \<Rightarrow> request_env \<Rightarrow> CIClient \<Rightarrow> database \<Rightarrow> int \<Rightarrow> int \<Rightarrow> char list option \<Rightarrow> char list option \<Rightarrow> served option" where
  "handle_db_add_caller L Q c db guid user num name = do {
     (rc, db) \<leftarrow> dbhandler_add_caller (l_glib (q_list Q)) (q_update Q) (q_insert Q) db user num name;
     Some (answer (q_send Q) c db (write_in L (NetDbAddCaller guid user num name))) }"

definition handle_db_del_caller ::
  "cinet \<Rightarrow> request_env \<Rightarrow> CIClient \<Rightarrow> database \<Rightarrow> int \<Rightarrow> int \<Rightarrow> char list option \<Rightarrow> char list option \<Rightarrow> served option" where
  "handle_db_del_caller L Q c db guid user num name = do {
     (rc, db) \<leftarrow> dbhandler_remove_caller (l_glib (q_list Q)) (q_delete Q) db user num name;
     Some (answer (q_send Q) c db (write_in L (NetDbDelCaller guid user num name))) }"

fun add_callers :: "CIDbCaller list \<Rightarrow> net_out \<Rightarrow> net_out" where
  "add_callers [] reply = reply"
| "add_callers (c # cs) reply = add_callers cs (reply\<lparr>out_list :=
     [(''number'', Text (dbc_number c)), (''name'', Text (dbc_name c))] # out_list reply\<rparr>)"

definition handle_db_get_caller_list ::
  "cinet \<Rightarrow> request_env \<Rightarrow> CIClient \<Rightarrow> database \<Rightarrow> int \<Rightarrow> int \<Rightarrow> char list option \<Rightarrow> served option" where
  "handle_db_get_caller_list L Q c db guid user filt = do {
     result \<leftarrow> dbhandler_get_callers (q_like Q) (q_prepared Q) (q_got Q) db user filt;
     f \<leftarrow> ptr_text filt;
     let reply = add_callers result (new_message CI_NET_MSG_DB_GET_CALLER_LIST
       [(''guid'', Num guid), (''user'', Num user), (''filter'', f)])
     in Some (answer (q_send Q) c db (write_out L (reply\<lparr>out_list := rev (out_list reply)\<rparr>))) }"

text \<open>The switch over the type.\<close>

fun handle_message :: "cinet \<Rightarrow> request_env \<Rightarrow> CIClient \<Rightarrow> database \<Rightarrow> net_msg \<Rightarrow> served option" where
  "handle_message L Q c db (NetVersion g maj mi pat) = Some (handle_version L Q c db g maj mi pat)"
| "handle_message L Q c db (NetLeave g) = Some (handle_leave L Q c db g)"
| "handle_message L Q c db (NetDbNumCalls g) = Some (handle_db_num_calls L Q c db g)"
| "handle_message L Q c db (NetDbCallList g u off cnt) = handle_db_call_list L Q c db g u off cnt"
| "handle_message L Q c db (NetDbGetCaller g u num) = handle_db_get_caller L Q c db g u num"
| "handle_message L Q c db (NetDbAddCaller g u num name) = handle_db_add_caller L Q c db g u num name"
| "handle_message L Q c db (NetDbDelCaller g u num name) = handle_db_del_caller L Q c db g u num name"
| "handle_message L Q c db (NetDbGetCallerList g u filt) = handle_db_get_caller_list L Q c db g u filt"
| "handle_message L Q c db (NetOther ty) = Some (c, db, [])"

section \<open>Collecting a message\<close>

text \<open>
  The socket delivers its bytes in chunks; an empty chunk is an error or the end, and when no chunk
  is left a call that does not wait fails, while one that waits does not return.
\<close>

fun sock_recv :: "nat \<Rightarrow> string list \<Rightarrow> string \<times> string list" where
  "sock_recv n [] = ([], [])"
| "sock_recv n (c # cs) = (take n c, if length c \<le> n then cs else drop n c # cs)"

lemma sock_recv_concat: "sock_recv n cs = (x, cs') \<Longrightarrow> concat cs = x @ concat cs' \<and> length x \<le> n"
  by (cases cs) (auto split: if_splits)

lemma sock_recv_less: "sock_recv n cs = (x, cs') \<Longrightarrow> x \<noteq> [] \<Longrightarrow> length (concat cs') < length (concat cs)"
  by (drule sock_recv_concat) simp

function drain_loop :: "string list \<Rightarrow> string list" where
  "drain_loop cs = (let (x, cs') = sock_recv 32 cs in if x = [] then cs' else drain_loop cs')"
  by pat_completeness auto

termination
  by (relation "measure (\<lambda>cs. length (concat cs))") (auto intro: sock_recv_less[OF sym])

function body_loop :: "nat \<Rightarrow> string \<Rightarrow> string list \<Rightarrow> string option \<times> string list" where
  "body_loop len acc cs =
     (if length acc < len
      then (let (x, cs') = sock_recv (len - length acc) cs in
        if x = [] then (None, cs') else body_loop len (acc @ x) cs')
      else (Some acc, cs))"
  by pat_completeness auto

termination
  by (relation "measure (\<lambda>(len, acc, cs). len - length acc)")
     (auto intro: diff_less_mono2 simp flip: length_greater_0_conv)

declare drain_loop.simps [simp del] body_loop.simps [simp del]

text \<open>The client, the database, what is sent, and what is left in the socket.\<close>

definition handle_client_message ::
  "cinet \<Rightarrow> request_env \<Rightarrow> CIClient \<Rightarrow> database \<Rightarrow> string list \<Rightarrow> (served \<times> string list) option" where
  "handle_client_message L Q c db cs =
     (if cs = [] then None
      else let (x, cs) = sock_recv (header_length L) cs in
        if x = [] then Some ((mark c, db, []), cs)
        else do {
          buffer \<leftarrow> put (replicate 32 NUL) 0 x;
          let (n, msglen) = read_header L x in
          if n < header_length L then Some ((c, db, []), drain_loop cs)
          else if \<not> q_alloc Q then Some ((c, db, []), cs)
          else do {
            hdr \<leftarrow> slice buffer 0 (header_length L);
            (case body_loop msglen [] cs of
               (None, cs) \<Rightarrow> Some ((mark c, db, []), cs)
             | (Some body, cs) \<Rightarrow>
                 (case read_msg L (hdr @ body) of
                    None \<Rightarrow> Some ((c, db, []), cs)
                  | Some msg \<Rightarrow> do { r \<leftarrow> handle_message L Q c db msg; Some (r, cs) })) } })"

section \<open>Framing\<close>

abbreviation chunks :: "string list \<Rightarrow> bool" where
  "chunks cs \<equiv> list_all (\<lambda>c. c \<noteq> []) cs"

lemma sock_recv_chunks:
  assumes "chunks cs" and "sock_recv n cs = (x, cs')" and "0 < n"
  shows "chunks cs' \<and> (x = [] \<longleftrightarrow> cs = [])"
  using assms by (cases cs) (auto split: if_splits)

text \<open>However the bytes arrive, the body is the next \<open>len\<close> of them, or there are not enough.\<close>

lemma body_loop_bytes:
  assumes "chunks cs" and "length acc \<le> len"
  shows "if len \<le> length (acc @ concat cs)
    then \<exists>cs'. body_loop len acc cs = (Some (take len (acc @ concat cs)), cs') \<and> concat cs' = drop len (acc @ concat cs)
    else body_loop len acc cs = (None, [])"
  using assms
proof (induction "len - length acc" arbitrary: acc cs rule: less_induct)
  case less
  show ?case
  proof (cases "length acc < len")
    case False
    then show ?thesis using less.prems(2) by (subst (1 2) body_loop.simps) auto
  next
    case True
    obtain x cs' where r: "sock_recv (len - length acc) cs = (x, cs')" by fastforce
    note b = sock_recv_concat[OF r] sock_recv_chunks[OF less.prems(1) r]
    have e: "body_loop len acc cs = (if x = [] then (None, cs') else body_loop len (acc @ x) cs')"
      using True r by (subst body_loop.simps) simp
    show ?thesis
    proof (cases "cs = []")
      case True
      then show ?thesis using e r \<open>length acc < len\<close> by simp
    next
      case False
      then have x: "x \<noteq> []" using b True by simp
      have "length x \<le> len - length acc" using b by simp
      then have "length (acc @ x) \<le> len" "len - length (acc @ x) < len - length acc"
        using True x by (auto simp flip: length_greater_0_conv intro: diff_less_mono2)
      have "chunks cs'" using b True by simp
      note IH = less.hyps[OF \<open>len - length (acc @ x) < len - length acc\<close> this \<open>length (acc @ x) \<le> len\<close>]
      have "acc @ concat cs = (acc @ x) @ concat cs'" "body_loop len acc cs = body_loop len (acc @ x) cs'"
        using b e x by simp_all
      then show ?thesis using IH by (simp only:)
    qed
  qed
qed

lemma sock_recv_header:
  assumes "chunks cs" and "cs \<noteq> []" and "concat cs = hdr @ bytes" and "0 < length hdr" and "length hdr \<le> length (hd cs)"
  shows "\<exists>cs'. sock_recv (length hdr) cs = (hdr, cs') \<and> chunks cs' \<and> concat cs' = bytes"
proof -
  obtain x cs' where r: "sock_recv (length hdr) cs = (x, cs')" by fastforce
  moreover have "x = hdr"
  proof -
    have "x = take (length hdr) (hd cs)" using r assms(2) by (cases cs) auto
    also have "\<dots> = take (length hdr) (concat cs)" using assms(2,5) by (cases cs) auto
    finally show ?thesis using assms(3) by simp
  qed
  ultimately show ?thesis
    using sock_recv_concat[OF r] sock_recv_chunks[OF assms(1) r assms(4)] assms(3) by auto
qed

lemma message_framing:
  assumes "header_length L \<le> 32" and "0 < length hdr" and "length hdr = header_length L"
    and "read_header L hdr = (header_length L, n)" and "q_alloc Q"
    and "chunks cs" and "cs \<noteq> []" and "concat cs = hdr @ bytes" and "length hdr \<le> length (hd cs)"
  shows "if n \<le> length bytes
    then \<exists>cs'. concat cs' = drop n bytes \<and> handle_client_message L Q c db cs =
      (case read_msg L (hdr @ take n bytes) of
         None \<Rightarrow> Some ((c, db, []), cs') | Some msg \<Rightarrow> map_option (\<lambda>r. (r, cs')) (handle_message L Q c db msg))
    else handle_client_message L Q c db cs = Some ((mark c, db, []), [])"
proof -
  obtain cs' where r: "sock_recv (header_length L) cs = (hdr, cs')" "chunks cs'" "concat cs' = bytes"
    using sock_recv_header[OF assms(6,7,8,2,9)] assms(3) by auto
  obtain buffer where b: "put (replicate 32 NUL) 0 hdr = Some buffer" "slice buffer 0 (header_length L) = Some hdr"
    using assms(1,3) by (simp add: put_def slice_def)
  have h: "handle_client_message L Q c db cs = (case body_loop n [] cs' of
      (None, cs) \<Rightarrow> Some ((mark c, db, []), cs)
    | (Some body, cs) \<Rightarrow> (case read_msg L (hdr @ body) of
         None \<Rightarrow> Some ((c, db, []), cs)
       | Some msg \<Rightarrow> do { r \<leftarrow> handle_message L Q c db msg; Some (r, cs) }))"
    using assms(2,4,5,7) by (simp add: handle_client_message_def r(1) b)
  show ?thesis
    using body_loop_bytes[OF r(2), of "[]" n] r(3)
    by (cases "n \<le> length bytes") (auto simp: h map_conv_bind_option comp_def split: option.splits)
qed

section \<open>The directory over the network\<close>

lemma cstr_ptr: "NUL \<notin> set s \<Longrightarrow> ptr_text (Some (s @ [NUL])) = Some (Text (Some s))"
  by (simp add: ptr_text_def)

text \<open>The requests for operations on the directory, one after the other.\<close>

fun request_of :: "int \<Rightarrow> caller_op \<Rightarrow> net_msg" where
  "request_of g (AddCaller u n m) = NetDbAddCaller g u (Some (n @ [NUL])) (Some (m @ [NUL]))"
| "request_of g (DelCaller u n m) = NetDbDelCaller g u (Some (n @ [NUL])) (Some (m @ [NUL]))"

fun serve :: "cinet \<Rightarrow> request_env \<Rightarrow> CIClient \<Rightarrow> net_msg list \<Rightarrow> database \<Rightarrow> database option" where
  "serve L Q c [] db = Some db"
| "serve L Q c (m # ms) db = do { (c, db, out) \<leftarrow> handle_message L Q c db m; serve L Q c ms db }"

lemma serve_ops:
  assumes "q_update Q" and "q_insert Q" and "q_delete Q"
  shows "serve L Q c (map (request_of g) ops) db = run_ops (l_glib (q_list Q)) ops db"
proof (induction ops arbitrary: db)
  case (Cons x ops)
  then show ?case
    by (cases x) (auto simp: assms handle_db_add_caller_def handle_db_del_caller_def answer_def split: bind_splits)
qed simp

lemma get_caller_answer:
  assumes "glib_ascii_ok (l_glib (q_list Q))" and "names_ok (q_list Q)" and "length (q_stack Q) = 256"
    and "rows_ok (cicaller db)" and "NUL \<notin> set n"
    and "(if valid_text n then row_entries (cicaller db) (u, n) else None) = found"
    and "list_all (\<lambda>m. NUL \<notin> set m) (case found of None \<Rightarrow> [] | Some m \<Rightarrow> [m])"
  shows "handle_db_get_caller L Q c db g u (Some (n @ [NUL])) =
    Some (answer (q_send Q) c db (write_out L (new_message CI_NET_MSG_DB_GET_CALLER
      [(''guid'', Num g), (''user'', Num u), (''number'', Text (Some n)),
       (''name'', Text (map_option (take 255) found))])))"
proof -
  have n: "cstr (n @ [NUL]) = Some n" using assms(5) by simp
  note e = get_caller_entry[OF assms(1) n assms(4), of u "q_stack Q", unfolded assms(6)]
  show ?thesis
  proof (cases found)
    case None
    then show ?thesis using e by (simp add: handle_db_get_caller_def assms(2) cstr_ptr[OF assms(5)]) (simp add: ptr_text_def)
  next
    case (Some m)
    then have "NUL \<notin> set m" using assms(7) by simp
    then obtain a where "strlcpy (q_stack Q) m 256 = Some a" "cstr a = Some (take 255 m)"
      using strlcpy_fits[of 256 "q_stack Q" m] assms(3) by auto
    then show ?thesis using e Some by (simp add: handle_db_get_caller_def assms(2) cstr_ptr[OF assms(5)]) (simp add: ptr_text_def)
  qed
qed

section \<open>One answer for each request\<close>

text \<open>One piece of text for the client itself, and the same client but for its flag and version.\<close>

definition answers :: "CIClient \<Rightarrow> database \<Rightarrow> bool \<Rightarrow> served \<Rightarrow> bool" where
  "answers c db leaves r \<longleftrightarrow> (case r of (c', db', out) \<Rightarrow>
     map fst out = [cl_sock c] \<and> cl_sock c' = cl_sock c \<and> cidata db' = cidata db \<and> cl_flags c' = (if leaves then cl_flags (mark c) else cl_flags c))"

lemma answer_answers:
  "cidata db' = cidata db \<Longrightarrow> answers c db False (answer A c db' t)"
  "answers c db True (answer A (mark c) db t)"
  "answers c db False (answer A (c\<lparr>cl_version := v\<rparr>) db t)"
  by (simp_all add: answers_def answer_def cisrv_send_message_def mark_def)

lemma caller_ops_calls:
  "dbhandler_add_caller G a b db u n m = Some (rc, db') \<Longrightarrow> cidata db' = cidata db"
  "dbhandler_remove_caller G a db u n m = Some (rc, db') \<Longrightarrow> cidata db' = cidata db"
  by (auto simp: dbhandler_add_caller_def dbhandler_remove_caller_def c_bind split: option.splits if_splits)

primrec is_known :: "net_msg \<Rightarrow> bool" where
  "is_known (NetVersion g a b p) = True"
| "is_known (NetLeave g) = True"
| "is_known (NetDbNumCalls g) = True"
| "is_known (NetDbCallList g u off cnt) = True"
| "is_known (NetDbGetCaller g u n) = True"
| "is_known (NetDbAddCaller g u n m) = True"
| "is_known (NetDbDelCaller g u n m) = True"
| "is_known (NetDbGetCallerList g u f) = True"
| "is_known (NetOther ty) = False"

lemma handled_answers:
  assumes "handle_message L Q c db msg = Some r" and "is_known msg"
  shows "answers c db (\<exists>g. msg = NetLeave g) r"
proof (cases msg)
  case (NetLeave g)
  then show ?thesis using assms by (auto simp: handle_leave_def intro: answer_answers)
next
  case (NetVersion g a b p)
  then show ?thesis using assms by (auto simp: handle_version_def intro: answer_answers)
qed (use assms in \<open>auto simp: handle_db_num_calls_def handle_db_call_list_def handle_db_get_caller_def
      handle_db_add_caller_def handle_db_del_caller_def handle_db_get_caller_list_def c_bind Let_def
      intro!: answer_answers dest: caller_ops_calls\<close>)

lemma handled_sock:
  assumes "handle_client_message L Q c db cs = Some ((c', db', out), cs')"
  shows "cl_sock c' = cl_sock c \<and> cidata db' = cidata db"
proof -
  have "cl_sock c' = cl_sock c \<and> cidata db' = cidata db"
    if "handle_message L Q c db msg = Some (c', db', out)" for msg
  proof (cases "is_known msg")
    case True
    then show ?thesis using handled_answers[OF that] by (auto simp: answers_def)
  next
    case False
    then show ?thesis using that by (cases msg) auto
  qed
  note m = this
  obtain x cs1 where x: "sock_recv (header_length L) cs = (x, cs1)" by fastforce
  obtain k n where h: "read_header L x = (k, n)" by fastforce
  obtain b cs2 where b: "body_loop n [] cs1 = (b, cs2)" by fastforce
  show ?thesis
    using assms by (cases b) (auto simp: handle_client_message_def x h b c_bind split: if_splits option.splits dest: m)
qed

section \<open>Properties\<close>


definition sample_cinet :: cinet where
  "sample_cinet = \<lparr>write_out = (\<lambda>m. ''message''), write_in = (\<lambda>m. ''request''), header_length = 2,
     read_header = (\<lambda>h. (length h, if h = ''L3'' then 3 else 0)),
     read_msg = (\<lambda>t. if t = ''L3abc'' then Some (NetLeave 5) else None)\<rparr>"

definition sample_request_env :: request_env where
  "sample_request_env = \<lparr>q_send = (\<lambda>fd w n. int n), q_list = sample_list_env, q_stack = replicate 256 NUL,
     q_count = True, q_update = True, q_insert = True, q_delete = True, q_like = (\<lambda>f s. f = s), q_prepared = True,
     q_got = None, q_alloc = True\<rparr>"


text \<open>
  C10: The directory over the network: after any requests that add and remove callers, the answer to a
  request for a caller names the client and the number of the request, and the name that the earlier requests
  describe, cut to 255 characters, or none.
\<close>

theorem remote_directory:
  assumes "glib_ascii_ok (l_glib (q_list Q))" and "names_ok (q_list Q)" and "length (q_stack Q) = 256"
    and "q_update Q" and "q_insert Q" and "q_delete Q" and "list_all op_text ops" and "NUL \<notin> set n"
  shows "\<exists>db. serve L Q c (map (request_of g) ops) new_database = Some db \<and>
    handle_message L Q c db (NetDbGetCaller g' u (Some (n @ [NUL]))) =
      Some (answer (q_send Q) c db (write_out L (new_message CI_NET_MSG_DB_GET_CALLER
        [(''guid'', Num g'), (''user'', Num u), (''number'', Text (Some n)),
         (''name'', Text (map_option (take 255) (fold described ops (\<lambda>k. None) (u, n))))])))"
proof -
  obtain rows where r: "run_ops (l_glib (q_list Q)) ops new_database = Some (new_database\<lparr>cicaller := rows\<rparr>)"
    and e: "rows_ok rows" "row_entries rows = fold described ops (\<lambda>k. None)"
    using run_ops_directory[OF assms(1,7)] by blast
  let ?db = "new_database\<lparr>cicaller := rows\<rparr>" and ?f = "fold described ops (\<lambda>k. None) (u, n)"
  have v: "valid_text n \<and> NUL \<notin> set m" if "?f = Some m" for m
    using described_values[OF that assms(7)] by simp
  have f: "(if valid_text n then row_entries (cicaller ?db) (u, n) else None) = ?f"
    using v e(2) by (cases ?f) auto
  have "list_all (\<lambda>m. NUL \<notin> set m) (case ?f of None \<Rightarrow> [] | Some m \<Rightarrow> [m])" using v by (cases ?f) auto
  from get_caller_answer[OF assms(1-3) _ assms(8) f this, of L c g'] e(1)
  show ?thesis using r by (simp add: serve_ops assms(4-6))
qed

theorem remote_directory_witness:
  "\<exists>db. serve sample_cinet sample_request_env (sample_client 7 0)
      (map (request_of 9) [AddCaller 1 ''030'' ''Bob'', AddCaller 1 ''030'' ''Eve'']) new_database = Some db \<and>
    handle_message sample_cinet sample_request_env (sample_client 7 0) db (NetDbGetCaller 10 1 (Some (''030'' @ [NUL]))) =
      Some (answer (q_send sample_request_env) (sample_client 7 0) db (write_out sample_cinet (new_message CI_NET_MSG_DB_GET_CALLER
        [(''guid'', Num 10), (''user'', Num 1), (''number'', Text (Some ''030'')),
         (''name'', Text (map_option (take 255) (fold described [AddCaller 1 ''030'' ''Bob'', AddCaller 1 ''030'' ''Eve'']
            (\<lambda>k. None) (1, ''030''))))])))"
  by (rule remote_directory) (use ascii_ok in \<open>simp_all add: sample_request_env_def sample_list_env_def\<close>)

text \<open>
  C29: Every request the server knows is answered exactly once, to the client that has asked and to no other;
  no request changes the recorded calls, and only the request to leave marks the client.
\<close>

theorem request_answered_once:
  assumes "handle_message L Q c db msg = Some (c', db', out)" and "is_known msg"
  shows "map fst out = [cl_sock c] \<and> cl_sock c' = cl_sock c \<and> cidata db' = cidata db \<and>
    cl_flags c' = (if (\<exists>g. msg = NetLeave g) then cl_flags (mark c) else cl_flags c)"
  using handled_answers[OF assms] by (simp add: answers_def)

theorem request_answered_once_witness:
  "map fst (snd (snd (handle_leave sample_cinet sample_request_env (sample_client 7 0) new_database 5)))
     = [cl_sock (sample_client 7 0)] \<and>
   cl_flags (fst (handle_leave sample_cinet sample_request_env (sample_client 7 0) new_database 5))
     = cl_flags (mark (sample_client 7 0))"
proof -
  obtain c' db' out where h: "handle_leave sample_cinet sample_request_env (sample_client 7 0) new_database 5 = (c', db', out)"
    using prod_cases3 by blast
  then have "handle_message sample_cinet sample_request_env (sample_client 7 0) new_database (NetLeave 5) = Some (c', db', out)"
    by simp
  from request_answered_once[OF this] h show ?thesis by simp
qed

end
