(* ===== verification/Server.thy ===== *)
theory Server
  imports Requests
begin

text \<open>
  The listening thread of \<open>ci-server.c\<close> and the threads beside it. The list of clients is guarded by
  \<open>clist_lock\<close>, but the lock is given back between the parts of a turn, so the steps are the parts
  that hold it: the thread that announces calls can send and remove clients between any two
  of them. The invariant says to whom every descriptor belongs.
\<close>

section \<open>The parts of a turn\<close>

text \<open>\<open>FD_SET\<close> for every client, and the largest descriptor.\<close>

fun client_fds :: "CIClient list \<Rightarrow> int set \<Rightarrow> int \<Rightarrow> (int set \<times> int) option" where
  "client_fds [] fds m = Some (fds, m)"
| "client_fds (c # cs) fds m = do {
     fds \<leftarrow> fd_set (cl_sock c) fds;
     client_fds cs fds (if m < cl_sock c then cl_sock c else m) }"

definition listen_fds :: "CIServer \<Rightarrow> (int set \<times> int) option" where
  "listen_fds s = do {
     fds \<leftarrow> fd_set (cs_sock s) {};
     fds \<leftarrow> fd_set (cs_pipe_r s) fds;
     client_fds (cs_clients s) fds (if cs_pipe_r s < cs_sock s then cs_sock s else cs_pipe_r s) }"

definition fd_isset :: "int \<Rightarrow> int set \<Rightarrow> bool option" where
  "fd_isset fd fds = (if 0 \<le> fd \<and> fd < FD_SETSIZE then Some (fd \<in> fds) else None)"

text \<open>\<open>newsock\<close> is what \<open>accept\<close> returns; a failure is added to the list as well.\<close>

definition accept_part :: "int \<Rightarrow> int set \<Rightarrow> CIServer \<Rightarrow> CIServer option" where
  "accept_part newsock ready s = do {
     a \<leftarrow> fd_isset (cs_sock s) ready;
     Some (if a
       then cisrv_add_client newsock (if newsock = - 1 then s else s\<lparr>cs_open := insert newsock (cs_open s)\<rparr>)
       else s) }"

text \<open>The requests of the clients whose sockets are ready; \<open>inp\<close> is what the sockets deliver.\<close>

fun serve_clients :: "cinet \<Rightarrow> (int \<Rightarrow> request_env) \<Rightarrow> (int \<Rightarrow> string list) \<Rightarrow> int set \<Rightarrow> CIClient list \<Rightarrow> database \<Rightarrow>
    (CIClient list \<times> database \<times> (int \<times> string) list) option" where
  "serve_clients L Q inp ready [] db = Some ([], db, [])"
| "serve_clients L Q inp ready (c # cs) db = do {
     r \<leftarrow> fd_isset (cl_sock c) ready;
     (c, db, out) \<leftarrow> (if r then do {
          (res, rest) \<leftarrow> handle_client_message L (Q (cl_sock c)) c db (inp (cl_sock c)); Some res }
        else Some (c, db, []));
     (cs, db, outs) \<leftarrow> serve_clients L Q inp ready cs db;
     Some (c # cs, db, out @ outs) }"

definition serve_part :: "cinet \<Rightarrow> (int \<Rightarrow> request_env) \<Rightarrow> (int \<Rightarrow> string list) \<Rightarrow> int set \<Rightarrow> CIServer \<Rightarrow> database \<Rightarrow>
    (CIServer \<times> database) option" where
  "serve_part L Q inp ready s db = do {
     (cs, db, out) \<leftarrow> serve_clients L Q inp ready (cs_clients s) db;
     Some (s\<lparr>cs_clients := cs, cs_sent := cs_sent s @ out\<rparr>, db) }"

section \<open>Steps\<close>

text \<open>
  Where the listening thread is: before \<open>bind\<close>, at the top of its loop, in \<open>select\<close> with the set it has
  built, in front of the requests with the set of ready descriptors, in front of the removal, or
  at its end. \<open>sys_sending\<close>: the other thread has sent a message and not yet removed clients.
\<close>

datatype phase = Binding | Top | Selecting "int set" | Serving "int set" | Sweeping "int set" | Ended

record system =
  sys_server :: CIServer
  sys_db :: database
  sys_phase :: phase
  sys_sending :: bool

definition begin_part :: "(bind_result \<times> int) list \<Rightarrow> int \<Rightarrow> CIServer \<Rightarrow> phase option" where
  "begin_part rs listened s = do {
     rc \<leftarrow> wait_for_bind (cs_sock s) (cs_pipe_r s) rs;
     Some (if rc = - 1 \<or> rc = 1 then Ended else if listened = - 1 then Ended else Top) }"

inductive srv_step :: "cinet \<Rightarrow> system \<Rightarrow> system \<Rightarrow> bool" for L where
  begin_step: "sys_phase y = Binding \<Longrightarrow> begin_part rs listened (sys_server y) = Some p \<Longrightarrow> srv_step L y (y\<lparr>sys_phase := p\<rparr>)"
| fds_step: "sys_phase y = Top \<Longrightarrow> listen_fds (sys_server y) = Some (fds, m) \<Longrightarrow> srv_step L y (y\<lparr>sys_phase := Selecting fds\<rparr>)"
| fail_step: "sys_phase y = Selecting fds \<Longrightarrow> srv_step L y (y\<lparr>sys_phase := Ended\<rparr>)"
| accept_step: "sys_phase y = Selecting fds \<Longrightarrow> ready \<subseteq> fds \<Longrightarrow>
    newsock = - 1 \<or> 0 \<le> newsock \<and> newsock \<notin> cs_open (sys_server y) \<Longrightarrow>
    accept_part newsock ready (sys_server y) = Some s \<Longrightarrow> srv_step L y (y\<lparr>sys_server := s, sys_phase := Serving ready\<rparr>)"
| serve_step: "sys_phase y = Serving ready \<Longrightarrow> serve_part L Q inp ready (sys_server y) (sys_db y) = Some (s, d) \<Longrightarrow>
    srv_step L y (y\<lparr>sys_server := s, sys_db := d, sys_phase := Sweeping ready\<rparr>)"
| sweep_step: "sys_phase y = Sweeping ready \<Longrightarrow> cisrv_remove_marked_clients K (sys_server y) = Some s \<Longrightarrow>
    fd_isset (cs_pipe_r s) ready = Some e \<Longrightarrow> srv_step L y (y\<lparr>sys_server := s, sys_phase := (if e then Ended else Top)\<rparr>)"
| send_step: "\<not> sys_sending y \<Longrightarrow> broadcast_send (write_out L) A ty data msgid (sys_server y) = Some (0, s) \<Longrightarrow>
    srv_step L y (y\<lparr>sys_server := s, sys_sending := True\<rparr>)"
| sent_step: "sys_sending y \<Longrightarrow> cisrv_remove_marked_clients K (sys_server y) = Some s \<Longrightarrow>
    srv_step L y (y\<lparr>sys_server := s, sys_sending := False\<rparr>)"

inductive_cases srv_stepE: "srv_step L y y'"

text \<open>The rest of the program opens descriptors, and closes those of its own.\<close>

abbreviation client_socks :: "CIServer \<Rightarrow> int list" where
  "client_socks s \<equiv> map cl_sock (filter (\<lambda>c. cl_sock c \<noteq> - 1) (cs_clients s))"

definition own :: "CIServer \<Rightarrow> int list" where
  "own s = [cs_sock s, cs_pipe_r s, cs_pipe_w s] @ client_socks s"

definition foreign :: "CIServer \<Rightarrow> int set" where
  "foreign s = cs_open s - set (own s)"

inductive env_step :: "system \<Rightarrow> system \<Rightarrow> bool" where
  opens: "0 \<le> fd \<Longrightarrow> fd \<notin> cs_open (sys_server y) \<Longrightarrow>
    env_step y (y\<lparr>sys_server := (sys_server y)\<lparr>cs_open := insert fd (cs_open (sys_server y))\<rparr>\<rparr>)"
| closes: "fd \<in> foreign (sys_server y) \<Longrightarrow> env_step y (y\<lparr>sys_server := close_fd fd (sys_server y)\<rparr>)"
| pipes: "env_step y (y\<lparr>sys_server := (sys_server y)\<lparr>cs_pipe := t\<rparr>\<rparr>)"

definition any_step :: "cinet \<Rightarrow> system \<Rightarrow> system \<Rightarrow> bool" where
  "any_step L y y' \<longleftrightarrow> srv_step L y y' \<or> env_step y y'"

section \<open>Descriptors\<close>

definition srv_ok :: "CIServer \<Rightarrow> bool" where
  "srv_ok s \<longleftrightarrow> distinct (own s) \<and> set (own s) \<subseteq> cs_open s \<and> - 1 \<notin> cs_open s"

text \<open>What a part of the server may do with descriptors.\<close>

definition tidy :: "CIServer \<Rightarrow> CIServer \<Rightarrow> bool" where
  "tidy s s' \<longleftrightarrow> srv_ok s' \<and> foreign s' = foreign s \<and> cs_state s' = cs_state s \<and> cs_thread s' = cs_thread s"

lemma client_socks_map: "client_socks s = filter (\<lambda>fd. fd \<noteq> - 1) (map cl_sock (cs_clients s))"
  by (simp add: filter_map comp_def)

lemma tidy_refl: "srv_ok s \<Longrightarrow> tidy s s"
  by (simp add: tidy_def)

lemma tidy_same_socks:
  assumes "srv_ok s" and "map cl_sock (cs_clients s') = map cl_sock (cs_clients s)" and "cs_open s' = cs_open s"
    and "cs_sock s' = cs_sock s" "cs_pipe_r s' = cs_pipe_r s" "cs_pipe_w s' = cs_pipe_w s"
    and "cs_state s' = cs_state s" "cs_thread s' = cs_thread s"
  shows "tidy s s'"
proof -
  have "own s' = own s" using assms(2,4-6) unfolding own_def client_socks_map by simp
  then show ?thesis using assms(1,3,7,8) by (simp add: tidy_def srv_ok_def foreign_def)
qed

lemma tidy_accept:
  assumes "srv_ok s" and "newsock = - 1 \<or> 0 \<le> newsock \<and> newsock \<notin> cs_open s"
    and "accept_part newsock ready s = Some s'"
  shows "tidy s s'"
proof (cases "s' = s")
  case True
  then show ?thesis using assms(1) by (simp add: tidy_def)
next
  case False
  then have s': "s' = cisrv_add_client newsock (if newsock = - 1 then s else s\<lparr>cs_open := insert newsock (cs_open s)\<rparr>)"
    using assms(3) by (auto simp: accept_part_def c_bind split: if_splits)
  have f: "cs_sock s' = cs_sock s" "cs_pipe_r s' = cs_pipe_r s" "cs_pipe_w s' = cs_pipe_w s" "cs_state s' = cs_state s"
    "cs_thread s' = cs_thread s" by (simp_all add: s' cisrv_add_client_def)
  show ?thesis
  proof (cases "newsock = - 1")
    case True
    then have "own s' = own s" "cs_open s' = cs_open s" by (simp_all add: s' own_def cisrv_add_client_def)
    then show ?thesis using assms(1) f by (simp add: tidy_def srv_ok_def foreign_def)
  next
    case False
    then have o: "own s' = own s @ [newsock]" "cs_open s' = insert newsock (cs_open s)" by (simp_all add: s' own_def cisrv_add_client_def)
    have n: "newsock \<notin> cs_open s" using assms(2) False by simp
    have "newsock \<notin> set (own s)" using n assms(1) by (auto simp: srv_ok_def)
    then have "srv_ok s'" "foreign s' = foreign s" using assms(1) False o n by (auto simp: srv_ok_def foreign_def)
    then show ?thesis using f by (simp add: tidy_def)
  qed
qed

lemma tidy_remove:
  assumes "srv_ok s" and "cisrv_remove_marked_clients K s = Some s'"
  shows "tidy s s'"
proof -
  let ?m = "filter marked (cs_clients s)" and ?k = "filter (\<lambda>c. \<not> marked c) (cs_clients s)"
  let ?fix = "[cs_sock s, cs_pipe_r s, cs_pipe_w s]" and ?r = "filter (\<lambda>c. cl_sock c \<noteq> - 1)"
  have s': "s' = s\<lparr>cs_clients := ?k, cs_open := cs_open s - socks ?m\<rparr>"
    using assms(2) by (simp add: remove_marked split: if_splits)
  have d: "distinct ?fix" "distinct (client_socks s)" "set ?fix \<inter> set (client_socks s) = {}" "set (own s) \<subseteq> cs_open s" "- 1 \<notin> cs_open s"
    using assms(1) by (simp_all add: srv_ok_def own_def)
  have inj: "inj_on cl_sock (set (?r (cs_clients s)))" using d(2) by (simp add: distinct_map)
  have o: "own s' = ?fix @ map cl_sock (?r ?k)" "cs_open s' = cs_open s - socks ?m" by (simp_all add: s' own_def)
  have r: "?r ?k = filter (\<lambda>c. \<not> marked c) (?r (cs_clients s))" by (simp add: conj_commute)
  have k: "distinct (map cl_sock (?r ?k))" unfolding r using d(2) by (rule distinct_map_filter)
  have k_sub: "set (map cl_sock (?r ?k)) \<subseteq> set (client_socks s)" by auto
  have k_m: "set (map cl_sock (?r ?k)) \<inter> socks ?m = {}" using inj by (fastforce dest: inj_onD)
  have f_m: "set ?fix \<inter> socks ?m = {}"
  proof -
    have "- 1 \<notin> set ?fix" using d(4,5) by (auto simp: own_def)
    then show ?thesis using d(3) by fastforce
  qed
  have all: "set (own s) = set ?fix \<union> set (map cl_sock (?r ?k)) \<union> (socks ?m - {- 1})" by (auto simp: own_def)
  have sets: "a \<union> b \<subseteq> c - m" "c - m - (a \<union> b) = c - (a \<union> b \<union> (m - {- 1}))"
    if "a \<inter> m = {}" "b \<inter> m = {}" "a \<union> b \<union> (m - {- 1}) \<subseteq> c" "- 1 \<notin> c" for a b c m :: "int set"
    using that by blast+
  note sets = sets[OF f_m k_m d(4)[unfolded all] d(5)]
  have "set ?fix \<inter> set (map cl_sock (?r ?k)) = {}" using d(3) k_sub by (meson disjoint_iff subsetD)
  then have "distinct (own s')" using d(1) k unfolding o(1) distinct_append by (intro conjI)
  moreover have "set (own s') \<subseteq> cs_open s'" unfolding o set_append by (rule sets(1))
  moreover have "foreign s' = foreign s" unfolding foreign_def o set_append all by (rule sets(2))
  ultimately show ?thesis using d(5) by (simp add: tidy_def srv_ok_def s')
qed

lemma serve_clients_socks:
  "serve_clients L Q inp ready cs db = Some (cs', db', out) \<Longrightarrow>
     map cl_sock cs' = map cl_sock cs \<and> cidata db' = cidata db"
proof (induction cs arbitrary: db cs' out)
  case Nil
  then show ?case by simp
next
  case (Cons c cs)
  from Cons.prems obtain r c1 db1 out1 cs2 out2 where r: "fd_isset (cl_sock c) ready = Some r"
    "(if r then do { (res, rest) \<leftarrow> handle_client_message L (Q (cl_sock c)) c db (inp (cl_sock c)); Some res }
      else Some (c, db, [])) = Some (c1, db1, out1)"
    and s: "serve_clients L Q inp ready cs db1 = Some (cs2, db', out2)" and cs': "cs' = c1 # cs2"
    by (auto simp: bind_eq_Some_conv)
  have "cl_sock c1 = cl_sock c \<and> cidata db1 = cidata db"
    using r(2) by (auto simp: c_bind dest: handled_sock split: if_splits)
  then show ?case using Cons.IH[OF s] cs' by simp
qed

lemma tidy_serve:
  "srv_ok s \<Longrightarrow> serve_part L Q inp ready s db = Some (s', db') \<Longrightarrow> tidy s s'"
  by (rule tidy_same_socks) (auto simp: serve_part_def c_bind dest: serve_clients_socks)

lemma tidy_send:
  assumes "srv_ok s" and "broadcast_send W A ty data msgid s = Some (0, s')"
  shows "tidy s s'"
proof -
  have "cl_sock (fst (broadcast_client A ty t u c)) = cl_sock c" for t u c
    by (auto simp: broadcast_client_def Let_def split: prod.splits)
  then show ?thesis
    using assms by (intro tidy_same_socks) (auto simp: broadcast_send_def c_bind Let_def comp_def split: option.splits)
qed

lemma srv_step_tidy: "srv_step L y y' \<Longrightarrow> srv_ok (sys_server y) \<Longrightarrow> tidy (sys_server y) (sys_server y')"
  by (induction rule: srv_step.induct)
     (auto intro: tidy_accept tidy_remove tidy_serve tidy_send tidy_refl)

lemma env_step_ok:
  assumes "env_step y y'" and "srv_ok (sys_server y)"
  shows "srv_ok (sys_server y') \<and> own (sys_server y') = own (sys_server y) \<and>
    cs_state (sys_server y') = cs_state (sys_server y) \<and> cs_thread (sys_server y') = cs_thread (sys_server y)"
  using assms by (induction rule: env_step.induct) (auto simp: srv_ok_def own_def foreign_def close_fd_def)

abbreviation steady :: "CIServer \<Rightarrow> bool" where
  "steady s \<equiv> srv_ok s \<and> cs_state s = CISrvStateRunning \<and> cs_thread s"

lemma steps_ok: "(any_step L)\<^sup>*\<^sup>* y y' \<Longrightarrow> steady (sys_server y) \<Longrightarrow> steady (sys_server y')"
proof (induction rule: rtranclp_induct)
  case (step y' y'')
  then show ?case
    using srv_step_tidy[of L y' y''] env_step_ok[of y' y''] by (auto simp: any_step_def tidy_def)
qed simp

text \<open>The start of the server: \<open>cisrv_init\<close> and \<open>cisrv_run\<close> with fresh descriptors.\<close>

definition starts :: "int \<Rightarrow> int \<Rightarrow> int \<Rightarrow> u16 \<Rightarrow> CIServer \<Rightarrow> CIServer \<Rightarrow> bool" where
  "starts fd r w prt s0 s \<longleftrightarrow> - 1 \<notin> cs_open s0 \<and> distinct [fd, r, w] \<and> list_all (\<lambda>x. 0 \<le> x \<and> x \<notin> cs_open s0) [fd, r, w] \<and>
     s = snd (cisrv_run prt (Some (r, w)) True (snd (cisrv_init fd s0)))"

lemma starts_steady: "starts fd r w prt s0 s \<Longrightarrow> steady s \<and> foreign s = cs_open s0"
  by (auto simp: starts_def cisrv_init_def cisrv_run_def srv_ok_def own_def foreign_def Let_def)

text \<open>\<open>cisrv_cleanup\<close> only clears the mutex of the list.\<close>

definition cisrv_cleanup :: int where
  "cisrv_cleanup = 0"

section \<open>The end of the server\<close>

lemma shutdown_content:
  "broadcast_content CIServerMsgDisconnect None None =
     Some (Some \<lparr>out_type = CI_NET_MSG_SHUTDOWN, out_values = [], out_list = []\<rparr>)"
  "length (CINetMessage CIServerMsgDisconnect None) < 2 ^ 63"
  using zero_ok(1) by (simp_all add: broadcast_content_def CINetMessage_def dataset_bytes_def dataset_ok_def text_in_def)

text \<open>Telling the clients and closing their sockets: it returns when every peer closes.\<close>

lemma farewell:
  assumes "sends_ok A"
  shows "do { (rc, s) \<leftarrow> cisrv_broadcast_message W A K CIServerMsgDisconnect None None s;
              cisrv_close_all_clients K (s\<lparr>cs_state := st\<rparr>) } =
    (if list_all (peer_ends K) (map cl_sock (cs_clients s))
     then Some (s\<lparr>cs_state := st, cs_clients := [], cs_open := cs_open s - socks (cs_clients s),
       cs_sent := cs_sent s @ concat (map (delivery A CIServerMsgDisconnect
         (W \<lparr>out_type = CI_NET_MSG_SHUTDOWN, out_values = [], out_list = []\<rparr>) (CINetMessage CIServerMsgDisconnect None)) (cs_clients s))\<rparr>)
     else None)"
proof -
  let ?keep = "keeps A CIServerMsgDisconnect (W \<lparr>out_type = CI_NET_MSG_SHUTDOWN, out_values = [], out_list = []\<rparr>)
    (CINetMessage CIServerMsgDisconnect None)"
  have all: "list_all (peer_ends K) (map cl_sock (cs_clients s)) \<longleftrightarrow>
      list_all (peer_ends K) (map cl_sock (filter (\<lambda>c. \<not> ?keep c) (cs_clients s))) \<and>
      list_all (peer_ends K) (map cl_sock (filter ?keep (cs_clients s)))"
    by (auto simp: list_all_iff)
  have socks: "cs_open s - socks (filter (\<lambda>c. \<not> ?keep c) (cs_clients s)) - socks (filter ?keep (cs_clients s))
      = cs_open s - socks (cs_clients s)" by auto
  show ?thesis
    unfolding broadcast_message[OF assms shutdown_content(2,1)] Let_def all
    by (simp add: close_all socks del: set_filter set_map)
qed

lemma disconnect:
  assumes "sends_ok A" and "steady s" and "joined (s\<lparr>cs_pipe := cs_pipe s @ ''disconnect''\<rparr>) = Some t" and "steady t"
  shows "\<exists>s'. cisrv_disconnect W A K joined s =
      (if list_all (peer_ends K) (map cl_sock (cs_clients t)) then Some s' else None) \<and>
    cs_clients s' = [] \<and> cs_state s' = CISrvStateInitialized \<and> cs_sock s' = - 1 \<and> cs_open s' = foreign t"
proof -
  define u where "u = (close_fd (cs_pipe_w t) (close_fd (cs_pipe_r t) (t\<lparr>cs_thread := False\<rparr>)))\<lparr>cs_state := CISrvStateConnected\<rparr>"
  have u: "cs_clients u = cs_clients t" "cs_open u = cs_open t - {cs_pipe_r t} - {cs_pipe_w t}" "cs_sock u = cs_sock t"
    "cs_state u = CISrvStateConnected" by (simp_all add: u_def close_fd_def)
  let ?fin = "\<lambda>s. Some ((close_fd (cs_sock s) s)\<lparr>cs_sock := - 1\<rparr>)"
  have run: "cs_state s = CISrvStateRunning" "cs_thread s" using assms(2) by simp_all
  have "cisrv_disconnect W A K joined s = Option.bind (do { (rc, s) \<leftarrow> cisrv_broadcast_message W A K CIServerMsgDisconnect None None u;
      cisrv_close_all_clients K (s\<lparr>cs_state := CISrvStateInitialized\<rparr>) }) ?fin"
    unfolding cisrv_disconnect_def Let_def
    by (simp add: run assms(3) u_def[symmetric] u(4) split_def)
  moreover have "cs_open t - {cs_pipe_r t} - {cs_pipe_w t} - socks (cs_clients t) - {cs_sock t} = foreign t"
    using assms(4) by (auto simp: foreign_def own_def srv_ok_def)
  moreover have "\<exists>s' :: CIServer. cs_clients s' = [] \<and> cs_state s' = CISrvStateInitialized \<and> cs_sock s' = - 1 \<and> cs_open s' = foreign t"
    by (rule exI[of _ "t\<lparr>cs_clients := [], cs_state := CISrvStateInitialized, cs_sock := - 1, cs_open := foreign t\<rparr>"]) simp
  ultimately show ?thesis
    unfolding farewell[OF assms(1)] u(1)
    by (cases "list_all (peer_ends K) (map cl_sock (cs_clients t))") (auto simp: close_fd_def u)
qed

section \<open>A set that is out of date\<close>

text \<open>A whole broadcast is two steps.\<close>

lemma broadcast_steps:
  assumes "cisrv_broadcast_message (write_out L) A K ty data msgid (sys_server y) = Some (0, s)" and "\<not> sys_sending y"
  shows "(any_step L)\<^sup>*\<^sup>* y (y\<lparr>sys_server := s, sys_sending := False\<rparr>)"
proof -
  obtain u where u: "broadcast_send (write_out L) A ty data msgid (sys_server y) = Some (0, u)"
    "cisrv_remove_marked_clients K u = Some s"
    using assms(1) by (auto simp: cisrv_broadcast_message_def c_bind split: if_splits)
  let ?y = "y\<lparr>sys_server := u, sys_sending := True\<rparr>"
  have "any_step L y ?y" using srv_step.send_step[OF assms(2) u(1)] by (simp add: any_step_def)
  moreover have "any_step L ?y (?y\<lparr>sys_server := s, sys_sending := False\<rparr>)"
    using srv_step.sent_step[of ?y K s] u(2) by (simp add: any_step_def)
  ultimately show ?thesis by simp
qed

lemma serve_clients_waits:
  "list_all (\<lambda>c. cl_sock c \<notin> ready) cs \<Longrightarrow> cl_sock c \<in> ready \<Longrightarrow> inp (cl_sock c) = [] \<Longrightarrow>
     serve_clients L Q inp ready (cs @ [c]) db = None"
  by (induction cs) (auto simp: fd_isset_def handle_client_message_def)

lemma accept_waits:
  assumes "srv_ok (sys_server y)" and "sys_phase y = Selecting fds" and "{cs_sock (sys_server y), k} \<subseteq> fds"
    and "cs_sock (sys_server y) < FD_SETSIZE" and "0 \<le> cs_sock (sys_server y)" and "0 \<le> k" and "k \<notin> cs_open (sys_server y)"
  shows "\<exists>s. srv_step L y (y\<lparr>sys_server := s, sys_phase := Serving {cs_sock (sys_server y), k}\<rparr>) \<and> k \<in> socks (cs_clients s) \<and>
    (\<forall>Q inp. inp k = [] \<longrightarrow> serve_part L Q inp {cs_sock (sys_server y), k} s (sys_db y) = None)"
proof -
  let ?s = "sys_server y" and ?ready = "{cs_sock (sys_server y), k}"
  let ?new = "\<lparr>cl_sock = k, cl_flags = 0, cl_version = CI_MAKE_VERSION 2 0 0\<rparr>"
  let ?t = "?s\<lparr>cs_open := insert k (cs_open ?s), cs_clients := cs_clients ?s @ [?new]\<rparr>"
  have a: "accept_part k ?ready ?s = Some ?t"
    using assms(4-6) by (simp add: accept_part_def fd_isset_def cisrv_add_client_def)
  have "cl_sock c \<notin> ?ready" if c: "c \<in> set (cs_clients ?s)" for c
  proof (cases "cl_sock c = - 1")
    case True
    then show ?thesis using assms(5,6) by simp
  next
    case False
    then have "cl_sock c \<in> set (client_socks ?s)" using c by auto
    then show ?thesis using assms(1,7) by (auto simp: srv_ok_def own_def)
  qed
  then have "list_all (\<lambda>c. cl_sock c \<notin> ?ready) (cs_clients ?s)" by (auto simp: list_all_iff)
  from serve_clients_waits[OF this, where c = ?new]
  have "serve_part L Q inp ?ready ?t (sys_db y) = None" if "inp k = []" for Q inp
    using that by (simp add: serve_part_def)
  moreover have "srv_step L y (y\<lparr>sys_server := ?t, sys_phase := Serving ?ready\<rparr>)"
    by (rule srv_step.accept_step[OF assms(2,3) _ a]) (use assms(6,7) in simp)
  ultimately show ?thesis by (intro exI[of _ ?t]) auto
qed

section \<open>Properties\<close>

text \<open>
  C6: Whatever the order of the parts of turns, of broadcasts by the other thread and of the rest of the program:
  the listening socket, the two ends of the pipe and the sockets of the clients are different descriptors and
  are open, and no step of the server opens a descriptor it does not list or closes
  one that is not its own.
\<close>

theorem client_invariant:
  assumes "starts fd r w prt s0 s" and "(any_step L)\<^sup>*\<^sup>* \<lparr>sys_server = s, sys_db = d, sys_phase = Binding, sys_sending = False\<rparr> y"
  shows "distinct (own (sys_server y)) \<and> set (own (sys_server y)) \<subseteq> cs_open (sys_server y) \<and>
    {y'. srv_step L y y'} \<subseteq> {y'. foreign (sys_server y') = foreign (sys_server y)}"
proof -
  have ok: "srv_ok (sys_server y)" using steps_ok[OF assms(2)] starts_steady[OF assms(1)] by simp
  then show ?thesis using srv_step_tidy by (auto simp: srv_ok_def tidy_def)
qed

definition no_ci_server :: CIServer where
  "no_ci_server = \<lparr>cs_sock = 0, cs_port = 0, cs_thread = False, cs_pipe_r = 0, cs_pipe_w = 0,
     cs_state = CISrvStateUninitialized, cs_clients = [], cs_open = {0, 1, 2}, cs_sent = [], cs_pipe = []\<rparr>"

definition started :: CIServer where
  "started = snd (cisrv_run 63690 (Some (4, 5)) True (snd (cisrv_init 3 no_ci_server)))"

lemma starts_started: "starts 3 4 5 63690 no_ci_server started"
  by (simp add: starts_def started_def no_ci_server_def)

definition before_bind :: system where
  "before_bind = \<lparr>sys_server = started, sys_db = new_database, sys_phase = Binding, sys_sending = False\<rparr>"

lemma bound_step: "srv_step L before_bind (before_bind\<lparr>sys_phase := Top\<rparr>)"
proof (rule srv_step.begin_step)
  show "begin_part [(Bound, 0)] 0 (sys_server before_bind) = Some Top"
    by (simp add: before_bind_def begin_part_def wait_for_bind_def started_def cisrv_init_def cisrv_run_def Let_def no_ci_server_def)
qed (simp add: before_bind_def)

theorem client_invariant_witness:
  "distinct (own (sys_server (before_bind\<lparr>sys_phase := Top\<rparr>))) \<and>
    set (own (sys_server (before_bind\<lparr>sys_phase := Top\<rparr>))) \<subseteq> cs_open (sys_server (before_bind\<lparr>sys_phase := Top\<rparr>)) \<and>
    {y'. srv_step sample_cinet (before_bind\<lparr>sys_phase := Top\<rparr>) y'} \<subseteq>
      {y'. foreign (sys_server y') = foreign (sys_server (before_bind\<lparr>sys_phase := Top\<rparr>))}"
proof (rule client_invariant[OF starts_started])
  have "any_step sample_cinet before_bind (before_bind\<lparr>sys_phase := Top\<rparr>)" by (simp add: any_step_def bound_step)
  then show "(any_step sample_cinet)\<^sup>*\<^sup>* \<lparr>sys_server = started, sys_db = new_database, sys_phase = Binding, sys_sending = False\<rparr>
      (before_bind\<lparr>sys_phase := Top\<rparr>)" unfolding before_bind_def by (rule r_into_rtranclp)
qed



text \<open>
  C31: The set of ready descriptors can be out of date. When the other thread has removed a client while the listening
  thread was in \<open>select\<close>, \<open>accept\<close> may return the same descriptor for a new client; the thread then takes the new
  client for ready and waits for its first byte in \<open>recv\<close>, with the lock held, for as long
  as the client sends nothing.
\<close>

theorem stale_set_blocks:
  assumes "starts fd r w prt s0 s" and "(any_step L)\<^sup>*\<^sup>* \<lparr>sys_server = s, sys_db = d, sys_phase = Binding, sys_sending = False\<rparr> y"
    and "sys_phase y = Selecting fds" and "{cs_sock (sys_server y), k} \<subseteq> fds" and "cs_sock (sys_server y) \<in> {0 ..< FD_SETSIZE}"
    and "0 \<le> k" and "k \<notin> cs_open (sys_server y)" and "inp k = []"
  shows "\<exists>s. srv_step L y (y\<lparr>sys_server := s, sys_phase := Serving {cs_sock (sys_server y), k}\<rparr>) \<and> k \<in> socks (cs_clients s) \<and>
    serve_part L Q inp {cs_sock (sys_server y), k} s (sys_db y) = None"
  using accept_waits[OF _ assms(3,4) _ _ assms(6,7), of L] steps_ok[OF assms(2)] starts_steady[OF assms(1)] assms(5,8) by auto

definition with_client :: CIServer where
  "with_client = cisrv_add_client 6 (started\<lparr>cs_open := insert 6 (cs_open started)\<rparr>)"

definition stale :: system where
  "stale = \<lparr>sys_server = with_client\<lparr>cs_open := cs_open with_client - {6}, cs_clients := [],
     cs_sent := [(6, take 100 (CINetMessage CIServerMsgDisconnect None))]\<rparr>, sys_db = new_database,
     sys_phase = Selecting {3, 4, 6}, sys_sending = False\<rparr>"

lemma started_fields:
  "cs_sock started = 3" "cs_pipe_r started = 4" "cs_clients started = []" "cs_open started = {0, 1, 2, 3, 4, 5}"
  "cs_sent started = []"
  by (auto simp: started_def cisrv_init_def cisrv_run_def Let_def no_ci_server_def)

lemma stale_reachable: "(any_step sample_cinet)\<^sup>*\<^sup>* before_bind stale"
proof -
  let ?sys = "\<lambda>s p. \<lparr>sys_server = s, sys_db = new_database, sys_phase = p, sys_sending = False\<rparr>"
  let ?R = "any_step sample_cinet"
  have s0: "?R before_bind (?sys started Top)"
    using bound_step[of sample_cinet] by (simp add: any_step_def before_bind_def)
  have s1: "?R (?sys started Top) (?sys started (Selecting {3, 4}))"
    using srv_step.fds_step[of "?sys started Top" "{3, 4}" 4 sample_cinet]
    by (simp add: any_step_def listen_fds_def started_fields fd_set_def insert_commute)
  have s2: "?R (?sys started (Selecting {3, 4})) (?sys with_client (Serving {3}))"
    using srv_step.accept_step[of "?sys started (Selecting {3, 4})" "{3, 4}" "{3}" 6 with_client sample_cinet]
    by (simp add: any_step_def accept_part_def started_fields fd_isset_def with_client_def)
  have c: "cs_clients with_client = [\<lparr>cl_sock = 6, cl_flags = 0, cl_version = CI_MAKE_VERSION 2 0 0\<rparr>]"
    "cs_sent with_client = []" "cs_sock with_client = 3" "cs_pipe_r with_client = 4"
    by (simp_all add: with_client_def cisrv_add_client_def started_fields)
  have "with_client\<lparr>cs_clients := cs_clients with_client, cs_sent := cs_sent with_client\<rparr> = with_client" by simp
  then have "serve_part sample_cinet Q inp {3} with_client new_database = Some (with_client, new_database)" for Q inp
    by (simp add: serve_part_def c fd_isset_def)
  then have s3: "?R (?sys with_client (Serving {3})) (?sys with_client (Sweeping {3}))"
    using srv_step.serve_step[of "?sys with_client (Serving {3})" "{3}" sample_cinet _ _ with_client new_database]
    by (simp add: any_step_def)
  have m: "\<not> marked \<lparr>cl_sock = 6, cl_flags = 0, cl_version = CI_MAKE_VERSION 2 0 0\<rparr>" by (simp add: marked_def)
  have "cisrv_remove_marked_clients K with_client = Some with_client" for K
  proof -
    have "with_client\<lparr>cs_clients := cs_clients with_client, cs_open := cs_open with_client\<rparr> = with_client" by simp
    then show ?thesis using m by (simp add: remove_marked c)
  qed
  then have s4: "?R (?sys with_client (Sweeping {3})) (?sys with_client Top)"
    using srv_step.sweep_step[of "?sys with_client (Sweeping {3})" "{3}" _ with_client False sample_cinet]
    by (simp add: any_step_def c fd_isset_def)
  have s5: "?R (?sys with_client Top) (?sys with_client (Selecting {3, 4, 6}))"
    using srv_step.fds_step[of "?sys with_client Top" "{3, 4, 6}" 6 sample_cinet]
    by (simp add: any_step_def listen_fds_def c fd_set_def insert_commute)
  let ?A = "\<lambda>fd w n. min 100 (int n)" and ?K = "\<lambda>fd :: int. (False, [] :: int list)"
  have A: "sends_ok ?A" by (simp add: sends_ok_def)
  have "\<not> modern \<lparr>cl_sock = 6, cl_flags = 0, cl_version = CI_MAKE_VERSION 2 0 0\<rparr>"
    using check_version[of "Version 2 0 0" "Version 3 0 0"] by (simp add: modern_def)
  moreover have "length (CINetMessage CIServerMsgDisconnect None) = 1409"
    using length_CINetMessage[OF zero_ok(1)] by (simp add: CINetMessage_def)
  ultimately have "cisrv_broadcast_message (write_out sample_cinet) ?A ?K CIServerMsgDisconnect None None with_client
    = Some (0, sys_server stale)"
    unfolding broadcast_message[OF A shutdown_content(2,1)]
    by (simp add: c keeps_def reached_def peer_ends_def stale_def delivery_def broadcast_client_def modern_def Let_def)
  from broadcast_steps[where y = "?sys with_client (Selecting {3, 4, 6})", simplified, OF this]
  have "?R\<^sup>*\<^sup>* (?sys with_client (Selecting {3, 4, 6})) stale" by (simp add: stale_def)
  then show ?thesis using s0 s1 s2 s3 s4 s5 by (meson converse_rtranclp_into_rtranclp)
qed

theorem stale_set_blocks_witness:
  "\<exists>s. srv_step sample_cinet stale (stale\<lparr>sys_server := s, sys_phase := Serving {cs_sock (sys_server stale), 6}\<rparr>) \<and> 6 \<in> socks (cs_clients s) \<and>
    serve_part sample_cinet (\<lambda>fd. sample_request_env) (\<lambda>fd. []) {cs_sock (sys_server stale), 6} s (sys_db stale) = None"
  by (rule stale_set_blocks[OF starts_started stale_reachable[unfolded before_bind_def]])
     (auto simp: stale_def with_client_def cisrv_add_client_def started_fields)

text \<open>
  C38: The set for \<open>select\<close> can be built exactly when the listening socket, the pipe and the sockets of all clients are
  between 0 and 1023; then it consists of them, and the bound is the largest. A failed
  \<open>accept\<close>, whose -1 is added to the list, therefore makes the next turn undefined, and so does the
  descriptor 1024.
\<close>

theorem select_set_defined_iff:
  "listen_fds s = (if list_all (\<lambda>fd. fd \<in> {0 ..< FD_SETSIZE}) (cs_sock s # cs_pipe_r s # map cl_sock (cs_clients s))
     then Some (insert (cs_sock s) (insert (cs_pipe_r s) (socks (cs_clients s))),
       fold max (map cl_sock (cs_clients s)) (max (cs_sock s) (cs_pipe_r s))) else None) \<and>
   listen_fds (cisrv_add_client (- 1) s) = None"
proof -
  have c: "client_fds cs fds m = (if list_all (\<lambda>fd. fd \<in> {0 ..< FD_SETSIZE}) (map cl_sock cs)
      then Some (fds \<union> socks cs, fold max (map cl_sock cs) m) else None)" for cs fds m
  proof (induction cs arbitrary: fds m)
    case (Cons c cs)
    have "(if m < cl_sock c then cl_sock c else m) = max (cl_sock c) m" by simp
    then show ?case using Cons by (auto simp: fd_set_def)
  qed simp
  have m: "(if b < a then a else b) = max a (b :: int)" for a b by simp
  show ?thesis
    unfolding listen_fds_def c m by (auto simp: fd_set_def cisrv_add_client_def c)
qed

end
