(* ===== verification/Url.thy ===== *)
theory Url
  imports CIData Areacodes
begin

text \<open>
  The query of a reverse lookup in \<open>lookup.c\<close>: \<open>_cirlw_prepare_url\<close> replaces the placeholders of
  a URL in two passes, one for the size and one for the text, and \<open>_cirlw_remove_escapes\<close> turns
  escaped spaces of an answer back in place. Specifications are a list of literal characters
  and placeholders, and a recursive function on strings.
\<close>

abbreviation PCT :: char where "PCT \<equiv> CHR ''%''"

section \<open>Operations\<close>

text \<open>
  The text of a placeholder from position \<open>i\<close> on, copied to the local \<open>pattern[32]\<close>, with the
  number of characters; both passes use the same loop.
\<close>

definition placeholder :: "char list \<Rightarrow> nat \<Rightarrow> (string \<times> nat) option" where
  "placeholder url i = do {
     (p, e, k) \<leftarrow> copy_while (\<lambda>c. c \<noteq> PCT) url (Suc i) (replicate 32 NUL) 0;
     p \<leftarrow> wr p k NUL;
     s \<leftarrow> cstr p;
     Some (s, k) }"

definition getsubstitutediff :: "char list \<Rightarrow> nat \<Rightarrow> CICaller \<Rightarrow> 32 word option" where
  "getsubstitutediff url i caller = do {
     c \<leftarrow> rd url i;
     if c \<noteq> PCT then Some 0
     else do {
       (p, k) \<leftarrow> placeholder url i;
       if p = ''NUMBER'' then do {
         n \<leftarrow> cstr (NumberComplete caller);
         Some (ucast (of_nat (length n) - of_nat (length p) - 2 :: 64 word)) }
       else Some 0 } }"

text \<open>\<open>url[i] == '%' && !g_ascii_isdigit(url[i+1])\<close>.\<close>

definition at_placeholder :: "glib_ascii \<Rightarrow> char list \<Rightarrow> nat \<Rightarrow> bool option" where
  "at_placeholder G url i = do {
     c \<leftarrow> rd url i;
     if c = PCT then do { d \<leftarrow> rd url (Suc i); Some (\<not> isdigit G d) } else Some False }"

lemma scan_ge: "scan P a i = Some j \<Longrightarrow> i \<le> j"
proof (induction P a i rule: scan.induct)
  case (1 P a i)
  then show ?case
    by (subst (asm) (2) scan.simps) (auto split: if_splits)
qed

text \<open>The first pass.\<close>

function diff_loop :: "glib_ascii \<Rightarrow> char list \<Rightarrow> CICaller \<Rightarrow> nat \<Rightarrow> 32 word \<Rightarrow> 32 word option" where
  "diff_loop G url caller i diff =
     (if i < length url
      then if url ! i = NUL then Some diff
        else (case at_placeholder G url i of
            None \<Rightarrow> None
          | Some False \<Rightarrow> diff_loop G url caller (Suc i) diff
          | Some True \<Rightarrow> (case getsubstitutediff url i caller of
                None \<Rightarrow> None
              | Some d \<Rightarrow> (case scan (\<lambda>c. c \<noteq> PCT) url (Suc i) of
                    None \<Rightarrow> None
                  | Some e \<Rightarrow> diff_loop G url caller (Suc e) (diff + d))))
      else None)"
  by pat_completeness auto

termination
  by (relation "measure (\<lambda>(G, url, caller, i, diff). length url - i)") (auto dest: scan_ge)

declare diff_loop.simps [simp del]

text \<open>
  The second pass, one round of its loop: \<open>Inl\<close> goes on with the output and the two
  positions, \<open>Inr\<close> has met the end of the string.
\<close>

definition url_step :: "glib_ascii \<Rightarrow> char list \<Rightarrow> CICaller \<Rightarrow> char list \<times> nat \<times> nat \<Rightarrow>
    (char list \<times> nat \<times> nat + char list \<times> nat) option" where
  "url_step G url caller = (\<lambda>(out, i, j). do {
     c \<leftarrow> rd url i;
     if c = NUL then Some (Inr (out, j))
     else do {
       p \<leftarrow> at_placeholder G url i;
       if p then do {
         (s, k) \<leftarrow> placeholder url i;
         let i' = i + (k + 2) in
         if s = ''NUMBER'' then do {
           n \<leftarrow> cstr (NumberComplete caller);
           out \<leftarrow> put out j (n @ [NUL]);
           Some (Inl (out, i', j + length n)) }
         else Some (Inl (out, i' - (k + 2), j)) }
       else do {
         out \<leftarrow> wr out j c;
         Some (Inl (out, Suc i, Suc j)) } } })"

partial_function (option) url_loop ::
  "glib_ascii \<Rightarrow> char list \<Rightarrow> CICaller \<Rightarrow> char list \<times> nat \<times> nat \<Rightarrow> (char list \<times> nat) option" where
  "url_loop G url caller s =
     Option.bind (url_step G url caller s)
       (\<lambda>r. case r of Inl s \<Rightarrow> url_loop G url caller s | Inr x \<Rightarrow> Some x)"

text \<open>
  \<open>alloc\<close> is \<open>g_try_malloc\<close>: a block of the size asked for with any content, or NULL. The size is
  computed in \<open>size_t\<close> from the signed \<open>diff\<close>.
\<close>

definition allocates :: "(nat \<Rightarrow> char list option) \<Rightarrow> bool" where
  "allocates alloc \<longleftrightarrow> (\<forall>n b. alloc n = Some b \<longrightarrow> length b = n)"

definition cirlw_prepare_url :: "glib_ascii \<Rightarrow> (nat \<Rightarrow> char list option) \<Rightarrow> char list \<Rightarrow> CICaller \<Rightarrow>
    char list option option" where
  "cirlw_prepare_url G alloc url caller = do {
     s \<leftarrow> cstr url;
     diff \<leftarrow> diff_loop G url caller 0 0;
     (case alloc (unat (of_nat (length s) + 1 + scast diff :: 64 word)) of
        None \<Rightarrow> Some None
      | Some out \<Rightarrow> do {
          (out, j) \<leftarrow> url_loop G url caller (out, 0, 0);
          out \<leftarrow> wr out j NUL;
          Some (Some out) }) }"

text \<open>\<open>str[k] == '2' && str[k+1] == '0'\<close>.\<close>

definition space_code :: "char list \<Rightarrow> nat \<Rightarrow> bool option" where
  "space_code str k = do {
     a \<leftarrow> rd str k;
     if a = CHR ''2'' then do { b \<leftarrow> rd str (Suc k); Some (b = CHR ''0'') } else Some False }"

definition move_char :: "char list \<Rightarrow> nat \<Rightarrow> nat \<Rightarrow> char list" where
  "move_char str i d = (if 0 < d then str[i := str ! (i + d)] else str)"

function escape_loop :: "char list \<Rightarrow> nat \<Rightarrow> nat \<Rightarrow> char list option" where
  "escape_loop str i d =
     (if i + d < length str
      then if str ! (i + d) = NUL then Some (str[i := NUL])
        else if str ! (i + d) = PCT
        then (case space_code str (i + d + 1) of
            None \<Rightarrow> None
          | Some True \<Rightarrow> escape_loop (str[i := CHR '' '']) (Suc i) (d + 2)
          | Some False \<Rightarrow> escape_loop (move_char str i d) (Suc i) d)
        else escape_loop (move_char str i d) (Suc i) d
      else None)"
  by pat_completeness auto

termination
  by (relation "measure (\<lambda>(str, i, d). length str - (i + d))") (auto simp: move_char_def)

declare escape_loop.simps [simp del]

definition cirlw_remove_escapes :: "char list \<Rightarrow> char list option" where
  "cirlw_remove_escapes str = escape_loop str 0 0"

section \<open>Removing escapes\<close>

text \<open>The reference: every escaped space becomes a space.\<close>

fun unescape :: "string \<Rightarrow> string" where
  "unescape [] = []"
| "unescape (c # s) =
     (if c = PCT \<and> take 2 s = ''20'' then CHR '' '' # unescape (drop 2 s) else c # unescape s)"

lemma length_unescape: "length (unescape s) \<le> length s"
  by (induction s rule: unescape.induct) auto

lemma space_code_take:
  "k = length pre \<Longrightarrow> space_code (pre @ s @ NUL # xs) k = Some (take 2 s = ''20'')"
  by (cases s; cases "tl s") (auto simp: space_code_def mem_read rd_def nth_append)

lemma fill_gap:
  "(pre @ gap @ c # rest)[length pre := x] = (pre @ [x]) @ tl (gap @ [c]) @ rest"
  by (cases gap) simp_all

lemma move_gap:
  "move_char (pre @ gap @ c # rest) (length pre) (length gap) = (pre @ [c]) @ tl (gap @ [c]) @ rest"
proof (cases gap)
  case (Cons g gs)
  have "(pre @ gap @ c # rest) ! (length pre + length gap) = c" by (simp add: nth_append)
  then show ?thesis using Cons fill_gap[of pre gap c rest c] by (simp add: move_char_def)
qed (simp add: move_char_def)

lemma escape_loop_unescape:
  "NUL \<notin> set s \<Longrightarrow> \<exists>ys. escape_loop (pre @ gap @ s @ NUL # xs) (length pre) (length gap)
     = Some (pre @ unescape s @ NUL # ys) \<and>
     length (unescape s) + length ys = length gap + length s + length xs"
proof (induction s arbitrary: pre gap rule: unescape.induct)
  case 1
  then show ?case
    by (cases gap) (auto simp: escape_loop.simps nth_append list_update_append)
next
  case (2 c s)
  let ?str = "pre @ gap @ c # s @ NUL # xs"
  have at: "?str ! (length pre + length gap) = c" by (simp add: nth_append)
  have "length pre + length gap + 1 = length (pre @ gap @ [c])" by simp
  from space_code_take[OF this, of s xs]
  have code: "space_code ?str (length pre + length gap + 1) = Some (take 2 s = ''20'')" by simp
  show ?case
  proof (cases "c = PCT \<and> take 2 s = ''20''")
    case True
    then obtain r where s: "s = CHR ''2'' # CHR ''0'' # r" by (cases s; cases "tl s") auto
    let ?gap = "tl (gap @ [c]) @ ''20''"
    have step: "escape_loop ?str (length pre) (length gap)
        = escape_loop ((pre @ '' '') @ ?gap @ r @ NUL # xs) (length (pre @ '' '')) (length ?gap)"
      using True at code fill_gap[of pre gap c "s @ NUL # xs" "CHR '' ''"]
      by (subst escape_loop.simps) (simp add: s)
    have "\<exists>ys. escape_loop ((pre @ '' '') @ ?gap @ drop 2 s @ NUL # xs) (length (pre @ '' '')) (length ?gap)
        = Some ((pre @ '' '') @ unescape (drop 2 s) @ NUL # ys) \<and>
        length (unescape (drop 2 s)) + length ys = length ?gap + length (drop 2 s) + length xs"
      by (rule 2(1)) (use True 2(3) s in auto)
    then show ?thesis using step True by (auto simp: s)
  next
    case False
    let ?gap = "tl (gap @ [c])"
    have step: "escape_loop ?str (length pre) (length gap)
        = escape_loop ((pre @ [c]) @ ?gap @ s @ NUL # xs) (length (pre @ [c])) (length ?gap)"
      using False at code 2(3) move_gap[of pre gap c "s @ NUL # xs"]
      by (subst escape_loop.simps) auto
    have "\<exists>ys. escape_loop ((pre @ [c]) @ ?gap @ s @ NUL # xs) (length (pre @ [c])) (length ?gap)
        = Some ((pre @ [c]) @ unescape s @ NUL # ys) \<and>
        length (unescape s) + length ys = length ?gap + length s + length xs"
      by (rule 2(2)) (use False 2(3) in auto)
    then show ?thesis using step False by auto
  qed
qed

lemma remove_escapes_text:
  assumes "text_in n a" and "cstr a = Some s"
  shows "\<exists>b. cirlw_remove_escapes a = Some b \<and> text_in n b \<and> cstr b = Some (unescape s)"
proof -
  obtain xs where a: "a = s @ NUL # xs" "NUL \<notin> set s" using assms(2) by (auto simp: cstr_Some_iff)
  obtain ys where "cirlw_remove_escapes a = Some (unescape s @ NUL # ys)"
    "length (unescape s) + length ys = length s + length xs"
    using escape_loop_unescape[OF a(2), of "[]" "[]" xs] a(1) by (auto simp: cirlw_remove_escapes_def)
  moreover have "NUL \<notin> set (unescape s)"
    using a(2) by (induction s rule: unescape.induct) (auto dest: in_set_dropD)
  ultimately show ?thesis using assms(1) a(1) by (auto simp: text_in_def)
qed

section \<open>Expanding a URL\<close>

text \<open>A URL as literal characters and places for the number; a literal percent sign stands in
  front of a digit, as in an escape sequence.\<close>

datatype url_item = Lit char | Sub

fun url_text :: "url_item list \<Rightarrow> string" where
  "url_text [] = []"
| "url_text (Lit c # is) = c # url_text is"
| "url_text (Sub # is) = ''%NUMBER%'' @ url_text is"

fun expand :: "string \<Rightarrow> url_item list \<Rightarrow> string" where
  "expand n [] = []"
| "expand n (Lit c # is) = c # expand n is"
| "expand n (Sub # is) = n @ expand n is"

fun items_ok :: "url_item list \<Rightarrow> bool" where
  "items_ok [] = True"
| "items_ok (Lit c # is) = (c \<noteq> NUL \<and> (c = PCT \<longrightarrow> url_text is \<noteq> [] \<and> dig (hd (url_text is))) \<and> items_ok is)"
| "items_ok (Sub # is) = items_ok is"

fun subs :: "url_item list \<Rightarrow> nat" where
  "subs [] = 0"
| "subs (Lit c # is) = subs is"
| "subs (Sub # is) = Suc (subs is)"

lemma subs_le: "8 * subs is \<le> length (url_text is)"
  by (induction "is" rule: subs.induct) simp_all

lemma length_expand: "int (length (expand n is)) = int (length (url_text is)) + int (subs is) * (int (length n) - 8)"
  by (induction "is" rule: subs.induct) (simp_all add: algebra_simps)

lemma url_text_no_NUL: "items_ok is \<Longrightarrow> NUL \<notin> set (url_text is)"
  by (induction "is" rule: items_ok.induct) auto

lemma expand_no_NUL: "items_ok is \<Longrightarrow> NUL \<notin> set n \<Longrightarrow> NUL \<notin> set (expand n is)"
  by (induction "is" rule: items_ok.induct) auto

lemma at_placeholder_at:
  "glib_ascii_ok G \<Longrightarrow> i = length pre \<Longrightarrow> at_placeholder G (pre @ c # d # rest) i = Some (c = PCT \<and> \<not> dig d)"
  by (simp add: at_placeholder_def mem_read isdigit_eq)

lemma placeholder_at:
  assumes "length p < 32" and "PCT \<notin> set p" and "NUL \<notin> set p" and "i = length pre"
  shows "placeholder (pre @ PCT # p @ PCT # rest) i = Some (p, length p)"
proof -
  obtain q where q: "put (replicate 32 NUL) 0 p = Some q" "q = p @ replicate (32 - length p) NUL"
    using assms(1) by (auto simp: put_def)
  have "copy_while (\<lambda>c. c \<noteq> PCT) ((pre @ [PCT]) @ p @ PCT # rest) (Suc i) (replicate 32 NUL) 0
      = map_option (\<lambda>d. (d, Suc i + length p, 0 + length p)) (put (replicate 32 NUL) 0 p)"
    by (rule copy_while_put) (use assms in auto)
  moreover have "wr q (length p) NUL = Some (p @ NUL # replicate (31 - length p) NUL)"
    using q(2) assms(1) by (simp add: wr_def list_update_append) (cases "32 - length p"; simp)
  ultimately show ?thesis using q(1) assms(3) by (simp add: placeholder_def)
qed

lemma ucast_64_32: "(ucast (word_of_int k :: 64 word) :: 32 word) = word_of_int k"
  by transfer simp

text \<open>One round of each pass, on a literal character and on the placeholder of the number.\<close>

lemma diff_loop_lit:
  assumes "glib_ascii_ok G" and "items_ok (Lit c # is)" and "i = length pre"
  shows "diff_loop G (pre @ url_text (Lit c # is) @ [NUL]) caller i diff
    = diff_loop G ((pre @ [c]) @ url_text is @ [NUL]) caller (Suc i) diff"
proof -
  obtain d rest where t: "url_text is @ [NUL] = d # rest" by (cases "url_text is") auto
  then have "\<not> (c = PCT \<and> \<not> dig d)" using assms(2) by (cases "url_text is") auto
  then have "at_placeholder G (pre @ c # d # rest) i = Some False"
    using at_placeholder_at[OF assms(1,3), of c d rest] by simp
  then show ?thesis using assms(2,3) t by (subst diff_loop.simps) simp
qed

lemma diff_loop_sub:
  assumes "glib_ascii_ok G" and "i = length pre" and "cstr (NumberComplete caller) = Some n"
  shows "diff_loop G (pre @ url_text (Sub # is) @ [NUL]) caller i diff
    = diff_loop G ((pre @ ''%NUMBER%'') @ url_text is @ [NUL]) caller (i + 8) (diff + (of_nat (length n) - 8))"
proof -
  let ?rest = "url_text is @ [NUL]"
  let ?url = "pre @ PCT # ''NUMBER'' @ PCT # ?rest"
  have a: "at_placeholder G ?url i = Some True"
    using at_placeholder_at[OF assms(1,2), of PCT "CHR ''N''" "''UMBER'' @ PCT # ?rest"] by (simp add: dig_def)
  have p: "placeholder ?url i = Some (''NUMBER'', 6)"
    using placeholder_at[of "''NUMBER''" i pre ?rest] assms(2) by simp
  have "getsubstitutediff ?url i caller = Some (ucast (of_nat (length n) - 6 - 2 :: 64 word))"
    using p assms(2,3) by (simp add: getsubstitutediff_def mem_read)
  also have "(ucast (of_nat (length n) - 6 - 2 :: 64 word) :: 32 word) = of_nat (length n) - 8"
    using ucast_64_32[of "int (length n) - 8"] by simp
  finally have d: "getsubstitutediff ?url i caller = Some (of_nat (length n) - 8)" .
  have "scan (\<lambda>c. c \<noteq> PCT) ((pre @ [PCT]) @ ''NUMBER'' @ PCT # ?rest) (Suc i) = Some (Suc i + length ''NUMBER'')"
    by (rule scan_stop) (use assms(2) in auto)
  then have s: "scan (\<lambda>c. c \<noteq> PCT) ?url (Suc i) = Some (i + 7)" by simp
  have "?url ! i = PCT" "i < length ?url" using assms(2) by simp_all
  then have "diff_loop G ?url caller i diff = diff_loop G ?url caller (Suc (i + 7)) (diff + (of_nat (length n) - 8))"
    using a d s by (subst diff_loop.simps) simp
  then show ?thesis by (simp add: add.commute)
qed

lemma diff_loop_items:
  assumes "glib_ascii_ok G" and "cstr (NumberComplete caller) = Some n"
  shows "items_ok is \<Longrightarrow> i = length pre \<Longrightarrow> diff_loop G (pre @ url_text is @ [NUL]) caller i diff
    = Some (diff + of_nat (subs is) * (of_nat (length n) - 8))"
proof (induction "is" arbitrary: pre i diff rule: items_ok.induct)
  case 1
  then show ?case by (subst diff_loop.simps) simp
next
  case (2 c "is")
  show ?case
    using 2(1)[of "Suc i" "pre @ [c]" diff] 2(2,3) diff_loop_lit[OF assms(1) 2(2,3)] by simp
next
  case (3 "is")
  show ?case
    using 3(1)[of "i + 8" "pre @ ''%NUMBER%''" "diff + (of_nat (length n) - 8)"] 3(2,3)
      diff_loop_sub[OF assms(1) 3(3) assms(2)] by (simp add: algebra_simps)
qed

declare url_loop.simps [code]

lemma url_step_lit:
  assumes "glib_ascii_ok G" and "items_ok (Lit c # is)" and "i = length pre" and "j < length out"
  shows "url_step G (pre @ url_text (Lit c # is) @ [NUL]) caller (out, i, j) = Some (Inl (out[j := c], Suc i, Suc j))"
proof -
  obtain d rest where t: "url_text is @ [NUL] = d # rest" by (cases "url_text is") auto
  then have "\<not> (c = PCT \<and> \<not> dig d)" using assms(2) by (cases "url_text is") auto
  then have "at_placeholder G (pre @ c # d # rest) i = Some False"
    using at_placeholder_at[OF assms(1,3), of c d rest] by simp
  then show ?thesis using assms(2-4) t by (simp add: url_step_def mem_read wr_def)
qed

lemma url_step_sub:
  assumes "glib_ascii_ok G" and "i = length pre" and "cstr (NumberComplete caller) = Some n"
    and "j + length n < length out"
  shows "url_step G (pre @ url_text (Sub # is) @ [NUL]) caller (out, i, j)
    = Some (Inl (take j out @ n @ NUL # drop (Suc (j + length n)) out, i + 8, j + length n))"
proof -
  let ?rest = "url_text is @ [NUL]"
  let ?url = "pre @ PCT # ''NUMBER'' @ PCT # ?rest"
  have a: "at_placeholder G ?url i = Some True"
    using at_placeholder_at[OF assms(1,2), of PCT "CHR ''N''" "''UMBER'' @ PCT # ?rest"] by (simp add: dig_def)
  have p: "placeholder ?url i = Some (''NUMBER'', 6)"
    using placeholder_at[of "''NUMBER''" i pre ?rest] assms(2) by simp
  have "put out j (n @ [NUL]) = Some (take j out @ n @ NUL # drop (Suc (j + length n)) out)"
    using assms(4) by (simp add: put_def)
  then have "url_step G ?url caller (out, i, j)
      = Some (Inl (take j out @ n @ NUL # drop (Suc (j + length n)) out, i + 8, j + length n))"
    using a p assms(2,3) by (simp add: url_step_def mem_read)
  then show ?thesis by simp
qed

lemma url_loop_items:
  assumes "glib_ascii_ok G" and "cstr (NumberComplete caller) = Some n"
  shows "items_ok is \<Longrightarrow> i = length pre \<Longrightarrow> j + length (expand n is) < length out \<Longrightarrow>
    \<exists>out'. url_loop G (pre @ url_text is @ [NUL]) caller (out, i, j) = Some (out', j + length (expand n is)) \<and>
      length out' = length out \<and> take (j + length (expand n is)) out' = take j out @ expand n is"
proof (induction "is" arbitrary: pre i j out rule: items_ok.induct)
  case 1
  then show ?case by (subst url_loop.simps) (simp add: url_step_def mem_read)
next
  case (2 c "is")
  have step: "url_loop G (pre @ url_text (Lit c # is) @ [NUL]) caller (out, i, j)
      = url_loop G ((pre @ [c]) @ url_text is @ [NUL]) caller (out[j := c], Suc i, Suc j)"
    using url_step_lit[OF assms(1) 2(2,3), of j out caller] 2(4) by (subst url_loop.simps) simp
  obtain out' where o: "url_loop G ((pre @ [c]) @ url_text is @ [NUL]) caller (out[j := c], Suc i, Suc j)
        = Some (out', Suc j + length (expand n is))" "length out' = length (out[j := c])"
      "take (Suc j + length (expand n is)) out' = take (Suc j) (out[j := c]) @ expand n is"
    using 2(1)[of "Suc i" "pre @ [c]" "Suc j" "out[j := c]"] 2(2-4) by auto
  have "take (Suc j) (out[j := c]) = take j out @ [c]"
    using 2(4) by (simp add: take_Suc_conv_app_nth)
  then show ?case using step o by auto
next
  case (3 "is")
  let ?out = "take j out @ n @ NUL # drop (Suc (j + length n)) out"
  have step: "url_loop G (pre @ url_text (Sub # is) @ [NUL]) caller (out, i, j)
      = url_loop G ((pre @ ''%NUMBER%'') @ url_text is @ [NUL]) caller (?out, i + 8, j + length n)"
    using url_step_sub[OF assms(1) 3(3) assms(2), of j out "is"] 3(4) by (subst url_loop.simps) simp
  have l: "length ?out = length out" using 3(4) by simp
  have "\<exists>out'. url_loop G ((pre @ ''%NUMBER%'') @ url_text is @ [NUL]) caller (?out, i + 8, j + length n)
        = Some (out', j + length n + length (expand n is)) \<and> length out' = length ?out \<and>
      take (j + length n + length (expand n is)) out' = take (j + length n) ?out @ expand n is"
    by (rule 3(1)) (use 3(2-4) l in auto)
  then obtain out' where o: "url_loop G ((pre @ ''%NUMBER%'') @ url_text is @ [NUL]) caller (?out, i + 8, j + length n)
        = Some (out', j + length n + length (expand n is))" "length out' = length ?out"
      "take (j + length n + length (expand n is)) out' = take (j + length n) ?out @ expand n is"
    by blast
  have "take (j + length n) ?out = take j out @ n" using 3(4) by simp
  then show ?case using step o l by (auto simp: add.assoc)
qed

text \<open>The size of the block is exactly that of the result.\<close>

lemma sint_small: "- (2 ^ 31) \<le> d \<Longrightarrow> d < 2 ^ 31 \<Longrightarrow> sint (word_of_int d :: 32 word) = d"
  by (simp add: signed_of_int signed_take_bit_int_eq_self)

lemma scast_small: "- (2 ^ 31) \<le> d \<Longrightarrow> d < 2 ^ 31 \<Longrightarrow>
    (scast (word_of_int d :: 32 word) :: 64 word) = word_of_int d"
  using sint_small[of d] by (simp add: scast_eq)

lemma url_size:
  assumes "length (url_text is) < 2 ^ 24" and "length n < 32"
  shows "unat (of_nat (length (url_text is)) + 1 +
      scast (of_nat (subs is) * (of_nat (length n) - 8) :: 32 word) :: 64 word) = length (expand n is) + 1"
proof -
  let ?d = "int (subs is) * (int (length n) - 8)"
  have sb: "int (subs is) < 2 ^ 21" using subs_le[of "is"] assms(1) by simp
  have "\<bar>?d\<bar> \<le> int (subs is) * 24" using assms(2) by (simp add: abs_mult mult_left_mono)
  then have b: "- (2 ^ 31) \<le> ?d" "?d < 2 ^ 31" using sb unfolding abs_le_iff by simp_all
  have "scast (of_nat (subs is) * (of_nat (length n) - 8) :: 32 word) = (word_of_int ?d :: 64 word)"
    using scast_small[OF b] by simp
  then have "of_nat (length (url_text is)) + 1 + scast (of_nat (subs is) * (of_nat (length n) - 8) :: 32 word)
      = (word_of_int (int (length (url_text is)) + 1 + ?d) :: 64 word)" by simp
  also have "int (length (url_text is)) + 1 + ?d = int (length (expand n is) + 1)"
    using length_expand[of n "is"] by simp
  also have "word_of_int (int (length (expand n is) + 1)) = (of_nat (length (expand n is) + 1) :: 64 word)"
    by (simp only: of_int_of_nat_eq)
  finally have w: "of_nat (length (url_text is)) + 1 + scast (of_nat (subs is) * (of_nat (length n) - 8) :: 32 word)
      = (of_nat (length (expand n is) + 1) :: 64 word)" .
  have "int (length (url_text is)) < 16777216" "?d < 2147483648" using assms(1) b(2) by simp_all
  then have "int (length (expand n is)) + 1 < 8589934592" using length_expand[of n "is"] by linarith
  then have "length (expand n is) + 1 < 2 ^ LENGTH(64)" by simp
  then show ?thesis unfolding w by (simp only: unat_of_nat_small)
qed

text \<open>A round that changes nothing is repeated forever.\<close>

lemma loop_no_fix: "url_loop G url caller s = Some r \<Longrightarrow> url_step G url caller s \<noteq> Some (Inl s)"
proof (induction rule: url_loop.raw_induct[rotated, consumes 1])
  case (1 loop G url caller s r)
  show ?case
  proof
    assume "url_step G url caller s = Some (Inl s)"
    then show False using 1(1)[of G url caller s r] 1(2) by simp
  qed
qed

lemma expands_url:
  assumes "glib_ascii_ok G" and "allocates alloc" and "items_ok is"
    and "cstr (NumberComplete caller) = Some n" and "length n < 32" and "length (url_text is) < 2 ^ 24"
  shows "cirlw_prepare_url G alloc (url_text is @ [NUL]) caller
    = Some (map_option (\<lambda>block. expand n is @ [NUL]) (alloc (length (expand n is) + 1)))"
proof -
  have c: "cstr (url_text is @ [NUL]) = Some (url_text is)" using url_text_no_NUL[OF assms(3)] by simp
  have d: "diff_loop G (url_text is @ [NUL]) caller 0 0 = Some (of_nat (subs is) * (of_nat (length n) - 8))"
    using diff_loop_items[OF assms(1,4,3), of 0 "[]" 0] by simp
  show ?thesis
  proof (cases "alloc (length (expand n is) + 1)")
    case None
    then show ?thesis using c d url_size[OF assms(6,5)] by (simp add: cirlw_prepare_url_def)
  next
    case (Some out)
    then have l: "length out = length (expand n is) + 1" using assms(2) by (simp add: allocates_def)
    then obtain out' where o: "url_loop G (url_text is @ [NUL]) caller (out, 0, 0)
          = Some (out', length (expand n is))" "length out' = length out"
        "take (length (expand n is)) out' = expand n is"
      using url_loop_items[OF assms(1,4,3), of 0 "[]" 0 out] by auto
    have "wr out' (length (expand n is)) NUL = Some (expand n is @ [NUL])"
      using o(2,3) l by (simp add: wr_def upd_conv_take_nth_drop)
    then show ?thesis using c d o(1) Some url_size[OF assms(6,5)] by (simp add: cirlw_prepare_url_def)
  qed
qed

section \<open>Properties\<close>

text \<open>
  C17: A URL of literal characters and places \<open>%NUMBER%\<close>, with percent signs otherwise only in
  front of digits, is expanded: the result is the URL with the caller's number at every
  place, in a block of exactly its size; both passes end and stay in their arrays. When the
  block cannot be allocated, the result is NULL.
\<close>

theorem prepare_url_expands:
  assumes "glib_ascii_ok G" and "allocates alloc" and "items_ok is"
    and "cstr (NumberComplete caller) = Some n" and "length n < 32" and "length (url_text is) < 2 ^ 24"
  shows "cirlw_prepare_url G alloc (url_text is @ [NUL]) caller
    = Some (map_option (\<lambda>block. expand n is @ [NUL]) (alloc (length (expand n is) + 1)))"
  by (rule expands_url[OF assms])

theorem prepare_url_expands_witness:
  "cirlw_prepare_url ascii (\<lambda>n. Some (replicate n CHR ''x''))
      (url_text [Lit CHR ''a'', Lit PCT, Lit CHR ''2'', Sub, Lit CHR ''b''] @ [NUL])
      (zero_caller\<lparr>NumberComplete := ''030555'' @ NUL # replicate 25 NUL\<rparr>)
    = Some (map_option (\<lambda>block. expand ''030555'' [Lit CHR ''a'', Lit PCT, Lit CHR ''2'', Sub, Lit CHR ''b''] @ [NUL])
        ((\<lambda>n. Some (replicate n CHR ''x''))
          (length (expand ''030555'' [Lit CHR ''a'', Lit PCT, Lit CHR ''2'', Sub, Lit CHR ''b'']) + 1)))"
  by (rule prepare_url_expands[OF ascii_ok])
     (simp_all add: allocates_def dig_def cstr_def)

text \<open>
  C37: A placeholder with any other name, of fewer than 32 characters, hangs the program: the
  first pass steps over it, but in the second pass a round of the loop ends in the state it
  began with, whatever has been written so far, and the loop has no result.
\<close>

theorem unknown_placeholder_hangs:
  assumes "glib_ascii_ok G" and "length p < 32" and "PCT \<notin> set p" and "NUL \<notin> set p"
    and "p \<noteq> ''NUMBER''" and "p = [] \<or> \<not> dig (hd p)"
  shows "url_step G (pre @ PCT # p @ PCT # post @ [NUL]) caller (out, length pre, j)
      = Some (Inl (out, length pre, j)) \<and>
    url_loop G (pre @ PCT # p @ PCT # post @ [NUL]) caller (out, length pre, j) = None"
proof -
  let ?url = "pre @ PCT # p @ PCT # post @ [NUL]" and ?s = "(out, length pre, j)"
  obtain d rest where t: "p @ PCT # post @ [NUL] = d # rest" "\<not> dig d"
    using assms(6) by (cases p) (auto simp: dig_def)
  have "at_placeholder G ?url (length pre) = Some True"
    using at_placeholder_at[OF assms(1) refl, of pre PCT d rest] t by simp
  moreover have "placeholder ?url (length pre) = Some (p, length p)"
    using placeholder_at[OF assms(2-4) refl, of pre "post @ [NUL]"] by simp
  ultimately have step: "url_step G ?url caller ?s = Some (Inl ?s)"
    using assms(5) by (simp add: url_step_def mem_read)
  then have "url_loop G ?url caller ?s = None" using loop_no_fix[of G ?url caller ?s]
    by (cases "url_loop G ?url caller ?s") blast+
  with step show ?thesis by blast
qed

theorem unknown_placeholder_hangs_witness:
  "url_step ascii (''a'' @ PCT # ''CITY'' @ PCT # [] @ [NUL]) zero_caller (''a?'', length ''a'', 1)
      = Some (Inl (''a?'', length ''a'', 1)) \<and>
    url_loop ascii (''a'' @ PCT # ''CITY'' @ PCT # [] @ [NUL]) zero_caller (''a?'', length ''a'', 1) = None"
  by (rule unknown_placeholder_hangs[OF ascii_ok]) (simp_all add: dig_def)

text \<open>
  Removing the escapes of a string in its array leaves the string of the reference
  function, in which every escaped space is one space and nothing else is changed, and never
  leaves the array.
\<close>

theorem remove_escapes_refines:
  assumes "text_in n a" and "cstr a = Some s"
  shows "\<exists>b. cirlw_remove_escapes a = Some b \<and> text_in n b \<and> cstr b = Some (unescape s)"
  by (rule remove_escapes_text[OF assms])

theorem remove_escapes_refines_witness:
  "\<exists>b. cirlw_remove_escapes (''a%20b'' @ [NUL]) = Some b \<and> text_in 6 b \<and> cstr b = Some (unescape ''a%20b'')"
  by (rule remove_escapes_refines) (simp_all add: text_in_def cstr_def)

end
