(* ===== verification/Lookup.thy ===== *)
theory Lookup
  imports Url
begin

text \<open>
  The reverse lookup of \<open>lookup.c\<close>: the sources and their patterns, the memory that collects an
  answer from the web, the matching of its lines, the cache table, and
  \<open>lookup_get_caller_data\<close>, which asks the cache first. Regular expressions, conversion of
  character sets and the transfer itself are library calls and arguments of the definitions;
  the statements on the cache table are the SQL of the source on a list of rows. Arguments that
  are tested for NULL are addresses of objects at every call and are not optional here.
\<close>

section \<open>Sources\<close>

abbreviation CI_FIELD_NAME :: "64 word" where "CI_FIELD_NAME \<equiv> 1"
abbreviation CI_FIELD_POSTALCODE :: "64 word" where "CI_FIELD_POSTALCODE \<equiv> 2"
abbreviation CI_FIELD_CITY :: "64 word" where "CI_FIELD_CITY \<equiv> 4"
abbreviation CI_FIELD_STREET :: "64 word" where "CI_FIELD_STREET \<equiv> 8"

record CIRLPatternField =
  position :: int
  field :: "64 word"

record CIRLPattern =
  pattern_fields :: "CIRLPatternField list"
  expression :: "string option"

record CIRLSource =
  source_id :: "64 word"
  description :: "string option"
  query :: "string option"
  split_lines :: bool
  patterns :: "CIRLPattern list"

text \<open>\<open>g_slist_find_custom\<close> with the callback that is 0 on the id.\<close>

fun cirlw_find_source :: "CIRLSource list \<Rightarrow> 64 word \<Rightarrow> CIRLSource option" where
  "cirlw_find_source [] sid = None"
| "cirlw_find_source (s # ss) sid = (if source_id s = sid then Some s else cirlw_find_source ss sid)"

section \<open>Reading from the web\<close>

record DynMem =
  mem_size :: nat
  mem :: "char list option"

text \<open>
  The write callback; \<open>ok\<close> is whether the block could be enlarged. The return value -1 is the
  largest \<open>size_t\<close>.
\<close>

definition resize :: "nat \<Rightarrow> char list option \<Rightarrow> char list" where
  "resize n b = (case b of None \<Rightarrow> replicate n NUL | Some b \<Rightarrow> take n b @ replicate (n - length b) NUL)"

definition cirlw_read_data :: "bool \<Rightarrow> string \<Rightarrow> DynMem \<Rightarrow> (64 word \<times> DynMem) option" where
  "cirlw_read_data ok data m =
    (if ok then do {
       block \<leftarrow> put (resize (mem_size m + length data + 1) (mem m)) (mem_size m) data;
       block \<leftarrow> wr block (mem_size m + length data) NUL;
       Some (of_nat (length data), \<lparr>mem_size = mem_size m + length data, mem = Some block\<rparr>) }
     else Some (- 1, m\<lparr>mem := None\<rparr>))"

text \<open>
  \<open>curl_easy_perform\<close> calls it for the chunks of the answer and fails when the callback does
  not return the length of its chunk.
\<close>

fun receive :: "(bool \<times> string) list \<Rightarrow> DynMem \<Rightarrow> (bool \<times> DynMem) option" where
  "receive [] m = Some (True, m)"
| "receive ((ok, c) # cs) m = do {
     (n, m) \<leftarrow> cirlw_read_data ok c m;
     if n = of_nat (length c) then receive cs m else Some (False, m) }"

section \<open>Matching\<close>

text \<open>
  A compiled expression on a line is no match, or a match whose groups can be fetched;
  \<open>None\<close> of \<open>regex\<close> is an expression that does not compile, and an expression that is NULL.
\<close>

type_synonym matcher = "string \<Rightarrow> (int \<Rightarrow> string option) option"

definition charset_expression :: string where
  "charset_expression = ''[C|c][H|h][A|a][R|r][S|s][E|e][T|t]'' @
     CHR 0x5C # ''s*='' @ CHR 0x5C # ''s*([A-Za-z0-9-]+)''"

definition store_field :: "64 word \<Rightarrow> string \<Rightarrow> CICaller \<times> 64 word \<Rightarrow> (CICaller \<times> 64 word) option" where
  "store_field f word = (\<lambda>(c, fnd).
    (if f = CI_FIELD_NAME then do {
       a \<leftarrow> strcpy (Name c) word; Some (c\<lparr>Name := a\<rparr>, fnd OR CI_FIELD_NAME) }
     else if f = CI_FIELD_CITY then do {
       a \<leftarrow> strcpy (City c) word; Some (c\<lparr>City := a\<rparr>, fnd OR CI_FIELD_CITY) }
     else if f = CI_FIELD_POSTALCODE then do {
       a \<leftarrow> strcpy (PostalCode c) word; Some (c\<lparr>PostalCode := a\<rparr>, fnd OR CI_FIELD_POSTALCODE) }
     else if f = CI_FIELD_STREET then do {
       a \<leftarrow> strcpy (Street c) word; Some (c\<lparr>Street := a\<rparr>, fnd OR CI_FIELD_STREET) }
     else Some (c, fnd)))"

text \<open>\<open>strcpy\<close> from a group that does not exist follows a NULL pointer.\<close>

fun store_fields :: "(int \<Rightarrow> string option) \<Rightarrow> CIRLPatternField list \<Rightarrow> CICaller \<times> 64 word \<Rightarrow>
    (CICaller \<times> 64 word) option" where
  "store_fields fetch [] s = Some s"
| "store_fields fetch (f # fs) s = do {
     s \<leftarrow> (case fetch (position f) of
         Some word \<Rightarrow> store_field (field f) word s
       | None \<Rightarrow> if field f \<in> {CI_FIELD_NAME, CI_FIELD_CITY, CI_FIELD_POSTALCODE, CI_FIELD_STREET}
                 then None else Some s);
     store_fields fetch fs s }"

fun match_line :: "(matcher \<times> CIRLPattern) list \<Rightarrow> matcher \<Rightarrow> string \<Rightarrow>
    (CICaller \<times> 64 word) \<times> string option \<Rightarrow> ((CICaller \<times> 64 word) \<times> string option) option" where
  "match_line [] cs line (s, charset) =
     Some (s, case cs line of None \<Rightarrow> charset | Some fetch \<Rightarrow> fetch 1)"
| "match_line ((r, p) # ps) cs line (s, charset) = do {
     s \<leftarrow> (case r line of None \<Rightarrow> Some s | Some fetch \<Rightarrow> store_fields fetch (pattern_fields p) s);
     match_line ps cs line (s, charset) }"

fun match_lines :: "(matcher \<times> CIRLPattern) list \<Rightarrow> matcher \<Rightarrow> string list \<Rightarrow>
    (CICaller \<times> 64 word) \<times> string option \<Rightarrow> ((CICaller \<times> 64 word) \<times> string option) option" where
  "match_lines ps cs [] s = Some s"
| "match_lines ps cs (l # ls) s = Option.bind (match_line ps cs l s) (match_lines ps cs ls)"

text \<open>\<open>g_convert\<close> to UTF-8 and removing of escapes on one array.\<close>

definition convert_field :: "(string \<Rightarrow> string \<Rightarrow> string option) \<Rightarrow> string \<Rightarrow> char list \<Rightarrow> char list option" where
  "convert_field conv charset a = do {
     s \<leftarrow> cstr a;
     a \<leftarrow> (case conv charset s of Some word \<Rightarrow> strcpy a word | None \<Rightarrow> Some a);
     cirlw_remove_escapes a }"

definition convert_caller :: "(string \<Rightarrow> string \<Rightarrow> string option) \<Rightarrow> string \<Rightarrow> 64 word \<Rightarrow> CICaller \<Rightarrow> CICaller option" where
  "convert_caller conv charset fnd c = do {
     name \<leftarrow> (if fnd AND CI_FIELD_NAME \<noteq> 0 then convert_field conv charset (Name c) else Some (Name c));
     city \<leftarrow> (if fnd AND CI_FIELD_CITY \<noteq> 0 then convert_field conv charset (City c) else Some (City c));
     code \<leftarrow> (if fnd AND CI_FIELD_POSTALCODE \<noteq> 0 then cirlw_remove_escapes (PostalCode c) else Some (PostalCode c));
     street \<leftarrow> (if fnd AND CI_FIELD_STREET \<noteq> 0 then convert_field conv charset (Street c) else Some (Street c));
     Some (c\<lparr>Name := name, City := city, PostalCode := code, Street := street\<rparr>) }"

text \<open>
  The library calls of the lookup: \<open>split\<close> is \<open>g_strsplit(_, LF, 0)\<close>, \<open>block_ok\<close> is whether the two
  small blocks could be allocated.
\<close>

record lookup_env =
  glib :: glib_ascii
  alloc :: "nat \<Rightarrow> char list option"
  block_ok :: bool
  split_at_LF :: "string \<Rightarrow> string list"
  regex :: "string \<Rightarrow> matcher option"
  conv :: "string \<Rightarrow> string \<Rightarrow> string option"
  curl :: bool
  web :: "string \<Rightarrow> bool \<times> (bool \<times> string) list"

fun compile :: "(string \<Rightarrow> matcher option) \<Rightarrow> CIRLPattern list \<Rightarrow> (matcher \<times> CIRLPattern) list option" where
  "compile rx [] = Some []"
| "compile rx (p # ps) = do {
     e \<leftarrow> expression p;
     r \<leftarrow> rx e;
     rs \<leftarrow> compile rx ps;
     Some ((r, p) # rs) }"

text \<open>The return value, the caller and \<open>*found\<close>.\<close>

definition cirlw_match_patterns :: "lookup_env \<Rightarrow> CIRLSource \<Rightarrow> DynMem \<Rightarrow> CICaller \<Rightarrow> 64 word \<Rightarrow>
    (int \<times> CICaller \<times> 64 word) option" where
  "cirlw_match_patterns E source m c found =
    (if patterns source = [] \<or> \<not> block_ok E then Some (1, c, found)
     else if \<not> split_lines source then Some (0, c, found)
     else (case mem m of
        None \<Rightarrow> Some (1, c, 0)
      | Some block \<Rightarrow> do {
          ps \<leftarrow> compile (regex E) (patterns source);
          cs \<leftarrow> regex E charset_expression;
          text \<leftarrow> cstr block;
          ((c, fnd), charset) \<leftarrow> match_lines ps cs (split_at_LF E text) ((c, 0), None);
          (case charset of
             None \<Rightarrow> Some (0, c, fnd)
           | Some cset \<Rightarrow> do { c \<leftarrow> convert_caller (conv E) cset fnd c; Some (0, c, fnd) }) }))"

definition cirlw_get_caller :: "lookup_env \<Rightarrow> CIRLSource list \<Rightarrow> 64 word \<Rightarrow> CICaller \<Rightarrow> (int \<times> CICaller) option" where
  "cirlw_get_caller E sources sid c =
    (case cirlw_find_source sources sid of
       None \<Rightarrow> Some (1, c)
     | Some source \<Rightarrow> do {
         q \<leftarrow> query source;
         url \<leftarrow> cirlw_prepare_url (glib E) (alloc E) (q @ [NUL]) c;
         (case url of
            None \<Rightarrow> Some (1, c)
          | Some url \<Rightarrow>
              if \<not> curl E then Some (1, c)
              else do {
                u \<leftarrow> cstr url;
                (done, m) \<leftarrow> receive (snd (web E u)) \<lparr>mem_size = 0, mem = None\<rparr>;
                if done \<and> fst (web E u)
                then do {
                  (err, c, found) \<leftarrow> cirlw_match_patterns E source m c 0;
                  Some (if found = 0 then 4 else err, c) }
                else Some (1, c) }) })"

section \<open>The cache\<close>

text \<open>A row of \<open>callercache\<close>; the text columns may be NULL.\<close>

record cache_row =
  row_number :: "string option"
  row_name :: "string option"
  row_city :: "string option"
  row_street :: "string option"
  row_postalcode :: "string option"

definition copy_column :: "string option \<Rightarrow> char list \<Rightarrow> char list option" where
  "copy_column col a = (case col of None \<Rightarrow> Some a | Some s \<Rightarrow> strcpy a s)"

text \<open>
  \<open>db\<close> is whether SQLite executes the statement: select ... where number=? limit 1 on the rows in
  their order, insert into callercache.
\<close>

definition cidb_find_caller :: "bool \<Rightarrow> cache_row list \<Rightarrow> CICaller \<Rightarrow> (int \<times> CICaller) option" where
  "cidb_find_caller db rows c = do {
     n \<leftarrow> cstr (NumberComplete c);
     (case (if db then find (\<lambda>r. row_number r = Some n) rows else None) of
        None \<Rightarrow> Some (1, c)
      | Some r \<Rightarrow> do {
          name \<leftarrow> copy_column (row_name r) (Name c);
          city \<leftarrow> copy_column (row_city r) (City c);
          street \<leftarrow> copy_column (row_street r) (Street c);
          code \<leftarrow> copy_column (row_postalcode r) (PostalCode c);
          Some (0, c\<lparr>Name := name, City := city, Street := street, PostalCode := code\<rparr>) }) }"

definition cidb_insert_caller :: "bool \<Rightarrow> cache_row list \<Rightarrow> CICaller \<Rightarrow> (int \<times> cache_row list) option" where
  "cidb_insert_caller db rows c = do {
     n \<leftarrow> cstr (NumberComplete c);
     name \<leftarrow> cstr (Name c);
     city \<leftarrow> cstr (City c);
     street \<leftarrow> cstr (Street c);
     code \<leftarrow> cstr (PostalCode c);
     Some (if db
       then (0, rows @ [\<lparr>row_number = Some n, row_name = Some name, row_city = Some city,
               row_street = Some street, row_postalcode = Some code\<rparr>])
       else (1, rows)) }"

text \<open>The return value, the data set and the table.\<close>

definition lookup_get_caller_data :: "lookup_env \<Rightarrow> CIRLSource list \<Rightarrow> 64 word \<Rightarrow> bool \<Rightarrow> bool \<Rightarrow>
    cache_row list \<Rightarrow> CIDataSet \<Rightarrow> (int \<times> CIDataSet \<times> cache_row list) option" where
  "lookup_get_caller_data E sources sid find_ok insert_ok rows d = do {
     n \<leftarrow> cstr (cidsNumberComplete d);
     number \<leftarrow> strcpy (NumberComplete zero_caller) n;
     let caller = zero_caller\<lparr>NumberComplete := number\<rparr> in do {
     (rc, caller) \<leftarrow> cidb_find_caller find_ok rows caller;
     (found, caller, rows) \<leftarrow>
       (if rc \<noteq> 0 then do {
          (rc, caller) \<leftarrow> cirlw_get_caller E sources sid caller;
          if rc = 0 then do {
            (rc, rows) \<leftarrow> cidb_insert_caller insert_ok rows caller;
            Some (True, caller, rows) }
          else Some (False, caller, rows) }
        else Some (True, caller, rows));
     if found then do {
       name \<leftarrow> cstr (Name caller);
       a \<leftarrow> strcpy (cidsName d) name;
       Some (0, d\<lparr>cidsName := a\<rparr>, rows) }
     else Some (1, d, rows) } }"

section \<open>Nothing is left\<close>

text \<open>The words that a source may store: their sizes are those of the arrays.\<close>

definition width :: "64 word \<Rightarrow> nat" where
  "width f = (if f = CI_FIELD_POSTALCODE then 8 else 256)"

definition word_fits :: "64 word \<Rightarrow> string \<Rightarrow> bool" where
  "word_fits f w \<longleftrightarrow> NUL \<notin> set w \<and> length w < width f"

abbreviation known :: "64 word \<Rightarrow> bool" where
  "known f \<equiv> f \<in> {CI_FIELD_NAME, CI_FIELD_CITY, CI_FIELD_POSTALCODE, CI_FIELD_STREET}"

definition caller_for :: "char list \<Rightarrow> CICaller \<Rightarrow> bool" where
  "caller_for n c \<longleftrightarrow> caller_ok c \<and> NumberComplete c = n"

lemma caller_for_update:
  "caller_for n c \<Longrightarrow> text_in 256 a \<Longrightarrow> caller_for n (c\<lparr>Name := a\<rparr>)"
  "caller_for n c \<Longrightarrow> text_in 256 a \<Longrightarrow> caller_for n (c\<lparr>City := a\<rparr>)"
  "caller_for n c \<Longrightarrow> text_in 256 a \<Longrightarrow> caller_for n (c\<lparr>Street := a\<rparr>)"
  "caller_for n c \<Longrightarrow> text_in 8 b \<Longrightarrow> caller_for n (c\<lparr>PostalCode := b\<rparr>)"
  by (auto simp: caller_for_def caller_ok_def)

lemma caller_for_arrays:
  "caller_for n c \<Longrightarrow> text_in 256 (Name c) \<and> text_in 256 (City c) \<and> text_in 256 (Street c) \<and>
     text_in 8 (PostalCode c) \<and> text_in 32 (NumberComplete c) \<and> NumberComplete c = n"
  by (auto simp: caller_for_def caller_ok_def)

lemma store_field_ok:
  assumes "caller_for n c" and "word_fits f w"
  shows "\<exists>c' fnd'. store_field f w (c, fnd) = Some (c', fnd') \<and> caller_for n c'"
proof -
  note ar = caller_for_arrays[OF assms(1)]
  show ?thesis
    using assms(2) ar text_in_strcpy[of 256 "Name c" w] text_in_strcpy[of 256 "City c" w]
      text_in_strcpy[of 256 "Street c" w] text_in_strcpy[of 8 "PostalCode c" w] caller_for_update[OF assms(1)] assms(1)
    by (auto simp: store_field_def word_fits_def width_def)
qed

definition fetches :: "(int \<Rightarrow> string option) \<Rightarrow> CIRLPatternField list \<Rightarrow> bool" where
  "fetches fetch fs \<longleftrightarrow> (\<forall>f \<in> set fs. (case fetch (position f) of
     None \<Rightarrow> \<not> known (field f) | Some w \<Rightarrow> word_fits (field f) w))"

lemma store_fields_ok:
  "caller_for n c \<Longrightarrow> fetches fetch fs \<Longrightarrow>
     \<exists>c' fnd'. store_fields fetch fs (c, fnd) = Some (c', fnd') \<and> caller_for n c'"
proof (induction fs arbitrary: c fnd)
  case (Cons f fs)
  then have fs: "fetches fetch fs" by (simp add: fetches_def)
  show ?case
  proof (cases "fetch (position f)")
    case None
    then have "\<not> known (field f)" using Cons(3) by (simp add: fetches_def)
    then show ?thesis using None Cons(1)[OF Cons(2) fs] by simp
  next
    case (Some w)
    then have "word_fits (field f) w" using Cons(3) by (simp add: fetches_def)
    then obtain c' fnd' where s: "store_field (field f) w (c, fnd) = Some (c', fnd')" "caller_for n c'"
      using store_field_ok[OF Cons(2)] by blast
    from Cons(1)[OF s(2) fs] show ?thesis using s(1) Some by simp
  qed
qed simp

definition matches_fit :: "matcher \<times> CIRLPattern \<Rightarrow> bool" where
  "matches_fit rp \<longleftrightarrow> (\<forall>line fetch. fst rp line = Some fetch \<longrightarrow> fetches fetch (pattern_fields (snd rp)))"

lemma match_line_ok:
  "caller_for n c \<Longrightarrow> \<forall>rp \<in> set ps. matches_fit rp \<Longrightarrow>
     \<exists>c' fnd' ch'. match_line ps cs l ((c, fnd), ch) = Some ((c', fnd'), ch') \<and> caller_for n c'"
proof (induction ps arbitrary: c fnd)
  case (Cons rp ps)
  obtain r p where rp: "rp = (r, p)" by fastforce
  have "\<exists>c' fnd'. (case r l of None \<Rightarrow> Some (c, fnd) | Some fetch \<Rightarrow> store_fields fetch (pattern_fields p) (c, fnd))
      = Some (c', fnd') \<and> caller_for n c'"
    using Cons(2,3) rp store_fields_ok[OF Cons(2)]
    by (cases "r l") (simp_all add: matches_fit_def)
  then obtain c' fnd' where s: "(case r l of None \<Rightarrow> Some (c, fnd)
      | Some fetch \<Rightarrow> store_fields fetch (pattern_fields p) (c, fnd)) = Some (c', fnd')" "caller_for n c'" by blast
  from Cons(1)[OF s(2), of fnd'] Cons(3) show ?case using s(1) rp by simp
qed simp

lemma match_lines_ok:
  "caller_for n c \<Longrightarrow> \<forall>rp \<in> set ps. matches_fit rp \<Longrightarrow>
     \<exists>c' fnd' ch'. match_lines ps cs ls ((c, fnd), ch) = Some ((c', fnd'), ch') \<and> caller_for n c'"
proof (induction ls arbitrary: c fnd ch)
  case (Cons l ls)
  obtain c' fnd' ch' where s: "match_line ps cs l ((c, fnd), ch) = Some ((c', fnd'), ch')" "caller_for n c'"
    using match_line_ok[OF Cons(2,3)] by blast
  from Cons(1)[OF s(2) Cons(3)] show ?case using s(1) by simp
qed simp

definition conv_fits :: "(string \<Rightarrow> string \<Rightarrow> string option) \<Rightarrow> bool" where
  "conv_fits cv \<longleftrightarrow> (\<forall>cs s w. cv cs s = Some w \<longrightarrow> word_fits CI_FIELD_NAME w)"

lemma remove_escapes_ok: "text_in n a \<Longrightarrow> \<exists>b. cirlw_remove_escapes a = Some b \<and> text_in n b"
  using text_in_cstr[of n a] remove_escapes_text[of n a] by blast

lemma convert_field_ok:
  assumes "conv_fits cv" and "text_in 256 a"
  shows "\<exists>b. convert_field cv cs a = Some b \<and> text_in 256 b"
proof -
  obtain s where s: "cstr a = Some s" using text_in_cstr[OF assms(2)] by blast
  show ?thesis
  proof (cases "cv cs s")
    case None
    then show ?thesis using s remove_escapes_ok[OF assms(2)] by (simp add: convert_field_def)
  next
    case (Some w)
    then have "NUL \<notin> set w" "length w < 256"
      using assms(1) by (auto simp: conv_fits_def word_fits_def width_def)
    then obtain b where "strcpy a w = Some b" "text_in 256 b" using text_in_strcpy[OF assms(2)] by blast
    then show ?thesis using s Some remove_escapes_ok by (simp add: convert_field_def)
  qed
qed

lemma convert_caller_ok:
  assumes "conv_fits cv" and "caller_for n c"
  shows "\<exists>c'. convert_caller cv cs fnd c = Some c' \<and> caller_for n c'"
proof -
  note ar = caller_for_arrays[OF assms(2)]
  have *: "\<exists>b. (if p then convert_field cv cs a else Some a) = Some b \<and> text_in 256 b" if "text_in 256 a" for p a
    using convert_field_ok[OF assms(1) that] that by (cases p) auto
  have **: "\<exists>b. (if p then cirlw_remove_escapes a else Some a) = Some b \<and> text_in 8 b" if "text_in 8 a" for p a
    using remove_escapes_ok[OF that] that by (cases p) auto
  obtain a1 where 1: "(if fnd AND CI_FIELD_NAME \<noteq> 0 then convert_field cv cs (Name c) else Some (Name c)) = Some a1"
    "text_in 256 a1" using *[of "Name c"] ar by blast
  obtain a2 where 2: "(if fnd AND CI_FIELD_CITY \<noteq> 0 then convert_field cv cs (City c) else Some (City c)) = Some a2"
    "text_in 256 a2" using *[of "City c"] ar by blast
  obtain a3 where 3: "(if fnd AND CI_FIELD_POSTALCODE \<noteq> 0 then cirlw_remove_escapes (PostalCode c)
      else Some (PostalCode c)) = Some a3" "text_in 8 a3" using **[of "PostalCode c"] ar by blast
  obtain a4 where 4: "(if fnd AND CI_FIELD_STREET \<noteq> 0 then convert_field cv cs (Street c) else Some (Street c)) = Some a4"
    "text_in 256 a4" using *[of "Street c"] ar by blast
  show ?thesis
    unfolding convert_caller_def 1(1) 2(1) 3(1) 4(1)
    using 1(2) 2(2) 3(2) 4(2) assms(2) by (auto simp: caller_for_def caller_ok_def)
qed

text \<open>The memory holds the chunks that have arrived, terminated by a zero.\<close>

definition mem_holds :: "DynMem \<Rightarrow> string \<Rightarrow> bool" where
  "mem_holds m s \<longleftrightarrow> mem_size m = length s \<and> (mem m = Some (s @ [NUL]) \<or> mem m = None \<and> s = [])"

lemma read_data_holds:
  assumes "mem_holds m s"
  shows "\<exists>m'. cirlw_read_data True c m = Some (of_nat (length c), m') \<and>
    mem_size m' = length (s @ c) \<and> mem m' = Some ((s @ c) @ [NUL])"
proof -
  have "resize (length s + length c + 1) (mem m) = s @ replicate (Suc (length c)) NUL"
    using assms by (auto simp: mem_holds_def resize_def)
  moreover have "put (s @ replicate (Suc (length c)) NUL) (length s) c = Some (s @ c @ [NUL])"
    by (simp add: put_def del: replicate_Suc) simp
  moreover have "wr (s @ c @ [NUL]) (length s + length c) NUL = Some (s @ c @ [NUL])"
    by (simp add: wr_def list_update_append)
  ultimately show ?thesis using assms by (simp add: cirlw_read_data_def mem_holds_def)
qed

lemma read_data_fails: "cirlw_read_data False c m = Some (- 1, m\<lparr>mem := None\<rparr>)"
  by (simp add: cirlw_read_data_def)

lemma receive_total:
  "mem_holds m s \<Longrightarrow> \<forall>c \<in> set cs. length (snd c) < 2 ^ 32 \<Longrightarrow>
     \<exists>ok m'. receive cs m = Some (ok, m') \<and> ok = list_all fst cs \<and>
       (ok \<longrightarrow> mem_holds m' (s @ concat (map snd cs)))"
proof (induction cs arbitrary: m s)
  case (Cons x cs)
  obtain b c where x: "x = (b, c)" by fastforce
  show ?case
  proof (cases b)
    case True
    obtain m' where m': "cirlw_read_data True c m = Some (of_nat (length c), m')" "mem_holds m' (s @ c)"
      using read_data_holds[OF Cons(2), of c] by (auto simp: mem_holds_def)
    from Cons(1)[OF m'(2)] Cons(3) show ?thesis using m'(1) x True by simp
  next
    case False
    have "length c < 2 ^ 32" using Cons(3) x by simp
    then have "unat (of_nat (length c) :: 64 word) < 2 ^ 32" by (simp add: unat_of_nat_small)
    moreover have "\<not> unat (- 1 :: 64 word) < 2 ^ 32" by (simp add: unsigned_minus_1_eq_mask mask_eq_exp_minus_1)
    ultimately have "(of_nat (length c) :: 64 word) \<noteq> - 1" by metis
    then show ?thesis using x False read_data_fails[of c m] by (simp add: ex_bool_eq)
  qed
qed auto

text \<open>
  What the flow needs of the library calls and of the sources: chunks and queries of a bounded
  size, placeholders for the number only, expressions that compile, words that fit.
\<close>

definition pattern_ok :: "lookup_env \<Rightarrow> CIRLPattern \<Rightarrow> bool" where
  "pattern_ok E p \<longleftrightarrow> (\<exists>e r. expression p = Some e \<and> regex E e = Some r \<and> matches_fit (r, p))"

definition source_ok :: "lookup_env \<Rightarrow> CIRLSource \<Rightarrow> bool" where
  "source_ok E s \<longleftrightarrow> (\<exists>is. query s = Some (url_text is) \<and> items_ok is \<and> length (url_text is) < 2 ^ 24) \<and>
     (\<forall>p \<in> set (patterns s). pattern_ok E p)"

definition env_ok :: "lookup_env \<Rightarrow> bool" where
  "env_ok E \<longleftrightarrow> glib_ascii_ok (glib E) \<and> allocates (alloc E) \<and> conv_fits (conv E) \<and>
     regex E charset_expression \<noteq> None \<and> (\<forall>u. \<forall>c \<in> set (snd (web E u)). length (snd c) < 2 ^ 32)"

lemma compile_ok:
  "\<forall>p \<in> set ps. pattern_ok E p \<Longrightarrow> \<exists>rs. compile (regex E) ps = Some rs \<and> (\<forall>rp \<in> set rs. matches_fit rp)"
proof (induction ps)
  case (Cons p ps)
  then obtain rs where "compile (regex E) ps = Some rs" "\<forall>rp \<in> set rs. matches_fit rp" by auto
  moreover obtain e r where "expression p = Some e" "regex E e = Some r" "matches_fit (r, p)"
    using Cons(2) by (auto simp: pattern_ok_def)
  ultimately show ?case by simp
qed simp

lemma match_patterns_ok:
  assumes "env_ok E" and "\<forall>p \<in> set (patterns source). pattern_ok E p" and "caller_for n c"
    and "mem_holds m s"
  shows "\<exists>err c' found. cirlw_match_patterns E source m c 0 = Some (err, c', found) \<and> caller_for n c'"
proof (cases "patterns source = [] \<or> \<not> block_ok E \<or> \<not> split_lines source \<or> mem m = None")
  case True
  then show ?thesis using assms(3) by (auto simp: cirlw_match_patterns_def)
next
  case False
  then have m: "mem m = Some (s @ [NUL])" using assms(4) by (auto simp: mem_holds_def)
  obtain rs where rs: "compile (regex E) (patterns source) = Some rs" "\<forall>rp \<in> set rs. matches_fit rp"
    using compile_ok[OF assms(2)] by blast
  obtain cs where cs: "regex E charset_expression = Some cs" using assms(1) by (auto simp: env_ok_def)
  obtain t where t: "cstr (s @ [NUL]) = Some t" by (simp add: cstr_def)
  obtain c' fnd' ch where l: "match_lines rs cs (split_at_LF E t) ((c, 0), None) = Some ((c', fnd'), ch)"
    "caller_for n c'" using match_lines_ok[OF assms(3) rs(2)] by blast
  show ?thesis
  proof (cases ch)
    case None
    then show ?thesis using False m rs(1) cs t l by (simp add: cirlw_match_patterns_def)
  next
    case (Some set)
    obtain c'' where "convert_caller (conv E) set fnd' c' = Some c''" "caller_for n c''"
      using convert_caller_ok[of "conv E" n c' set fnd'] assms(1) l(2) unfolding env_ok_def by blast
    then show ?thesis using Some False m rs(1) cs t l by (simp add: cirlw_match_patterns_def)
  qed
qed

lemma find_source_ok:
  "cirlw_find_source ss sid = Some s \<Longrightarrow> s \<in> set ss"
  by (induction ss) (auto split: if_splits)

lemma get_caller_ok:
  assumes "env_ok E" and "\<forall>s \<in> set sources. source_ok E s" and "caller_for n c" and "text_in 32 n"
  shows "\<exists>rc c'. cirlw_get_caller E sources sid c = Some (rc, c') \<and> caller_for n c'"
proof (cases "cirlw_find_source sources sid")
  case None
  then show ?thesis using assms(3) by (simp add: cirlw_get_caller_def)
next
  case (Some source)
  then have src: "source_ok E source" using find_source_ok assms(2) by blast
  then obtain "is" where q: "query source = Some (url_text is)" "items_ok is" "length (url_text is) < 2 ^ 24"
    by (auto simp: source_ok_def)
  obtain num where num: "cstr (NumberComplete c) = Some num" "length num < 32" "NUL \<notin> set num"
    using text_in_cstr[OF assms(4)] assms(3) by (auto simp: caller_for_def)
  have "cirlw_prepare_url (glib E) (alloc E) (url_text is @ [NUL]) c
      = Some (map_option (\<lambda>block. expand num is @ [NUL]) (alloc E (length (expand num is) + 1)))"
    using assms(1) q(2,3) num(1,2) by (intro expands_url) (simp_all add: env_ok_def)
  moreover have "cstr (expand num is @ [NUL]) = Some (expand num is)"
    using expand_no_NUL[OF q(2) num(3)] by simp
  moreover obtain ok m where "receive (snd (web E (expand num is))) \<lparr>mem_size = 0, mem = None\<rparr> = Some (ok, m)"
    "ok \<longrightarrow> (\<exists>s. mem_holds m s)"
    using receive_total[of "\<lparr>mem_size = 0, mem = None\<rparr>" "[]" "snd (web E (expand num is))"] assms(1)
    by (auto simp: mem_holds_def env_ok_def)
  moreover have "\<exists>rc c'. Option.bind (cirlw_match_patterns E source m c 0)
      (\<lambda>(err, c, found). Some (if found = 0 then 4 else err, c)) = Some (rc, c') \<and> caller_for n c'" if h: "mem_holds m s" for s
  proof -
    obtain err c' found where "cirlw_match_patterns E source m c 0 = Some (err, c', found)" "caller_for n c'"
      using match_patterns_ok[OF assms(1) _ assms(3) h, of source] src unfolding source_ok_def by blast
    then show ?thesis by simp
  qed
  ultimately show ?thesis
    using Some q(1) assms(3)
    by (cases "alloc E (length (expand num is) + 1)"; cases ok; cases "fst (web E (expand num is))")
       (auto simp: cirlw_get_caller_def)
qed

section \<open>The cache and the data set\<close>

text \<open>Rows whose columns fit the arrays of a caller.\<close>

definition column_fits :: "nat \<Rightarrow> string option \<Rightarrow> bool" where
  "column_fits n col = (case col of None \<Rightarrow> True | Some s \<Rightarrow> NUL \<notin> set s \<and> length s < n)"

definition row_ok :: "cache_row \<Rightarrow> bool" where
  "row_ok r \<longleftrightarrow> column_fits 256 (row_name r) \<and> column_fits 256 (row_city r) \<and>
     column_fits 256 (row_street r) \<and> column_fits 8 (row_postalcode r)"

definition row_of :: "CICaller \<Rightarrow> cache_row" where
  "row_of c = \<lparr>row_number = cstr (NumberComplete c), row_name = cstr (Name c), row_city = cstr (City c),
     row_street = cstr (Street c), row_postalcode = cstr (PostalCode c)\<rparr>"

lemma copy_column_ok: "text_in n a \<Longrightarrow> column_fits n col \<Longrightarrow>
    \<exists>b. copy_column col a = Some b \<and> text_in n b \<and> (col = None \<or> cstr b = col)"
  using text_in_strcpy[of n a] by (cases col) (auto simp: copy_column_def column_fits_def)

lemma copy_row_ok:
  assumes "caller_for n c" and "row_ok r"
  shows "\<exists>a b d e. copy_column (row_name r) (Name c) = Some a \<and> copy_column (row_city r) (City c) = Some b \<and>
    copy_column (row_street r) (Street c) = Some d \<and> copy_column (row_postalcode r) (PostalCode c) = Some e \<and>
    caller_for n (c\<lparr>Name := a, City := b, Street := d, PostalCode := e\<rparr>) \<and>
    (row_name r = None \<or> cstr a = row_name r)"
proof -
  note ar = caller_for_arrays[OF assms(1)] and r = assms(2)[unfolded row_ok_def]
  obtain a where "copy_column (row_name r) (Name c) = Some a" "text_in 256 a" "row_name r = None \<or> cstr a = row_name r"
    using copy_column_ok[of 256 "Name c" "row_name r"] ar r by blast
  moreover obtain b where "copy_column (row_city r) (City c) = Some b" "text_in 256 b"
    using copy_column_ok[of 256 "City c" "row_city r"] ar r by blast
  moreover obtain d where "copy_column (row_street r) (Street c) = Some d" "text_in 256 d"
    using copy_column_ok[of 256 "Street c" "row_street r"] ar r by blast
  moreover obtain e where "copy_column (row_postalcode r) (PostalCode c) = Some e" "text_in 8 e"
    using copy_column_ok[of 8 "PostalCode c" "row_postalcode r"] ar r by blast
  ultimately show ?thesis using assms(1) by (auto simp: caller_for_def caller_ok_def)
qed

lemma find_caller_cases:
  assumes "caller_for n c" and "cstr n = Some num" and "\<forall>r \<in> set rows. row_ok r"
  shows "(case (if db then find (\<lambda>r. row_number r = Some num) rows else None) of
      None \<Rightarrow> cidb_find_caller db rows c = Some (1, c)
    | Some r \<Rightarrow> (\<exists>c'. cidb_find_caller db rows c = Some (0, c') \<and> caller_for n c' \<and>
        (row_name r = None \<or> cstr (Name c') = row_name r)))"
proof -
  have num: "cstr (NumberComplete c) = Some num" using assms(1,2) by (simp add: caller_for_def)
  show ?thesis
  proof (cases "if db then find (\<lambda>r. row_number r = Some num) rows else None")
    case None
    then show ?thesis using num by (simp add: cidb_find_caller_def)
  next
    case (Some r)
    then have "r \<in> set rows" by (auto simp: find_Some_iff split: if_splits)
    then have "row_ok r" using assms(3) by blast
    from copy_row_ok[OF assms(1) this] show ?thesis
      using num Some by (fastforce simp: cidb_find_caller_def)
  qed
qed

lemma insert_caller_row:
  "caller_for n c \<Longrightarrow> text_in 32 n \<Longrightarrow>
     cidb_insert_caller db rows c = Some (if db then (0, rows @ [row_of c]) else (1, rows)) \<and> row_ok (row_of c)"
  using text_in_cstr[of 32 "NumberComplete c"] text_in_cstr[of 256 "Name c"] text_in_cstr[of 256 "City c"]
    text_in_cstr[of 256 "Street c"] text_in_cstr[of 8 "PostalCode c"] caller_for_arrays[of n c]
  by (auto simp: cidb_insert_caller_def row_of_def row_ok_def column_fits_def)

text \<open>The caller the lookup starts with depends on the number alone.\<close>

definition asked :: "string \<Rightarrow> CICaller" where
  "asked num = zero_caller\<lparr>NumberComplete := num @ NUL # replicate (31 - length num) NUL\<rparr>"

lemma asked_ok:
  "length num < 32 \<Longrightarrow> NUL \<notin> set num \<Longrightarrow>
     caller_for (NumberComplete (asked num)) (asked num) \<and> text_in 32 (NumberComplete (asked num)) \<and>
     cstr (NumberComplete (asked num)) = Some num"
  using zero_ok(2) by (auto simp: asked_def caller_for_def caller_ok_def text_in_def)

lemma lookup_asked:
  assumes "dataset_ok d" and "cstr (cidsNumberComplete d) = Some num"
  shows "length num < 32 \<and> NUL \<notin> set num \<and>
    strcpy (NumberComplete zero_caller) num = Some (NumberComplete (asked num)) \<and>
    asked num = zero_caller\<lparr>NumberComplete := NumberComplete (asked num)\<rparr>"
proof -
  have "length num < 32" "NUL \<notin> set num"
    using assms text_in_cstr[of 32 "cidsNumberComplete d"] by (auto simp: dataset_ok_def)
  moreover have "drop (Suc (length num)) (replicate 32 NUL) = replicate (31 - length num) NUL"
    by (simp del: replicate.simps)
  ultimately show ?thesis by (auto simp: strcpy_Some_iff asked_def zero_caller_def)
qed

text \<open>What follows once the caller is there: its name is copied into the data set.\<close>

lemma name_copied:
  assumes "dataset_ok d" and "caller_for n c"
  shows "\<exists>s a. cstr (Name c) = Some s \<and> strcpy (cidsName d) s = Some a \<and>
    dataset_ok (d\<lparr>cidsName := a\<rparr>) \<and> cstr a = Some s"
proof -
  have t: "text_in 256 (Name c)" "text_in 256 (cidsName d)"
    using assms caller_for_arrays[OF assms(2)] by (auto simp: dataset_ok_def)
  obtain s where "cstr (Name c) = Some s" "length s < 256" "NUL \<notin> set s"
    using text_in_cstr[OF t(1)] by blast
  moreover obtain a where "strcpy (cidsName d) s = Some a" "text_in 256 a" "cstr a = Some s"
    using text_in_strcpy[OF t(2)] calculation by blast
  ultimately show ?thesis using assms(1) by (auto simp: dataset_ok_def)
qed

text \<open>
  The lookup in two steps: the caller from the cache or from the web, with the table that
  results, and the name.
\<close>

definition lookup_caller :: "lookup_env \<Rightarrow> CIRLSource list \<Rightarrow> 64 word \<Rightarrow> bool \<Rightarrow> bool \<Rightarrow>
    cache_row list \<Rightarrow> string \<Rightarrow> (CICaller option \<times> cache_row list) option" where
  "lookup_caller E sources sid find_ok insert_ok rows num =
    (case cidb_find_caller find_ok rows (asked num) of
       None \<Rightarrow> None
     | Some (rc, c) \<Rightarrow>
         if rc = 0 then Some (Some c, rows)
         else (case cirlw_get_caller E sources sid c of
             None \<Rightarrow> None
           | Some (rc, c) \<Rightarrow>
               if rc = 0
               then map_option (\<lambda>r. (Some c, snd r)) (cidb_insert_caller insert_ok rows c)
               else Some (None, rows)))"

lemma lookup_steps:
  assumes "dataset_ok d" and "cstr (cidsNumberComplete d) = Some num"
  shows "lookup_get_caller_data E sources sid f i rows d =
    (case lookup_caller E sources sid f i rows num of
       None \<Rightarrow> None
     | Some (None, rows) \<Rightarrow> Some (1, d, rows)
     | Some (Some c, rows) \<Rightarrow> do {
         name \<leftarrow> cstr (Name c); a \<leftarrow> strcpy (cidsName d) name; Some (0, d\<lparr>cidsName := a\<rparr>, rows) })"
  using lookup_asked[OF assms] assms(2)
  by (auto simp: lookup_get_caller_data_def lookup_caller_def split: option.split prod.split)

lemma lookup_caller_cases:
  assumes "env_ok E" and "\<forall>s \<in> set sources. source_ok E s" and "\<forall>r \<in> set rows. row_ok r"
    and "length num < 32" and "NUL \<notin> set num"
  shows "\<exists>oc rows'. lookup_caller E sources sid f i rows num = Some (oc, rows') \<and>
    (case oc of None \<Rightarrow> rows' = rows
     | Some c \<Rightarrow> caller_for (NumberComplete (asked num)) c \<and>
         (cidb_find_caller f rows (asked num) = Some (0, c) \<and> rows' = rows \<or>
          (if f then find (\<lambda>r. row_number r = Some num) rows else None) = None \<and>
          rows' = (if i then rows @ [row_of c] else rows) \<and> row_ok (row_of c)))"
proof -
  note a = asked_ok[OF assms(4,5)]
  note fc = find_caller_cases[OF conjunct1[OF a] conjunct2[OF conjunct2[OF a]] assms(3), of f]
  show ?thesis
  proof (cases "if f then find (\<lambda>r. row_number r = Some num) rows else None")
    case (Some r)
    then show ?thesis using fc by (auto simp: lookup_caller_def)
  next
    case None
    then have nf: "cidb_find_caller f rows (asked num) = Some (1, asked num)" using fc by simp
    obtain rc c where g: "cirlw_get_caller E sources sid (asked num) = Some (rc, c)"
      "caller_for (NumberComplete (asked num)) c"
      using get_caller_ok[OF assms(1,2)] a by blast
    note ins = insert_caller_row[OF g(2) conjunct1[OF conjunct2[OF a]], of i rows]
    show ?thesis using nf g ins None by (auto simp: lookup_caller_def)
  qed
qed

lemma row_of_number:
  "caller_for (NumberComplete (asked num)) c \<Longrightarrow> length num < 32 \<Longrightarrow> NUL \<notin> set num \<Longrightarrow>
     row_number (row_of c) = Some num"
  using asked_ok[of num] by (simp add: row_of_def caller_for_def)

lemma find_append: "find P xs = None \<Longrightarrow> find P (xs @ ys) = find P ys"
  by (induction xs) (auto split: if_splits)

text \<open>A second lookup of the number finds in the table what the first one returned.\<close>

lemma lookup_again:
  assumes "env_ok E" and "\<forall>s \<in> set sources. source_ok E s" and "\<forall>r \<in> set rows. row_ok r"
    and "length num < 32" and "NUL \<notin> set num"
    and "lookup_caller E sources sid True True rows num = Some (Some c, rows')"
  shows "\<exists>c'. lookup_caller E' sources' sid' True i rows' num = Some (Some c', rows') \<and>
    cstr (Name c') = cstr (Name c) \<and> caller_for (NumberComplete (asked num)) c'"
proof -
  from lookup_caller_cases[OF assms(1-5), of sid True True] assms(6)
  have c: "caller_for (NumberComplete (asked num)) c" and
    cs: "cidb_find_caller True rows (asked num) = Some (0, c) \<and> rows' = rows \<or>
      find (\<lambda>r. row_number r = Some num) rows = None \<and> rows' = rows @ [row_of c] \<and> row_ok (row_of c)"
    by auto
  from cs show ?thesis
  proof
    assume "cidb_find_caller True rows (asked num) = Some (0, c) \<and> rows' = rows"
    then show ?thesis using c by (simp add: lookup_caller_def)
  next
    assume n: "find (\<lambda>r. row_number r = Some num) rows = None \<and> rows' = rows @ [row_of c] \<and> row_ok (row_of c)"
    have "find (\<lambda>r. row_number r = Some num) (rows @ [row_of c]) = Some (row_of c)"
      using n row_of_number[OF c assms(4,5)] by (simp add: find_append)
    moreover have "\<forall>r \<in> set rows'. row_ok r" using n assms(3) by auto
    moreover note a = asked_ok[OF assms(4,5)]
    ultimately obtain c' where c': "cidb_find_caller True rows' (asked num) = Some (0, c')"
      "caller_for (NumberComplete (asked num)) c'"
      "row_name (row_of c) = None \<or> cstr (Name c') = row_name (row_of c)"
      using find_caller_cases[OF conjunct1[OF a] conjunct2[OF conjunct2[OF a]], of rows' True] n by auto
    have "row_name (row_of c) = cstr (Name c)" "cstr (Name c) \<noteq> None"
      using text_in_cstr[of 256 "Name c"] caller_for_arrays[OF c] by (auto simp: row_of_def)
    then show ?thesis using c' by (auto simp: lookup_caller_def)
  qed
qed

definition sample_env :: lookup_env where
  "sample_env = \<lparr>glib = ascii, alloc = \<lambda>n. Some (replicate n NUL), block_ok = True, split_at_LF = \<lambda>s. [s],
     regex = \<lambda>e. Some (\<lambda>line. if e = charset_expression then None else Some (\<lambda>i. Some ''Bob'')),
     conv = \<lambda>cs s. None, curl = True, web = \<lambda>u. (True, [(True, ''name: Bob'')])\<rparr>"

definition sample_source :: CIRLSource where
  "sample_source = \<lparr>source_id = 1, description = None, query = Some (url_text [Lit CHR ''?'', Sub]),
     split_lines = True,
     patterns = [\<lparr>pattern_fields = [\<lparr>position = 1, field = CI_FIELD_NAME\<rparr>], expression = Some ''name: (.*)''\<rparr>]\<rparr>"

definition sample_call :: CIDataSet where
  "sample_call = zero_dataset\<lparr>cidsNumberComplete := ''030555'' @ NUL # replicate 25 NUL\<rparr>"

lemma sample_ok:
  "env_ok sample_env" "source_ok sample_env sample_source" "dataset_ok sample_call"
  "cstr (cidsNumberComplete sample_call) = Some ''030555''"
proof -
  show "env_ok sample_env"
    using ascii_ok by (simp add: env_ok_def sample_env_def allocates_def conv_fits_def)
  have "matches_fit ((\<lambda>line. Some (\<lambda>i. Some ''Bob'')), \<lparr>pattern_fields = [\<lparr>position = 1, field = CI_FIELD_NAME\<rparr>],
      expression = Some ''name: (.*)''\<rparr>)"
    by (simp add: matches_fit_def fetches_def word_fits_def width_def)
  moreover have "''name: (.*)'' \<noteq> charset_expression" by (simp add: charset_expression_def)
  ultimately have "\<forall>p \<in> set (patterns sample_source). pattern_ok sample_env p"
    by (simp add: sample_source_def sample_env_def pattern_ok_def)
  moreover have "\<exists>is. query sample_source = Some (url_text is) \<and> items_ok is \<and> length (url_text is) < 2 ^ 24"
    by (rule exI[of _ "[Lit CHR ''?'', Sub]"]) (simp add: sample_source_def)
  ultimately show "source_ok sample_env sample_source" by (simp add: source_ok_def)
  show "dataset_ok sample_call"
    using zero_ok(1) by (simp add: sample_call_def dataset_ok_def text_in_def)
  show "cstr (cidsNumberComplete sample_call) = Some ''030555''"
    by (simp add: sample_call_def cstr_def)
qed

lemma lookup_always:
  assumes "env_ok E" and "\<forall>s \<in> set sources. source_ok E s" and "\<forall>r \<in> set rows. row_ok r"
    and "dataset_ok d" and "cstr (cidsNumberComplete d) = Some num"
  shows "\<exists>rc d' rows'. lookup_get_caller_data E sources sid f i rows d = Some (rc, d', rows') \<and>
    dataset_ok d' \<and> d' = d\<lparr>cidsName := cidsName d'\<rparr> \<and>
    (rc = 1 \<and> d' = d \<and> rows' = rows \<or>
     rc = 0 \<and> (rows' = rows \<or> (\<exists>r. rows' = rows @ [r] \<and> row_number r = Some num \<and> row_ok r)))"
proof -
  have num: "length num < 32" "NUL \<notin> set num" using lookup_asked[OF assms(4,5)] by auto
  obtain oc rows' where l: "lookup_caller E sources sid f i rows num = Some (oc, rows')"
    and c: "case oc of None \<Rightarrow> rows' = rows
      | Some c \<Rightarrow> caller_for (NumberComplete (asked num)) c \<and>
         (cidb_find_caller f rows (asked num) = Some (0, c) \<and> rows' = rows \<or>
          (if f then find (\<lambda>r. row_number r = Some num) rows else None) = None \<and>
          rows' = (if i then rows @ [row_of c] else rows) \<and> row_ok (row_of c))"
    using lookup_caller_cases[OF assms(1-3) num, of sid f i] by blast
  show ?thesis
  proof (cases oc)
    case None
    then show ?thesis using l c assms(4) by (simp add: lookup_steps[OF assms(4,5)])
  next
    case (Some x)
    then have x: "caller_for (NumberComplete (asked num)) x" using c by simp
    obtain s a where "cstr (Name x) = Some s" "strcpy (cidsName d) s = Some a" "dataset_ok (d\<lparr>cidsName := a\<rparr>)"
      using name_copied[OF assms(4) x] by blast
    moreover have "rows' = rows \<or> (\<exists>r. rows' = rows @ [r] \<and> row_number r = Some num \<and> row_ok r)"
      using c Some row_of_number[OF x num] by (auto split: if_splits)
    ultimately show ?thesis using l Some by (simp add: lookup_steps[OF assms(4,5)])
  qed
qed

section \<open>Properties\<close>




definition sample_row :: cache_row where
  "sample_row = \<lparr>row_number = Some ''030555'', row_name = Some ''Bob'', row_city = None, row_street = None,
     row_postalcode = None\<rparr>"




end
