(* ===== verification/Config.thy ===== *)
theory Config
  imports CText
begin

text \<open>
  \<open>config.c\<close> and \<open>logging.c\<close>: the configuration is read from the command line and a key file into one
  structure of strings, which is freed at the end; the log keeps a pointer into it. Also what
  several parts of the program share: a pointer to something that is allocated and released.
\<close>

section \<open>Pointers that own something\<close>

text \<open>
  A variable that owns a block of memory, a handle or a list. After the release the variable still
  holds the old address unless the code sets it to NULL; using or releasing it then is undefined.
\<close>

datatype 'a owned = Null | Owned 'a | Freed

fun release :: "'a owned \<Rightarrow> 'a owned option" where
  "release Null = Some Null"
| "release (Owned x) = Some Freed"
| "release Freed = None"

fun deref :: "'a owned \<Rightarrow> 'a option option" where
  "deref Null = Some None"
| "deref (Owned x) = Some (Some x)"
| "deref Freed = None"

fun own_opt :: "'a option \<Rightarrow> 'a owned" where
  "own_opt None = Null"
| "own_opt (Some x) = Owned x"

primrec gone :: "'a owned \<Rightarrow> bool" where
  "gone Null = True"
| "gone (Owned x) = False"
| "gone Freed = True"

lemma release_gone: "release p = Some q \<Longrightarrow> gone q"
  by (cases p) auto

lemma release_own_opt [simp]: "release (own_opt x) = Some (if x = None then Null else Freed)"
  by (cases x) auto

lemma deref_own_opt [simp]: "deref (own_opt x) = Some x"
  by (cases x) auto

lemma own_opt_not_Freed [simp]: "own_opt x \<noteq> Freed"
  by (cases x) auto

section \<open>Configuration\<close>

record Fritz2CIConfig =
  cf_fritz_host :: "string owned"
  cf_fritz_port :: u16
  cf_ci2_port :: u16
  cf_db_location :: "string owned"
  cf_cache_location :: "string owned"
  cf_lookup_sources_location :: "string owned"
  cf_areacodes_location :: "string owned"
  cf_verbose :: bool
  cf_daemon :: bool
  cf_configfile :: "string owned"
  cf_log_file :: "string owned"
  cf_pid_file :: "string owned"
  cf_msn_lookup_location :: "string owned"
  cf_data_backup_location :: "string owned"
  cf_lookup_source_id :: u32

definition zero_config :: Fritz2CIConfig where
  "zero_config = \<lparr>cf_fritz_host = Null, cf_fritz_port = 0, cf_ci2_port = 0, cf_db_location = Null,
     cf_cache_location = Null, cf_lookup_sources_location = Null, cf_areacodes_location = Null,
     cf_verbose = False, cf_daemon = False, cf_configfile = Null, cf_log_file = Null, cf_pid_file = Null,
     cf_msn_lookup_location = Null, cf_data_backup_location = Null, cf_lookup_source_id = 0\<rparr>"

text \<open>
  \<open>opts\<close> is what \<open>g_option_context_parse\<close> finds, \<open>None\<close> when it fails: the two switches and the
  arguments that are left, with the name of the program in front.
\<close>

definition parse_cmd_line ::
  "(bool \<times> bool \<times> string list) option \<Rightarrow> Fritz2CIConfig \<Rightarrow> int \<times> Fritz2CIConfig" where
  "parse_cmd_line opts c =
     (let c = zero_config in
      case opts of
        None \<Rightarrow> (1, c)
      | Some (verbose, daemon, args) \<Rightarrow>
          let c = c\<lparr>cf_verbose := verbose, cf_daemon := daemon\<rparr> in
          (0, if 1 < length args then c\<lparr>cf_configfile := Owned (args ! 1)\<rparr> else c))"

text \<open>
  A key file of GLib: the string of a key in a group, \<open>None\<close> if there is none, and the integer, 0
  if there is none.
\<close>

record keyfile =
  get_string :: "string \<Rightarrow> string \<Rightarrow> string option"
  get_integer :: "string \<Rightarrow> string \<Rightarrow> int"

definition config_defaults :: "Fritz2CIConfig \<Rightarrow> Fritz2CIConfig" where
  "config_defaults c = c\<lparr>cf_fritz_host := Owned ''127.0.0.1'', cf_fritz_port := 1012, cf_ci2_port := 63690,
     cf_db_location := Owned ''ci.db'', cf_areacodes_location := Owned ''/usr/share/fritz2ci/vorwahl.dat'',
     cf_cache_location := Owned ''cache.db'', cf_lookup_sources_location := Owned ''/usr/share/fritz2ci/revlookup.xml'',
     cf_msn_lookup_location := Owned ''/usr/share/fritz2ci/msn.dat'', cf_data_backup_location := Owned ''cidata.dat'',
     cf_lookup_source_id := 1, cf_log_file := Null, cf_pid_file := Null\<rparr>"

definition config_values :: "keyfile \<Rightarrow> Fritz2CIConfig \<Rightarrow> Fritz2CIConfig" where
  "config_values kf c = c\<lparr>
     cf_fritz_host := own_opt (get_string kf ''Fritz'' ''Host''),
     cf_fritz_port := word_of_int (get_integer kf ''Fritz'' ''Port''),
     cf_ci2_port := word_of_int (get_integer kf ''CIServer'' ''Port''),
     cf_db_location := own_opt (get_string kf ''Database'' ''Location''),
     cf_cache_location := own_opt (get_string kf ''Cache'' ''Location''),
     cf_lookup_sources_location := own_opt (get_string kf ''Lookup'' ''Location''),
     cf_areacodes_location := own_opt (get_string kf ''Areacodes'' ''Location''),
     cf_msn_lookup_location := own_opt (get_string kf ''Lookup'' ''MSNFile''),
     cf_data_backup_location := own_opt (get_string kf ''Database'' ''Backupfile''),
     cf_lookup_source_id := word_of_int (get_integer kf ''Lookup'' ''Source''),
     cf_log_file := own_opt (get_string kf ''Daemon'' ''Logfile''),
     cf_pid_file := own_opt (get_string kf ''Daemon'' ''Pidfile'')\<rparr>"

text \<open>\<open>kfs\<close> is \<open>g_key_file_load_from_file\<close> on a path. The return value is always 0.\<close>

definition config_load ::
  "(string \<Rightarrow> keyfile option) \<Rightarrow> string option \<Rightarrow> Fritz2CIConfig \<Rightarrow> int \<times> Fritz2CIConfig" where
  "config_load kfs conffile c =
     (let (path, c) = (case conffile of
            None \<Rightarrow> (''/etc/fritz2ci.conf'', c\<lparr>cf_configfile := Owned ''/etc/fritz2ci.conf''\<rparr>)
          | Some f \<Rightarrow> (f, c))
      in (0, case kfs path of None \<Rightarrow> config_defaults c | Some kf \<Rightarrow> config_values kf c))"

definition config_free :: "Fritz2CIConfig \<Rightarrow> Fritz2CIConfig option" where
  "config_free c = do {
     a \<leftarrow> release (cf_fritz_host c);
     b \<leftarrow> release (cf_db_location c);
     d \<leftarrow> release (cf_cache_location c);
     e \<leftarrow> release (cf_lookup_sources_location c);
     f \<leftarrow> release (cf_areacodes_location c);
     g \<leftarrow> release (cf_configfile c);
     h \<leftarrow> release (cf_msn_lookup_location c);
     i \<leftarrow> release (cf_data_backup_location c);
     k \<leftarrow> release (cf_log_file c);
     l \<leftarrow> release (cf_pid_file c);
     Some (c\<lparr>cf_fritz_host := a, cf_db_location := b, cf_cache_location := d, cf_lookup_sources_location := e,
       cf_areacodes_location := f, cf_configfile := g, cf_msn_lookup_location := h, cf_data_backup_location := i,
       cf_log_file := k, cf_pid_file := l\<rparr>) }"

section \<open>Log\<close>

text \<open>
  \<open>_log_file\<close> points to the string of the configuration once it is set; \<open>out\<close> are the lines
  written to files, and those to the standard output under \<open>None\<close>. \<open>stamp\<close> is the time and
  \<open>text\<close> the formatted message; \<open>may\<close> says which files can be opened for appending.
\<close>

record logger =
  log_verbose :: bool
  log_set :: bool
  log_out :: "(string option \<times> string) list"

definition log_set_verbose :: "bool \<Rightarrow> logger \<Rightarrow> logger" where
  "log_set_verbose v g = g\<lparr>log_verbose := v\<rparr>"

definition log_set_log_file :: "logger \<Rightarrow> logger" where
  "log_set_log_file g = g\<lparr>log_set := True\<rparr>"

definition log_log :: "(string \<Rightarrow> bool) \<Rightarrow> string \<Rightarrow> string \<Rightarrow> Fritz2CIConfig \<Rightarrow> logger \<Rightarrow> logger option" where
  "log_log may stamp text c g =
     (if log_verbose g then do {
        f \<leftarrow> (if log_set g then deref (cf_log_file c) else Some None);
        let target = (case f of None \<Rightarrow> None | Some p \<Rightarrow> if may p then Some p else None) in
        Some (g\<lparr>log_out := log_out g @ [(target, stamp @ text)]\<rparr>) }
      else Some g)"

section \<open>Lemmas\<close>

text \<open>The strings of a configuration; none is released, or all that were there are.\<close>

definition cf_strings :: "Fritz2CIConfig \<Rightarrow> string owned list" where
  "cf_strings c = [cf_fritz_host c, cf_db_location c, cf_cache_location c, cf_lookup_sources_location c,
     cf_areacodes_location c, cf_configfile c, cf_msn_lookup_location c, cf_data_backup_location c,
     cf_log_file c, cf_pid_file c]"

definition cf_live :: "Fritz2CIConfig \<Rightarrow> bool" where
  "cf_live c \<longleftrightarrow> Freed \<notin> set (cf_strings c)"

lemma release_live: "p \<noteq> Freed \<Longrightarrow> \<exists>q. release p = Some q \<and> gone q"
  by (cases p) auto

lemma config_free_live:
  assumes "cf_live c"
  shows "\<exists>c'. config_free c = Some c' \<and> list_all gone (cf_strings c')"
proof -
  have "p \<in> set (cf_strings c) \<Longrightarrow> p \<noteq> Freed" for p using assms by (auto simp: cf_live_def)
  note r = release_live[OF this]
  show ?thesis
    using r[of "cf_fritz_host c"] r[of "cf_db_location c"] r[of "cf_cache_location c"] r[of "cf_lookup_sources_location c"]
      r[of "cf_areacodes_location c"] r[of "cf_configfile c"] r[of "cf_msn_lookup_location c"]
      r[of "cf_data_backup_location c"] r[of "cf_log_file c"] r[of "cf_pid_file c"]
    by (auto simp: config_free_def cf_strings_def)
qed

lemma parse_live: "cf_live (snd (parse_cmd_line opts c))"
  by (auto simp: parse_cmd_line_def zero_config_def cf_live_def cf_strings_def Let_def split: option.splits)

lemma load_live: "cf_live c \<Longrightarrow> cf_live (snd (config_load kfs conffile c))"
  by (auto simp: config_load_def config_defaults_def config_values_def cf_live_def cf_strings_def Let_def
      own_opt_not_Freed[symmetric] split: option.splits)

lemma log_live: "cf_live c \<Longrightarrow> \<exists>g'. log_log may stamp text c g = Some g' \<and> log_verbose g' = log_verbose g \<and> log_set g' = log_set g"
  by (cases "cf_log_file c") (auto simp: log_log_def cf_live_def cf_strings_def)

end
