(* ===== verification/Handles.thy ===== *)
theory Handles
  imports Config
begin

text \<open>
  Opening and closing of the two SQLite databases, \<open>dbhandler_init\<close> and \<open>dbhandler_cleanup\<close> of
  \<open>dbhandler.c\<close> and \<open>cidb_connect\<close> and \<open>cidb_cleanup\<close> of \<open>lookup.c\<close>: which connections and
  prepared statements exist and are released. What SQLite answers is an argument.
\<close>

section \<open>Answers of SQLite\<close>

text \<open>
  The return codes of \<open>sqlite3_open\<close>, of the statements executed and of those prepared, by their position.
  \<open>sqlite3_open\<close> leaves a connection to be closed even when it fails, unless there is no memory;
  \<open>sqlite3_prepare_v2\<close> leaves NULL when it fails.
\<close>

record sqlite_answers =
  sq_open :: int
  sq_handle :: bool
  sq_exec :: "nat \<Rightarrow> int"
  sq_prepare :: "nat \<Rightarrow> int"

definition connection :: "sqlite_answers \<Rightarrow> unit owned" where
  "connection A = (if sq_handle A then Owned () else Null)"

definition prepared :: "int \<Rightarrow> unit owned" where
  "prepared rc = (if rc = 0 then Owned () else Null)"

section \<open>The call database\<close>

abbreviation DBHANDLER_STMT_NUM_STMTS :: nat where "DBHANDLER_STMT_NUM_STMTS \<equiv> 4"

record db_handles =
  dh_db :: "unit owned"
  dh_stmts :: "unit owned list"

definition no_db :: db_handles where
  "no_db = \<lparr>dh_db = Null, dh_stmts = replicate DBHANDLER_STMT_NUM_STMTS Null\<rparr>"

definition finalize :: "unit owned \<Rightarrow> unit owned option" where
  "finalize p = (if p \<noteq> Null then do { _ \<leftarrow> release p; Some Null } else Some p)"

definition dbhandler_cleanup :: "db_handles \<Rightarrow> db_handles option" where
  "dbhandler_cleanup h = do {
     stmts \<leftarrow> for_n 0 DBHANDLER_STMT_NUM_STMTS (\<lambda>i stmts. do {
       p \<leftarrow> rd stmts i; q \<leftarrow> finalize p; wr stmts i q }) (dh_stmts h);
     d \<leftarrow> finalize (dh_db h);
     Some (h\<lparr>dh_stmts := stmts, dh_db := d\<rparr>) }"

text \<open>The four uses of \<open>PREPARE_STMT\<close>, up to the first that fails.\<close>

fun prepare_stmts :: "int list \<Rightarrow> nat \<Rightarrow> db_handles \<Rightarrow> bool \<times> db_handles" where
  "prepare_stmts [] i h = (True, h)"
| "prepare_stmts (rc # rcs) i h =
     (let h = h\<lparr>dh_stmts := (dh_stmts h)[i := prepared rc]\<rparr> in
      if rc \<noteq> 0 then (False, h) else prepare_stmts rcs (Suc i) h)"

definition dbhandler_init :: "sqlite_answers \<Rightarrow> db_handles \<Rightarrow> (int \<times> db_handles) option" where
  "dbhandler_init A h =
     (let h = h\<lparr>dh_db := connection A\<rparr>;
          (ok, h) = (if sq_open A = 0 \<and> sq_exec A 0 = 0 \<and> sq_exec A 1 = 0
                     then prepare_stmts (map (sq_prepare A) [0, 1, 2, 3]) 0 h else (False, h))
      in if ok then Some (0, h) else do { h \<leftarrow> dbhandler_cleanup h; Some (1, h) })"

section \<open>The cache\<close>

record cache_handles =
  ch_db :: "unit owned"
  ch_stmt :: "unit owned"

definition no_cache :: cache_handles where
  "no_cache = \<lparr>ch_db = Null, ch_stmt = Null\<rparr>"

definition cidb_init :: int where
  "cidb_init = 0"

text \<open>\<open>_cidb_db\<close> is closed on an error and keeps its value.\<close>

definition cidb_connect :: "sqlite_answers \<Rightarrow> cache_handles \<Rightarrow> (int \<times> cache_handles) option" where
  "cidb_connect A h =
     (let h = h\<lparr>ch_db := connection A\<rparr> in
      if sq_open A \<noteq> 0 then do { d \<leftarrow> release (ch_db h); Some (1, h\<lparr>ch_db := d\<rparr>) }
      else if sq_exec A 0 \<noteq> 0 then do { d \<leftarrow> release (ch_db h); Some (1, h\<lparr>ch_db := d\<rparr>) }
      else let h = h\<lparr>ch_stmt := prepared (sq_prepare A 0)\<rparr> in
        if sq_prepare A 0 \<noteq> 0 then do { d \<leftarrow> release (ch_db h); Some (1, h\<lparr>ch_db := d, ch_stmt := Null\<rparr>) }
        else Some (0, h))"

definition cidb_cleanup :: "cache_handles \<Rightarrow> cache_handles option" where
  "cidb_cleanup h = do {
     s \<leftarrow> (if ch_stmt h \<noteq> Null then release (ch_stmt h) else Some (ch_stmt h));
     d \<leftarrow> (if ch_db h \<noteq> Null then release (ch_db h) else Some (ch_db h));
     Some (h\<lparr>ch_stmt := s, ch_db := d\<rparr>) }"

text \<open>
  \<open>cidb_clear_cache\<close>, which nothing calls, gives the text of its statement to \<open>sqlite3_free\<close>: a
  string literal is no block of SQLite's allocator.
\<close>

datatype sql_text = Literal string | Block string

fun sqlite3_free :: "sql_text \<Rightarrow> unit option" where
  "sqlite3_free (Literal s) = None"
| "sqlite3_free (Block s) = Some ()"

definition cidb_clear_cache :: "bool \<Rightarrow> 'row list \<Rightarrow> 'row list option" where
  "cidb_clear_cache ok rows =
     (let sql = Literal ''delete from callercache''; rows = (if ok then [] else rows)
      in do { _ \<leftarrow> sqlite3_free sql; Some rows })"

section \<open>Lemmas\<close>

definition db_live :: "db_handles \<Rightarrow> bool" where
  "db_live h \<longleftrightarrow> length (dh_stmts h) = DBHANDLER_STMT_NUM_STMTS \<and> Freed \<notin> insert (dh_db h) (set (dh_stmts h))"

lemma no_db_live: "db_live no_db"
  by (simp add: db_live_def no_db_def)

lemma finalize_live: "p \<noteq> Freed \<Longrightarrow> finalize p = Some Null"
  by (cases p) (simp_all add: finalize_def)

lemma cleanup_live:
  assumes "db_live h"
  shows "dbhandler_cleanup h = Some no_db"
proof -
  obtain a b c d where s: "dh_stmts h = [a, b, c, d]"
    using assms by (auto simp: db_live_def numeral_eq_Suc length_Suc_conv)
  have l: "a \<noteq> Freed" "b \<noteq> Freed" "c \<noteq> Freed" "d \<noteq> Freed" "dh_db h \<noteq> Freed"
    using assms by (auto simp: db_live_def s)
  show ?thesis
    by (simp add: dbhandler_cleanup_def s numeral_eq_Suc rd_def wr_def l finalize_live no_db_def)
qed

lemma set_update_live: "x \<noteq> y \<Longrightarrow> y \<notin> set xs \<Longrightarrow> y \<notin> set (xs[i := x])"
  using set_update_subset_insert by fastforce

lemma prepare_live: "db_live h \<Longrightarrow> db_live (snd (prepare_stmts rcs i h))"
proof (induction rcs i h rule: prepare_stmts.induct)
  case (2 rc rcs i h)
  then show ?case by (auto simp: Let_def db_live_def prepared_def set_update_live)
qed simp

text \<open>A failed start leaves nothing open, a successful one leaves everything open.\<close>

lemma dbhandler_init_live:
  assumes "db_live h"
  shows "\<exists>rc h'. dbhandler_init A h = Some (rc, h') \<and> db_live h' \<and> (rc = 0 \<or> rc = 1 \<and> h' = no_db)"
proof -
  let ?h = "h\<lparr>dh_db := connection A\<rparr>"
  have h: "db_live ?h" using assms by (simp add: db_live_def connection_def)
  obtain ok h' where p: "(if sq_open A = 0 \<and> sq_exec A 0 = 0 \<and> sq_exec A 1 = 0
      then prepare_stmts (map (sq_prepare A) [0, 1, 2, 3]) 0 ?h else (False, ?h)) = (ok, h')" by fastforce
  have l: "db_live h'" using p h prepare_live[of ?h "map (sq_prepare A) [0, 1, 2, 3]" 0] by (auto split: if_splits)
  show ?thesis
    unfolding dbhandler_init_def Let_def p using l no_db_live by (cases ok) (simp_all add: cleanup_live)
qed

lemma connect_cases:
  "\<exists>rc h'. cidb_connect A no_cache = Some (rc, h') \<and>
     (rc = 0 \<and> ch_db h' = connection A \<and> ch_stmt h' = Owned () \<or>
      rc = 1 \<and> ch_stmt h' = Null \<and> ch_db h' = (if sq_handle A then Freed else Null))"
  by (auto simp: cidb_connect_def no_cache_def connection_def prepared_def Let_def)

lemma cidb_cleanup_iff:
  "cidb_cleanup h = None \<longleftrightarrow> ch_stmt h = Freed \<or> ch_db h = Freed"
  by (cases "ch_stmt h"; cases "ch_db h") (simp_all add: cidb_cleanup_def)

lemma cidb_cleanup_gone: "cidb_cleanup h = Some h' \<Longrightarrow> gone (ch_stmt h') \<and> gone (ch_db h')"
  by (cases "ch_stmt h"; cases "ch_db h") (auto simp: cidb_cleanup_def)

end
