(* ===== verification/Sources.thy ===== *)
theory Sources
  imports Lookup Notification Handles
begin

text \<open>
  The start and the end of the reverse lookup in \<open>lookup.c\<close>: the sources are read from an XML file
  (\<open>cirlw_load_sources_from_file\<close>), the cache is opened (theory \<open>Handles\<close>), curl is set up. The
  tree of the file is what libxml2 makes of it.
\<close>

section \<open>The file of sources\<close>

text \<open>
  A node: whether it is an element, its name, and what \<open>xmlGetProp\<close> and \<open>xmlNodeGetContent\<close> answer
  for it; then its children.
\<close>

datatype xml_node = XmlNode
  (is_element: bool) (node_name: string) (props: "(string \<times> string) list") (content: "string option")
  (children: "xml_node list")

definition xml_prop :: "xml_node \<Rightarrow> string \<Rightarrow> string option" where
  "xml_prop n a = map_of (props n) a"

definition named :: "string \<Rightarrow> xml_node \<Rightarrow> bool" where
  "named nm n \<longleftrightarrow> is_element n \<and> node_name n = nm"

definition load_field :: "xml_node \<Rightarrow> CIRLPatternField option" where
  "load_field n = do {
     pos \<leftarrow> (case xml_prop n ''pos'' of None \<Rightarrow> Some 0 | Some s \<Rightarrow> atoi s);
     Some \<lparr>position = pos,
       field = (case content n of
          None \<Rightarrow> 0
        | Some t \<Rightarrow>
            if t = ''FIELD_NAME'' then CI_FIELD_NAME
            else if t = ''FIELD_POSTALCODE'' then CI_FIELD_POSTALCODE
            else if t = ''FIELD_CITY'' then CI_FIELD_CITY
            else if t = ''FIELD_STREET'' then CI_FIELD_STREET
            else 0)\<rparr> }"

text \<open>The three loops over the children; what is found is put in front of a list.\<close>

fun load_fields :: "xml_node list \<Rightarrow> CIRLPatternField list \<Rightarrow> CIRLPatternField list option" where
  "load_fields [] fs = Some fs"
| "load_fields (n # ns) fs =
     (if named ''field'' n then do { f \<leftarrow> load_field n; load_fields ns (f # fs) } else load_fields ns fs)"

definition load_pattern :: "xml_node \<Rightarrow> CIRLPattern option" where
  "load_pattern n = do {
     fs \<leftarrow> load_fields (children n) [];
     Some \<lparr>pattern_fields = rev fs, expression = xml_prop n ''expression''\<rparr> }"

definition load_query :: "xml_node \<Rightarrow> CIRLSource \<Rightarrow> CIRLSource" where
  "load_query n s =
     (let s = s\<lparr>split_lines := xml_prop n ''linehandling'' \<noteq> Some ''nosplit''\<rparr>
      in case content n of None \<Rightarrow> s | Some t \<Rightarrow> s\<lparr>query := Some t\<rparr>)"

fun load_parts :: "xml_node list \<Rightarrow> CIRLSource \<Rightarrow> CIRLSource option" where
  "load_parts [] s = Some s"
| "load_parts (n # ns) s =
     (if named ''description'' n
      then load_parts ns (case content n of None \<Rightarrow> s | Some t \<Rightarrow> s\<lparr>description := Some t\<rparr>)
      else if named ''query'' n then load_parts ns (load_query n s)
      else if named ''pattern'' n
      then do { p \<leftarrow> load_pattern n; load_parts ns (s\<lparr>patterns := p # patterns s\<rparr>) }
      else load_parts ns s)"

definition zero_source :: CIRLSource where
  "zero_source = \<lparr>source_id = 0, description = None, query = None, split_lines = False, patterns = []\<rparr>"

definition load_source :: "xml_node \<Rightarrow> CIRLSource option" where
  "load_source n = do {
     let s = (case xml_prop n ''id'' of None \<Rightarrow> zero_source | Some t \<Rightarrow> zero_source\<lparr>source_id := strtoul t\<rparr>) in do {
     s \<leftarrow> load_parts (children n) s;
     Some (s\<lparr>patterns := rev (patterns s)\<rparr>) } }"

fun load_sources :: "xml_node list \<Rightarrow> CIRLSource list \<Rightarrow> CIRLSource list option" where
  "load_sources [] ss = Some ss"
| "load_sources (n # ns) ss =
     (if named ''source'' n then do { s \<leftarrow> load_source n; load_sources ns (s # ss) } else load_sources ns ss)"

text \<open>\<open>doc\<close> is the result of \<open>xmlParseFile\<close>, in it that of \<open>xmlDocGetRootElement\<close>.\<close>

definition cirlw_load_sources_from_file ::
  "xml_node option option \<Rightarrow> CIRLSource list \<Rightarrow> (int \<times> CIRLSource list) option" where
  "cirlw_load_sources_from_file doc sources =
     (if sources \<noteq> [] then Some (1, sources)
      else case doc of
          None \<Rightarrow> Some (2, sources)
        | Some root \<Rightarrow>
            (case root of
               None \<Rightarrow> Some (3, sources)
             | Some r \<Rightarrow>
                 if node_name r \<noteq> ''cirevlookupsources'' then Some (3, sources)
                 else do { ss \<leftarrow> load_sources (children r) sources; Some (0, rev ss) }))"

section \<open>Start and end\<close>

text \<open>\<open>g_slist_remove\<close> of the data of the first node, after the data has been freed, until none is left.\<close>

function free_list :: "'a list \<Rightarrow> 'a list" where
  "free_list [] = []"
| "free_list (x # xs) = free_list (remove1 x (x # xs))"
  by pat_completeness auto

termination
  by (relation "measure length") auto

record lookup_state =
  lk_cache :: cache_handles
  lk_curl :: "unit owned"
  lk_sources :: "CIRLSource list"

definition no_lookup :: lookup_state where
  "no_lookup = \<lparr>lk_cache = no_cache, lk_curl = Null, lk_sources = []\<rparr>"

definition cirlw_init :: "bool \<Rightarrow> lookup_state \<Rightarrow> int \<times> lookup_state" where
  "cirlw_init ok k = (if ok then (0, k\<lparr>lk_curl := Owned ()\<rparr>) else (1, k\<lparr>lk_curl := Null\<rparr>))"

definition free_pattern :: "CIRLPattern \<Rightarrow> CIRLPattern" where
  "free_pattern p = p\<lparr>pattern_fields := free_list (pattern_fields p)\<rparr>"

definition free_source :: "CIRLSource \<Rightarrow> CIRLSource" where
  "free_source s = s\<lparr>patterns := free_list (map free_pattern (patterns s))\<rparr>"

definition cirlw_cleanup :: "lookup_state \<Rightarrow> lookup_state option" where
  "cirlw_cleanup k = do {
     c \<leftarrow> (if lk_curl k \<noteq> Null then do { _ \<leftarrow> release (lk_curl k); Some Null } else Some (lk_curl k));
     Some (k\<lparr>lk_curl := c, lk_sources := free_list (map free_source (lk_sources k))\<rparr>) }"

definition lookup_init ::
  "sqlite_answers \<Rightarrow> bool \<Rightarrow> xml_node option option \<Rightarrow> lookup_state \<Rightarrow> (int \<times> lookup_state) option" where
  "lookup_init A curl_ok doc k =
     (let ret = (if cidb_init \<noteq> 0 then 1 else 0);
          (rc, k) = cirlw_init curl_ok k;
          ret = (if rc \<noteq> 0 then 1 else ret)
      in if ret = (0 :: int) then do {
           (rc, h) \<leftarrow> cidb_connect A (lk_cache k);
           let k = k\<lparr>lk_cache := h\<rparr>; ret = (if rc \<noteq> 0 then 1 else ret) in do {
           (rc, ss) \<leftarrow> cirlw_load_sources_from_file doc (lk_sources k);
           Some (if rc \<noteq> 0 then 1 else ret, k\<lparr>lk_sources := ss\<rparr>) } }
         else Some (ret, k))"

definition lookup_cleanup :: "lookup_state \<Rightarrow> lookup_state option" where
  "lookup_cleanup k = do {
     h \<leftarrow> cidb_cleanup (lk_cache k);
     cirlw_cleanup (k\<lparr>lk_cache := h\<rparr>) }"

section \<open>What a file of sources says\<close>

text \<open>The elements of a name, and the last of their contents.\<close>

definition elements :: "string \<Rightarrow> xml_node \<Rightarrow> xml_node list" where
  "elements nm n = filter (named nm) (children n)"

definition last_content :: "xml_node list \<Rightarrow> string option" where
  "last_content ns = (let ts = filter (\<lambda>t. t \<noteq> None) (map content ns) in if ts = [] then None else last ts)"

definition field_named :: "string option \<Rightarrow> 64 word" where
  "field_named t = (case Option.bind t (map_of
     [(''FIELD_NAME'', 1), (''FIELD_POSTALCODE'', 2), (''FIELD_CITY'', 4), (''FIELD_STREET'', 8)])
     of None \<Rightarrow> 0 | Some w \<Rightarrow> w)"

definition pos_of :: "xml_node \<Rightarrow> int" where
  "pos_of n = (case xml_prop n ''pos'' of None \<Rightarrow> 0 | Some s \<Rightarrow> the (atoi s))"

definition field_of :: "xml_node \<Rightarrow> CIRLPatternField" where
  "field_of n = \<lparr>position = pos_of n, field = field_named (content n)\<rparr>"

definition pattern_of :: "xml_node \<Rightarrow> CIRLPattern" where
  "pattern_of n = \<lparr>pattern_fields = map field_of (elements ''field'' n), expression = xml_prop n ''expression''\<rparr>"

definition id_of :: "xml_node \<Rightarrow> 64 word" where
  "id_of n = (case xml_prop n ''id'' of None \<Rightarrow> 0 | Some t \<Rightarrow> strtoul t)"

definition split_of :: "xml_node list \<Rightarrow> bool" where
  "split_of qs \<longleftrightarrow> qs \<noteq> [] \<and> xml_prop (last qs) ''linehandling'' \<noteq> Some ''nosplit''"

definition source_of :: "xml_node \<Rightarrow> CIRLSource" where
  "source_of n = \<lparr>source_id = id_of n, description = last_content (elements ''description'' n),
     query = last_content (elements ''query'' n), split_lines = split_of (elements ''query'' n),
     patterns = map pattern_of (elements ''pattern'' n)\<rparr>"

text \<open>\<open>atoi\<close> has a value for the positions of all fields.\<close>

definition pattern_positions_ok :: "xml_node \<Rightarrow> bool" where
  "pattern_positions_ok p \<longleftrightarrow>
     list_all (\<lambda>f. case xml_prop f ''pos'' of None \<Rightarrow> True | Some s \<Rightarrow> atoi s \<noteq> None) (elements ''field'' p)"

definition positions_ok :: "xml_node \<Rightarrow> bool" where
  "positions_ok r \<longleftrightarrow> list_all (\<lambda>s. list_all pattern_positions_ok (elements ''pattern'' s)) (elements ''source'' r)"

lemma field_named_code:
  "(case t of None \<Rightarrow> 0 | Some t \<Rightarrow>
      if t = ''FIELD_NAME'' then CI_FIELD_NAME
      else if t = ''FIELD_POSTALCODE'' then CI_FIELD_POSTALCODE
      else if t = ''FIELD_CITY'' then CI_FIELD_CITY
      else if t = ''FIELD_STREET'' then CI_FIELD_STREET
      else 0) = field_named t"
  by (cases t) (simp_all add: field_named_def)

lemma load_field_of:
  "(case xml_prop f ''pos'' of None \<Rightarrow> True | Some s \<Rightarrow> atoi s \<noteq> None) \<Longrightarrow> load_field f = Some (field_of f)"
  unfolding load_field_def field_of_def pos_of_def field_named_code by (cases "xml_prop f ''pos''") auto

lemma load_fields_of:
  "list_all (\<lambda>f. case xml_prop f ''pos'' of None \<Rightarrow> True | Some s \<Rightarrow> atoi s \<noteq> None) (filter (named ''field'') ns) \<Longrightarrow>
     load_fields ns fs = Some (rev (map field_of (filter (named ''field'') ns)) @ fs)"
  by (induction ns arbitrary: fs) (auto simp: load_field_of split: if_splits)

lemma load_pattern_of: "pattern_positions_ok n \<Longrightarrow> load_pattern n = Some (pattern_of n)"
  by (simp add: load_pattern_def pattern_of_def load_fields_of pattern_positions_ok_def elements_def)

text \<open>The parts of a source are collected in its fields, each name in a field of its own.\<close>

lemma named_unique: "named a n \<Longrightarrow> named b n \<longleftrightarrow> a = b"
  by (auto simp: named_def)

lemma last_content_Cons:
  "last_content (n # ns) = (case last_content ns of None \<Rightarrow> content n | Some t \<Rightarrow> Some t)"
proof -
  let ?ts = "filter (\<lambda>t. t \<noteq> None) (map content ns)"
  have "?ts \<noteq> [] \<Longrightarrow> last ?ts \<noteq> None" using last_in_set[of ?ts] by auto
  then show ?thesis
    unfolding last_content_def Let_def by (cases "?ts = []"; cases "content n"; cases "last ?ts") simp_all
qed

definition or_else :: "'a option \<Rightarrow> 'a option \<Rightarrow> 'a option" where
  "or_else x y = (case x of None \<Rightarrow> y | Some t \<Rightarrow> Some t)"

lemma load_parts_of:
  "list_all pattern_positions_ok (filter (named ''pattern'') ns) \<Longrightarrow>
   load_parts ns s = Some (s\<lparr>
     description := or_else (last_content (filter (named ''description'') ns)) (description s),
     query := or_else (last_content (filter (named ''query'') ns)) (query s),
     split_lines := (if filter (named ''query'') ns = [] then split_lines s else split_of (filter (named ''query'') ns)),
     patterns := rev (map pattern_of (filter (named ''pattern'') ns)) @ patterns s\<rparr>)"
proof (induction ns s rule: load_parts.induct)
  case (1 s)
  then show ?case by (simp add: last_content_def or_else_def)
next
  case (2 n ns s)
  consider "named ''description'' n" | "named ''query'' n" | "named ''pattern'' n"
    | "\<not> named ''description'' n" "\<not> named ''query'' n" "\<not> named ''pattern'' n" by blast
  then show ?case
  proof cases
    case 1
    then show ?thesis
      using 2 by (auto simp: named_unique[OF 1] or_else_def last_content_Cons split: option.splits)
  next
    case c: 2
    then show ?thesis
      using 2 by (auto simp: named_unique[OF c] or_else_def last_content_Cons load_query_def split_of_def Let_def split: option.splits)
  next
    case 3
    then show ?thesis using 2 by (simp add: named_unique[OF 3] load_pattern_of)
  next
    case 4
    then show ?thesis using 2 by simp
  qed
qed

lemma load_source_of:
  "list_all pattern_positions_ok (elements ''pattern'' n) \<Longrightarrow> load_source n = Some (source_of n)"
  by (auto simp: load_source_def load_parts_of source_of_def elements_def id_of_def zero_source_def
      or_else_def split_of_def Let_def split: option.splits)

lemma load_sources_of:
  "list_all (\<lambda>s. list_all pattern_positions_ok (elements ''pattern'' s)) (filter (named ''source'') ns) \<Longrightarrow>
   load_sources ns ss = Some (rev (map source_of (filter (named ''source'') ns)) @ ss)"
  by (induction ns arbitrary: ss) (auto simp: load_source_of split: if_splits)

lemma load_file_of:
  assumes "node_name r = ''cirevlookupsources''" and "positions_ok r"
  shows "cirlw_load_sources_from_file (Some (Some r)) [] = Some (0, map source_of (elements ''source'' r))"
  using assms load_sources_of[of "children r" "[]"]
  by (simp add: cirlw_load_sources_from_file_def positions_ok_def elements_def)

lemma find_source_of:
  "cirlw_find_source (map source_of ns) sid = map_option source_of (find (\<lambda>n. id_of n = sid) ns)"
  by (induction ns) (simp_all add: source_of_def)

lemma free_list_Nil [simp]: "free_list xs = []"
  by (induction xs rule: free_list.induct) simp_all

text \<open>The cache can be used: nothing failed in \<open>cidb_connect\<close>.\<close>

definition opens_cache :: "sqlite_answers \<Rightarrow> bool" where
  "opens_cache A \<longleftrightarrow> sq_open A = 0 \<and> sq_exec A 0 = 0 \<and> sq_prepare A 0 = 0"

lemma connect_no_cache:
  "cidb_connect A no_cache =
     Some (if opens_cache A then (0, \<lparr>ch_db = connection A, ch_stmt = Owned ()\<rparr>)
           else (1, \<lparr>ch_db = (if sq_handle A then Freed else Null), ch_stmt = Null\<rparr>))"
  by (auto simp: cidb_connect_def no_cache_def connection_def prepared_def opens_cache_def Let_def)

definition lookup_gone :: "lookup_state \<Rightarrow> bool" where
  "lookup_gone k \<longleftrightarrow> gone (ch_db (lk_cache k)) \<and> gone (ch_stmt (lk_cache k)) \<and> lk_curl k = Null \<and> lk_sources k = []"

lemma lookup_cleanup_cases:
  assumes "lk_curl k \<noteq> Freed"
  shows "case lookup_cleanup k of
      None \<Rightarrow> ch_stmt (lk_cache k) = Freed \<or> ch_db (lk_cache k) = Freed
    | Some k' \<Rightarrow> ch_stmt (lk_cache k) \<noteq> Freed \<and> ch_db (lk_cache k) \<noteq> Freed \<and> lookup_gone k'"
proof (cases "cidb_cleanup (lk_cache k)")
  case None
  then show ?thesis using cidb_cleanup_iff[of "lk_cache k"] by (simp add: lookup_cleanup_def)
next
  case (Some h)
  then have "\<not> (ch_stmt (lk_cache k) = Freed \<or> ch_db (lk_cache k) = Freed)" "gone (ch_stmt h)" "gone (ch_db h)"
    using cidb_cleanup_iff[of "lk_cache k"] cidb_cleanup_gone[OF Some] by simp_all
  then show ?thesis
    using assms Some by (cases "lk_curl k") (simp_all add: lookup_cleanup_def cirlw_cleanup_def lookup_gone_def)
qed

lemma load_sources_returns:
  assumes "cirlw_load_sources_from_file doc [] = Some (rc, ss)"
  shows "rc = 0 \<or> ss = []"
  using assms by (auto simp: cirlw_load_sources_from_file_def bind_eq_Some_conv split: option.splits if_splits)

text \<open>What the start of the lookup leaves behind.\<close>

lemma lookup_init_result:
  assumes "lookup_init A curl_ok doc no_lookup = Some (rc, k)"
  shows "lk_curl k = (if curl_ok then Owned () else Null)"
    and "lk_cache k = (if curl_ok then snd (the (cidb_connect A no_cache)) else no_cache)"
    and "rc = 0 \<or> rc = 1"
    and "curl_ok \<and> \<not> opens_cache A \<Longrightarrow> rc = 1"
  using assms
  by (auto simp: lookup_init_def cirlw_init_def cidb_init_def no_lookup_def connect_no_cache bind_eq_Some_conv Let_def
      split: if_splits)

lemma lookup_init_cleanup:
  assumes "lookup_init A curl_ok doc no_lookup = Some (rc, k)"
  shows "if curl_ok \<and> sq_handle A \<and> \<not> opens_cache A then rc = 1 \<and> lookup_cleanup k = None
    else \<exists>k'. lookup_cleanup k = Some k' \<and> lookup_gone k'"
proof -
  note r = lookup_init_result[OF assms]
  have c: "lk_curl k \<noteq> Freed" by (simp add: r(1))
  have f: "ch_stmt (lk_cache k) = Freed \<or> ch_db (lk_cache k) = Freed \<longleftrightarrow> curl_ok \<and> sq_handle A \<and> \<not> opens_cache A"
    unfolding r(2) connect_no_cache by (simp add: no_cache_def connection_def)
  show ?thesis
    using lookup_cleanup_cases[OF c] f r(4) by (cases "lookup_cleanup k") auto
qed

section \<open>Properties\<close>

text \<open>
  C16: Loading a file of sources gives its source elements in the order of the file, each with
  its patterns and their fields in order, so the source of an id is the first element with it.
  A second load changes nothing and returns 1, if there are sources.
\<close>

theorem sources_loaded:
  assumes "node_name r = ''cirevlookupsources''" and "positions_ok r"
  shows "\<exists>ss. cirlw_load_sources_from_file (Some (Some r)) [] = Some (0, ss) \<and>
    ss = map source_of (elements ''source'' r) \<and>
    (\<lambda>sid. cirlw_find_source ss sid) = (\<lambda>sid. map_option source_of (find (\<lambda>n. id_of n = sid) (elements ''source'' r))) \<and>
    cirlw_load_sources_from_file doc ss = (if ss = [] then cirlw_load_sources_from_file doc [] else Some (1, ss))"
  using load_file_of[OF assms]
  by (intro exI[of _ "map source_of (elements ''source'' r)"])
     (simp add: find_source_of, simp add: cirlw_load_sources_from_file_def)

text \<open>A part of the file the program is shipped with.\<close>

definition text_node :: "string \<Rightarrow> xml_node" where
  "text_node t = XmlNode False ''text'' [] (Some t) []"

definition shipped_source :: xml_node where
  "shipped_source = XmlNode True ''source'' [(''id'', ''2'')] None
     [text_node [LF],
      XmlNode True ''query'' [(''linehandling'', ''split'')] (Some ''http://example.org/?ph=%NUMBER%'') [],
      XmlNode True ''pattern'' [(''expression'', ''na:(.+)'')] None
        [XmlNode True ''field'' [(''pos'', ''1'')] (Some ''FIELD_NAME'') []],
      XmlNode True ''pattern'' [(''expression'', ''ci:(.+)'')] None
        [XmlNode True ''field'' [(''pos'', ''1'')] (Some ''FIELD_CITY'') []]]"

definition shipped_sources :: xml_node where
  "shipped_sources = XmlNode True ''cirevlookupsources'' [] None [text_node [LF], shipped_source]"

lemma read_digit: "atoi ''1'' = Some 1" "strtoul ''2'' = 2"
  by (simp_all add: atoi_def strtoul_def read_number_def c_space_def num_of_def dig_def Let_def)

lemma shipped_elements:
  "elements ''source'' shipped_sources = [shipped_source]" "positions_ok shipped_sources" "id_of shipped_source = 2"
  by (simp_all add: elements_def shipped_sources_def text_node_def named_def positions_ok_def pattern_positions_ok_def
      shipped_source_def xml_prop_def id_of_def read_digit)

theorem sources_loaded_witness:
  "\<exists>ss. cirlw_load_sources_from_file (Some (Some shipped_sources)) [] = Some (0, ss) \<and>
    map_option patterns (cirlw_find_source ss 2) = Some
      [\<lparr>pattern_fields = [\<lparr>position = 1, field = CI_FIELD_NAME\<rparr>], expression = Some ''na:(.+)''\<rparr>,
       \<lparr>pattern_fields = [\<lparr>position = 1, field = CI_FIELD_CITY\<rparr>], expression = Some ''ci:(.+)''\<rparr>]"
proof -
  have "node_name shipped_sources = ''cirevlookupsources''" by (simp add: shipped_sources_def)
  from sources_loaded[OF this shipped_elements(2)] obtain ss
    where ss: "cirlw_load_sources_from_file (Some (Some shipped_sources)) [] = Some (0, ss)"
      "cirlw_find_source ss 2 = Some (source_of shipped_source)"
    by (auto simp: shipped_elements find_source_of)
  have "patterns (source_of shipped_source) =
      [\<lparr>pattern_fields = [\<lparr>position = 1, field = CI_FIELD_NAME\<rparr>], expression = Some ''na:(.+)''\<rparr>,
       \<lparr>pattern_fields = [\<lparr>position = 1, field = CI_FIELD_CITY\<rparr>], expression = Some ''ci:(.+)''\<rparr>]"
    by (simp add: source_of_def elements_def shipped_source_def text_node_def named_def pattern_of_def field_of_def
        pos_of_def xml_prop_def read_digit field_named_def)
  then show ?thesis using ss by simp
qed

text \<open>
  C25: When the cache cannot be opened although SQLite has made a connection, the start of the
  lookup fails with the connection closed and still in \<open>_cidb_db\<close>, and the clean-up that main
  calls then closes it a second time. In all other cases the clean-up releases everything once.
\<close>

theorem failed_cache_closed_twice:
  assumes "lookup_init A curl_ok doc no_lookup = Some (rc, k)"
  shows "if curl_ok \<and> sq_handle A \<and> \<not> opens_cache A then rc = 1 \<and> lookup_cleanup k = None
    else \<exists>k'. lookup_cleanup k = Some k' \<and> lookup_gone k'"
  by (rule lookup_init_cleanup[OF assms])

text \<open>A cache file in a directory that does not exist.\<close>

definition cannot_open :: sqlite_answers where
  "cannot_open = \<lparr>sq_open = 14, sq_handle = True, sq_exec = (\<lambda>i. 0), sq_prepare = (\<lambda>i. 0)\<rparr>"

theorem failed_cache_closed_twice_witness:
  "\<exists>rc k. lookup_init cannot_open True None no_lookup = Some (rc, k) \<and> rc = 1 \<and> lookup_cleanup k = None"
proof -
  have "lookup_init cannot_open True None no_lookup =
    Some (1, \<lparr>lk_cache = \<lparr>ch_db = Freed, ch_stmt = Null\<rparr>, lk_curl = Owned (), lk_sources = []\<rparr>)"
    by (simp add: lookup_init_def cirlw_init_def cidb_init_def no_lookup_def connect_no_cache opens_cache_def
        cannot_open_def cirlw_load_sources_from_file_def)
  from failed_cache_closed_twice[OF this] this show ?thesis by (simp add: cannot_open_def opens_cache_def)
qed

end
