(* ===== verification/Daemon.thy ===== *)
theory Daemon
  imports Notification
begin

text \<open>
  \<open>daemon.c\<close>: the process id of a daemon is kept in a file, by which a second start finds out
  whether the program is still running: the kernel shows the name of process N in
  /proc/N/comm. The file is written by the parent and removed by the child, in any order.
\<close>

section \<open>Files\<close>

text \<open>
  The content of each file, and which files may be opened for reading or writing:
  \<open>access(path, F_OK)\<close> only asks whether the file is there.
\<close>

type_synonym files = "string \<Rightarrow> string option"

record permissions =
  may_read :: "string \<Rightarrow> bool"
  may_write :: "string \<Rightarrow> bool"

definition fopen_r :: "permissions \<Rightarrow> files \<Rightarrow> string \<Rightarrow> stream option" where
  "fopen_r P fs path =
     (case fs path of None \<Rightarrow> None | Some t \<Rightarrow> if may_read P path then Some (open_at t 0) else None)"

definition comm_path :: "64 word \<Rightarrow> string" where
  "comm_path pid = ''/proc/'' @ dec (unat pid) @ ''/comm''"

section \<open>Operations\<close>

text \<open>
  \<open>fgets\<close> into an array: nothing is written when there is nothing to read. The first call finds
  the array uninitialised, so then there is no string in it.
\<close>

definition fgets_into :: "char list \<Rightarrow> stream \<Rightarrow> char list option" where
  "fgets_into b f = (case fst (fgets (length b) f) of None \<Rightarrow> Some b | Some l \<Rightarrow> put b 0 (l @ [NUL]))"

definition read_comm :: "permissions \<Rightarrow> files \<Rightarrow> string \<Rightarrow> char list \<Rightarrow> int option" where
  "read_comm P fs comm b = do {
     path \<leftarrow> cstr b;
     if fs path = None then Some (- 1)
     else (case fopen_r P fs path of
         None \<Rightarrow> Some (- 1)
       | Some f \<Rightarrow> do {
           b \<leftarrow> fgets_into b f;
           t \<leftarrow> cstr b;
           if t = [] then Some (- 1)
           else do {
             b \<leftarrow> (if last t = LF then wr b (length t - 1) NUL else Some b);
             t \<leftarrow> cstr b;
             Some (if t = comm then 0 else - 1) } }) }"

definition check_process_running :: "permissions \<Rightarrow> files \<Rightarrow> string \<Rightarrow> string \<Rightarrow> int option" where
  "check_process_running P fs comm pidfile =
     (case fopen_r P fs pidfile of
        None \<Rightarrow> Some (- 1)
      | Some f \<Rightarrow>
          (case fst (fgets 256 f) of
             None \<Rightarrow> None
           | Some l \<Rightarrow> do {
               b \<leftarrow> put (replicate 256 NUL) 0 (l @ [NUL]);
               t \<leftarrow> cstr b;
               if strtoul t = 0 then Some (- 1)
               else do {
                 b \<leftarrow> strcpy b (comm_path (strtoul t));
                 read_comm P fs comm b } }))"

text \<open>The static variables \<open>_daemon_pid\<close> and \<open>_pid_file\<close>.\<close>

record daemon =
  daemon_pid :: int
  pid_file :: "string option"

definition no_daemon :: daemon where
  "no_daemon = \<lparr>daemon_pid = - 1, pid_file = None\<rparr>"

text \<open>What the parent does after \<open>fork\<close>, beside the child.\<close>

definition write_pid :: "permissions \<Rightarrow> string \<Rightarrow> int \<Rightarrow> files \<Rightarrow> files" where
  "write_pid P pidfile pid fs = (if may_write P pidfile then fs(pidfile \<mapsto> dec (nat pid)) else fs)"

text \<open>\<open>pid\<close> is the result of \<open>fork\<close>: -1, 0 in the child, or the process id of the child.\<close>

definition start_daemon ::
  "permissions \<Rightarrow> string \<Rightarrow> string option \<Rightarrow> int \<Rightarrow> daemon \<Rightarrow> files \<Rightarrow> (int \<times> daemon \<times> files) option" where
  "start_daemon P comm pidfile pid d fs =
     (case pidfile of
        None \<Rightarrow> Some (- 1, d, fs)
      | Some p \<Rightarrow>
          if p = [] then Some (- 1, d, fs)
          else let d = d\<lparr>pid_file := Some p\<rparr> in do {
            running \<leftarrow> (if fs p \<noteq> None then check_process_running P fs comm p else Some (- 1));
            if running = 0 then Some (- 1, d, fs)
            else Some (pid, d\<lparr>daemon_pid := pid\<rparr>,
                  if pid \<noteq> - 1 \<and> pid \<noteq> 0 then write_pid P p pid fs else fs) })"

definition stop_daemon :: "daemon \<Rightarrow> files \<Rightarrow> int \<times> daemon \<times> files" where
  "stop_daemon d fs =
     (case pid_file d of
        Some (c # p) \<Rightarrow> (0, d\<lparr>pid_file := None\<rparr>, fs(c # p := None))
      | _ \<Rightarrow> (0, d, fs))"

section \<open>Lemmas\<close>

lemma dec_plain: "NUL \<notin> set (dec n)" "LF \<notin> set (dec n)"
  using dec_digits[of n] by auto

lemma comm_path_plain: "NUL \<notin> set (comm_path pid)"
  using dec_plain by (simp add: comm_path_def)

lemma comm_path_length: "length (comm_path pid) < 256"
proof -
  have "unat pid < 2 ^ LENGTH(64)" by (rule unsigned_less)
  then have "unat pid < 10 ^ 20" by simp
  then have "length (dec (unat pid)) \<le> 20" by (rule length_dec) simp
  then show ?thesis by (simp add: comm_path_def)
qed

lemma take_line_all: "LF \<notin> set s \<Longrightarrow> length s \<le> k \<Longrightarrow> take_line k s = s"
  by (induction k s rule: take_line.induct) auto

lemma fgets_text:
  "LF \<notin> set s \<Longrightarrow> s \<noteq> [] \<Longrightarrow> length s < n \<Longrightarrow> fst (fgets n (open_at s 0)) = Some s"
  "LF \<notin> set s \<Longrightarrow> length s < n - 1 \<Longrightarrow> fst (fgets n (open_at (s @ [LF]) 0)) = Some (s @ [LF])"
  using take_line_whole[of s "n - 1" "[]"] by (simp_all add: fgets_def open_at_def take_line_all Let_def)

text \<open>A kernel name: not empty, at most 15 characters, no slash (it is the last part of a path).\<close>

definition comm_ok :: "string \<Rightarrow> bool" where
  "comm_ok t \<longleftrightarrow> t \<noteq> [] \<and> length t < 16 \<and> NUL \<notin> set t \<and> LF \<notin> set t \<and> CHR ''/'' \<notin> set t"

text \<open>What /proc shows of a process id: the name of the process, if there is one.\<close>

definition shows_comm :: "permissions \<Rightarrow> files \<Rightarrow> 64 word \<Rightarrow> string option \<Rightarrow> bool" where
  "shows_comm P fs pid nm \<longleftrightarrow>
     (case nm of None \<Rightarrow> fs (comm_path pid) = None
      | Some t \<Rightarrow> comm_ok t \<and> fs (comm_path pid) = Some (t @ [LF]) \<and> may_read P (comm_path pid))"

lemma read_comm_shown:
  assumes "shows_comm P fs pid nm" and "cstr b = Some (comm_path pid)" and "length b = 256"
  shows "read_comm P fs comm b = Some (if nm = Some comm then 0 else - 1)"
proof (cases nm)
  case None
  then show ?thesis using assms by (simp add: read_comm_def shows_comm_def)
next
  case (Some t)
  then have t: "comm_ok t" "fs (comm_path pid) = Some (t @ [LF])" "may_read P (comm_path pid)"
    using assms(1) by (simp_all add: shows_comm_def)
  have l: "t \<noteq> []" "length t < 16" "NUL \<notin> set t" "LF \<notin> set t" using t(1) by (simp_all add: comm_ok_def)
  define r where "r = drop (length t + 2) b"
  have p: "put b 0 ((t @ [LF]) @ [NUL]) = Some (t @ LF # NUL # r)"
    using l assms(3) by (simp add: put_def r_def)
  have w: "wr (t @ LF # NUL # r) (length t) NUL = Some (t @ NUL # NUL # r)"
    by (simp add: wr_def list_update_append)
  have c: "cstr (t @ LF # NUL # r) = Some (t @ [LF])" using cstr_string[of "t @ [LF]" r] l by simp
  have g: "fst (fgets 256 (open_at (t @ [LF]) 0)) = Some (t @ [LF])" using l by (intro fgets_text) simp_all
  have f: "fgets_into b (open_at (t @ [LF]) 0) = Some (t @ LF # NUL # r)"
    using g p by (simp add: fgets_into_def assms(3))
  show ?thesis
    using t(2,3) Some l by (simp add: read_comm_def assms(2) fopen_r_def f c w)
qed

lemma check_pid:
  assumes "fs p = Some (dec n)" and "may_read P p" and "0 < n" and "n < 2 ^ 64"
    and "shows_comm P fs (of_nat n) nm"
  shows "check_process_running P fs comm p = Some (if nm = Some comm then 0 else - 1)"
proof -
  have n20: "length (dec n) \<le> 20" using assms(4) by (intro length_dec) simp_all
  have l: "fst (fgets 256 (open_at (dec n) 0)) = Some (dec n)"
    using n20 dec_plain dec_ne by (intro fgets_text) simp_all
  define b where "b = dec n @ NUL # replicate (255 - length (dec n)) NUL"
  have b: "put (replicate 256 NUL) 0 (dec n @ [NUL]) = Some b" "length b = 256" "cstr b = Some (dec n)"
    using n20 dec_plain(1)[of n] by (simp_all add: put_def b_def)
  have w: "strtoul (dec n) = of_nat n" using assms(4) by (rule strtoul_dec)
  have nz: "(of_nat n :: 64 word) \<noteq> 0" using assms(3,4) by (simp add: word_of_nat_eq_0_iff nat_dvd_not_less)
  obtain c where c: "strcpy b (comm_path (of_nat n)) = Some c" "length c = length b"
    using strcpy_fits comm_path_length b(2) by metis
  have "cstr c = Some (comm_path (of_nat n))" using c(1) comm_path_plain by (rule cstr_strcpy)
  then have "read_comm P fs comm c = Some (if nm = Some comm then 0 else - 1)"
    using read_comm_shown assms(5) c(2) b(2) by simp
  then show ?thesis
    using assms(1,2) by (simp add: check_process_running_def fopen_r_def l b w nz c)
qed

section \<open>Properties\<close>

text \<open>
  C20: A daemon started with a pid file guards it: a second start with the file is refused when
  the process of the id in it shows exactly the name the second one was called with. It forks
  when there is no such process, when it has another name, and so also when the second one is
  called by a path, for a kernel name has no slash.
\<close>

theorem daemon_guard:
  assumes "start_daemon P comm (Some p) pid d fs = Some (pid, d1, fs1)"
    and "0 < pid" and "pid < 2 ^ 31" and "may_write P p" and "may_read P p"
    and "fs2 p = fs1 p" and "shows_comm P fs2 (of_int pid) nm"
  shows "start_daemon P comm2 (Some p) pid2 d2 fs2 =
      (let d3 = d2\<lparr>pid_file := Some p\<rparr> in
       if nm = Some comm2 \<and> CHR ''/'' \<notin> set comm2 then Some (- 1, d3, fs2)
       else Some (pid2, d3\<lparr>daemon_pid := pid2\<rparr>,
              if pid2 \<noteq> - 1 \<and> pid2 \<noteq> 0 then fs2(p \<mapsto> dec (nat pid2)) else fs2))"
proof -
  have p: "p \<noteq> []" "fs1 p = Some (dec (nat pid))"
    using assms(1-4) by (auto simp: start_daemon_def write_pid_def Let_def bind_eq_Some_conv split: if_splits)
  have c: "check_process_running P fs2 comm2 p = Some (if nm = Some comm2 then 0 else - 1)"
    using assms p by (intro check_pid[where n = "nat pid"]) simp_all
  have "nm = Some comm2 \<longleftrightarrow> nm = Some comm2 \<and> CHR ''/'' \<notin> set comm2"
    using assms(7) by (auto simp: shows_comm_def comm_ok_def split: option.splits)
  then show ?thesis
    using p assms(4,6) c by (simp add: start_daemon_def Let_def write_pid_def)
qed

text \<open>A second start by name is refused, and one by path is not.\<close>

definition sample_permissions :: permissions where
  "sample_permissions = \<lparr>may_read = (\<lambda>f. True), may_write = (\<lambda>f. True)\<rparr>"

definition sample_files :: files where
  "sample_files = [''/run/f.pid'' \<mapsto> ''42'', ''/proc/42/comm'' \<mapsto> ''fritz2cid'' @ [LF]]"

lemma dec_42: "dec 42 = ''42''"
  by (subst dec.simps, subst dec.simps) (simp add: digit_char_def)

theorem daemon_guard_witness:
  "start_daemon sample_permissions ''fritz2cid'' (Some ''/run/f.pid'') 43 no_daemon sample_files =
      Some (- 1, no_daemon\<lparr>pid_file := Some ''/run/f.pid''\<rparr>, sample_files) \<and>
   fst (the (start_daemon sample_permissions ''./fritz2cid'' (Some ''/run/f.pid'') 43 no_daemon sample_files)) = 43"
proof -
  have start: "start_daemon sample_permissions ''fritz2cid'' (Some ''/run/f.pid'') 42 no_daemon Map.empty =
    Some (42, no_daemon\<lparr>pid_file := Some ''/run/f.pid'', daemon_pid := 42\<rparr>, [''/run/f.pid'' \<mapsto> ''42''])"
    by (simp add: start_daemon_def write_pid_def sample_permissions_def dec_42 Let_def)
  have shown: "shows_comm sample_permissions sample_files (of_int 42) (Some ''fritz2cid'')"
    by (simp add: shows_comm_def comm_ok_def sample_files_def comm_path_def dec_42 sample_permissions_def)
  have other: "may_write sample_permissions ''/run/f.pid''" "may_read sample_permissions ''/run/f.pid''"
    "sample_files ''/run/f.pid'' = [''/run/f.pid'' \<mapsto> ''42''] ''/run/f.pid''"
    by (simp_all add: sample_permissions_def sample_files_def)
  note guard = daemon_guard[OF start _ _ other shown]
  show ?thesis
    using guard[of "''fritz2cid''" 43 no_daemon] guard[of "''./fritz2cid''" 43 no_daemon] by (simp add: Let_def)
qed

text \<open>
  The parent writes the pid file while the child already runs. When the child ends after
  that, the file is gone; when it ends before, the file stays with the id of a process that has
  ended. No other file changes in either order, and the child has no file left to remove.
\<close>

theorem pid_file_order:
  assumes "start_daemon P comm (Some p) 0 d fs = Some (0, d1, fs1)" and "may_write P p"
  shows "fs1 = fs \<and> pid_file (fst (snd (stop_daemon d1 fs))) = None \<and>
    snd (snd (stop_daemon d1 (write_pid P p pid fs))) = fs(p := None) \<and>
    write_pid P p pid (snd (snd (stop_daemon d1 fs))) = fs(p \<mapsto> dec (nat pid))"
proof -
  have "p \<noteq> []" "d1 = d\<lparr>pid_file := Some p, daemon_pid := 0\<rparr>" "fs1 = fs"
    using assms(1) by (auto simp: start_daemon_def Let_def bind_eq_Some_conv split: if_splits)
  then show ?thesis
    using assms(2) by (cases p) (simp_all add: stop_daemon_def write_pid_def fun_upd_def fun_eq_iff)
qed

theorem pid_file_order_witness:
  "snd (snd (stop_daemon (no_daemon\<lparr>pid_file := Some ''f.pid'', daemon_pid := 0\<rparr>)
      (write_pid sample_permissions ''f.pid'' 42 Map.empty))) = Map.empty"
proof -
  have "start_daemon sample_permissions ''fritz2cid'' (Some ''f.pid'') 0 no_daemon Map.empty =
    Some (0, no_daemon\<lparr>pid_file := Some ''f.pid'', daemon_pid := 0\<rparr>, Map.empty)"
    by (simp add: start_daemon_def Let_def)
  from pid_file_order[OF this] show ?thesis by (simp add: sample_permissions_def)
qed

end
