(* ===== verification/Msn.thy ===== *)
theory Msn
  imports CText
begin

text \<open>
  The aliases of the own telephone numbers, \<open>msn_lookup.c\<close>: a file of lines with a number and
  a name is read into a list of records with two fixed arrays, and a lookup compares the
  numbers in order. The lemmas relate the list to the lines of the file and show what a line
  needs to fit its arrays.
\<close>

section \<open>State and operations\<close>

abbreviation MSNL_MSN_SIZE :: nat where "MSNL_MSN_SIZE \<equiv> 32"
abbreviation MSNL_ALIAS_SIZE :: nat where "MSNL_ALIAS_SIZE \<equiv> 256"

record MSN_Lookup =
  msn :: "char list"
  msn_alias :: "char list"

definition blank_entry :: MSN_Lookup where
  "blank_entry = \<lparr>msn = replicate MSNL_MSN_SIZE NUL, msn_alias = replicate MSNL_ALIAS_SIZE NUL\<rparr>"

abbreviation blank :: "char \<Rightarrow> bool" where "blank c \<equiv> c = CHR '' '' \<or> c = TAB"

definition read_line :: "char list option \<Rightarrow> MSN_Lookup option \<Rightarrow> MSN_Lookup option option" where
  "read_line buffer dat =
    (case dat of None \<Rightarrow> Some None | Some e \<Rightarrow> do {
       m \<leftarrow> wr (msn e) 0 NUL;
       a \<leftarrow> wr (msn_alias e) 0 NUL;
       (case buffer of None \<Rightarrow> Some (Some (e\<lparr>msn := m, msn_alias := a\<rparr>)) | Some b \<Rightarrow> do {
         i \<leftarrow> scan blank b 0;
         (m, i, j) \<leftarrow> copy_upto MSNL_MSN_SIZE (\<lambda>c. \<not> blank c \<and> c \<noteq> NUL \<and> c \<noteq> LF) b i m 0;
         m \<leftarrow> wr m j NUL;
         i \<leftarrow> scan blank b i;
         (a, i, j) \<leftarrow> copy_upto MSNL_ALIAS_SIZE (\<lambda>c. c \<noteq> NUL \<and> c \<noteq> LF) b i a 0;
         a \<leftarrow> wr a j NUL;
         Some (Some (e\<lparr>msn := m, msn_alias := a\<rparr>)) }) })"

text \<open>The list is \<open>_msn_list\<close>; the result is the return value and the new list.\<close>

definition msnl_read_file ::
  "(string \<Rightarrow> string option) \<Rightarrow> string \<Rightarrow> MSN_Lookup list \<Rightarrow> (int \<times> MSN_Lookup list) option" where
  "msnl_read_file fs file xs =
     (case fs file of
        None \<Rightarrow> Some (1, xs)
      | Some content \<Rightarrow>
          (case while_fgets 512 (\<lambda>pos l xs. do {
                  e \<leftarrow> read_line (Some (l @ [NUL])) (Some blank_entry);
                  e \<leftarrow> e;
                  Some (Inl (e # xs)) }) (open_at content 0) xs of
             Some (Inl xs) \<Rightarrow> Some (0, rev xs)
           | Some (Inr (u :: unit)) \<Rightarrow> None
           | None \<Rightarrow> None))"

text \<open>
  \<open>msnl_lookup(msn, alias)\<close>: the strings are compared with \<open>strcmp\<close>; the target may be NULL.
\<close>

fun lookup_from :: "MSN_Lookup list \<Rightarrow> string \<Rightarrow> char list option \<Rightarrow> (int \<times> char list option) option" where
  "lookup_from [] m target = Some (1, target)"
| "lookup_from (e # es) m target = do {
     k \<leftarrow> cstr (msn e);
     if k = m
     then (case target of
         None \<Rightarrow> Some (0, None)
       | Some t \<Rightarrow> do { s \<leftarrow> cstr (msn_alias e); t \<leftarrow> strcpy t s; Some (0, Some t) })
     else lookup_from es m target }"

definition msnl_lookup ::
  "MSN_Lookup list \<Rightarrow> char list option \<Rightarrow> char list option \<Rightarrow> (int \<times> char list option) option" where
  "msnl_lookup es number target =
     (case number of None \<Rightarrow> Some (1, target) | Some a \<Rightarrow> do { m \<leftarrow> cstr a; lookup_from es m target })"

fun msnl_cleanup :: "MSN_Lookup list \<Rightarrow> MSN_Lookup list" where
  "msnl_cleanup [] = []"
| "msnl_cleanup (e # es) = msnl_cleanup es"

section \<open>A line\<close>

definition line_msn :: "string \<Rightarrow> string" where
  "line_msn s = takeWhile (\<lambda>c. \<not> blank c \<and> c \<noteq> NUL \<and> c \<noteq> LF) (dropWhile blank s)"

definition line_alias :: "string \<Rightarrow> string" where
  "line_alias s = takeWhile (\<lambda>c. c \<noteq> NUL \<and> c \<noteq> LF)
     (dropWhile blank (dropWhile (\<lambda>c. \<not> blank c \<and> c \<noteq> NUL \<and> c \<noteq> LF) (dropWhile blank s)))"

definition holds_entry :: "MSN_Lookup \<Rightarrow> string \<Rightarrow> string \<Rightarrow> bool" where
  "holds_entry e m a \<longleftrightarrow> cstr (msn e) = Some m \<and> cstr (msn_alias e) = Some a \<and>
     length (msn e) = MSNL_MSN_SIZE \<and> length (msn_alias e) = MSNL_ALIAS_SIZE"

lemma put_terminate_any:
  assumes "put a 0 s = Some a'" and "NUL \<notin> set s"
  shows "wr a' (length s) NUL =
    (if length s < length a then Some (s @ NUL # drop (Suc (length s)) a) else None)"
  using assms
  by (auto simp: wr_def put_def list_update_append Cons_nth_drop_Suc[symmetric] split: if_splits)

text \<open>A copy of at most the array's size, and the terminating zero behind it.\<close>

lemma copy_terminate:
  assumes "\<not> P NUL" and "i = length pre" and "length dst = n" and "t = takeWhile P s"
  shows "(case copy_upto n P (pre @ s @ NUL # post) i dst 0 of
      None \<Rightarrow> None | Some (d, i', j) \<Rightarrow> map_option (\<lambda>d. (d, i')) (wr d j NUL))
    = (if length t < n then Some (t @ NUL # drop (Suc (length t)) dst, i + length t) else None)"
proof -
  let ?k = "min n (length t)"
  have "t = take (length t) s" unfolding assms(4) by (rule takeWhile_eq_take)
  then have "take ?k t = take ?k (take (length t) s)" by (rule arg_cong)
  then have tk: "take ?k s = take ?k t" by (simp only: take_take min.assoc min.idem)
  have c: "copy_upto n P (pre @ s @ NUL # post) i dst 0
      = map_option (\<lambda>d. (d, i + ?k, ?k)) (put dst 0 (take ?k t))"
    using copy_upto_run[of P i pre 0 n dst ?k s post] assms tk by simp
  have nn: "NUL \<notin> set (take ?k t)"
  proof
    assume "NUL \<in> set (take ?k t)"
    then have "NUL \<in> set t" by (rule in_set_takeD)
    then show False using assms(1,4) by (auto dest: set_takeWhileD)
  qed
  have len: "length (take ?k t) = ?k" by simp
  obtain d where d: "put dst 0 (take ?k t) = Some d" using assms(3) by (auto simp: put_def)
  have "wr d ?k NUL = (if ?k < n then Some (take ?k t @ NUL # drop (Suc ?k) dst) else None)"
    using put_terminate_any[OF d nn] assms(3) unfolding len by simp
  then show ?thesis using c d by (auto simp: min_def)
qed

lemma read_line_spec:
  assumes "NUL \<notin> set s"
  shows "(length (line_msn s) < MSNL_MSN_SIZE \<and> length (line_alias s) < MSNL_ALIAS_SIZE \<longrightarrow>
      (\<exists>e. read_line (Some (s @ NUL # post)) (Some blank_entry) = Some (Some e) \<and>
           holds_entry e (line_msn s) (line_alias s))) \<and>
    (\<not> (length (line_msn s) < MSNL_MSN_SIZE \<and> length (line_alias s) < MSNL_ALIAS_SIZE) \<longrightarrow>
      read_line (Some (s @ NUL # post)) (Some blank_entry) = None)"
proof -
  let ?P = "\<lambda>c. \<not> blank c \<and> c \<noteq> NUL \<and> c \<noteq> LF" and ?Q = "\<lambda>c. c \<noteq> NUL \<and> c \<noteq> LF"
  let ?m0 = "replicate MSNL_MSN_SIZE NUL" and ?a0 = "replicate MSNL_ALIAS_SIZE NUL"
  define b1 where "b1 = takeWhile blank s"
  define s1 where "s1 = dropWhile blank s"
  define m where "m = takeWhile ?P s1"
  define s2 where "s2 = dropWhile ?P s1"
  define b2 where "b2 = takeWhile blank s2"
  define s3 where "s3 = dropWhile blank s2"
  define a where "a = takeWhile ?Q s3"
  have ma: "line_msn s = m" "line_alias s = a"
    by (simp_all add: line_msn_def line_alias_def m_def a_def s3_def s2_def s1_def)
  have e: "s @ NUL # post = b1 @ s1 @ NUL # post" "s @ NUL # post = (b1 @ m) @ s2 @ NUL # post"
    "s @ NUL # post = (b1 @ m @ b2) @ s3 @ NUL # post"
    by (simp_all add: b1_def s1_def m_def s2_def b2_def s3_def)
  have i1: "scan blank (s @ NUL # post) 0 = Some (length b1)"
    using scan_run[of blank 0 "[]" s post] by (simp add: b1_def)
  have cm: "(case copy_upto MSNL_MSN_SIZE ?P (s @ NUL # post) (length b1) ?m0 0 of
      None \<Rightarrow> None | Some (d, i', j) \<Rightarrow> map_option (\<lambda>d. (d, i')) (wr d j NUL))
    = (if length m < MSNL_MSN_SIZE
       then Some (m @ NUL # drop (Suc (length m)) ?m0, length b1 + length m) else None)"
    unfolding e(1) by (rule copy_terminate) (auto simp: m_def)
  have i2: "scan blank (s @ NUL # post) (length b1 + length m) = Some (length b1 + length m + length b2)"
    unfolding e(2) using scan_run[of blank "length b1 + length m" "b1 @ m" s2 post]
    by (simp add: b2_def)
  have ca: "(case copy_upto MSNL_ALIAS_SIZE ?Q (s @ NUL # post) (length b1 + length m + length b2) ?a0 0 of
      None \<Rightarrow> None | Some (d, i', j) \<Rightarrow> map_option (\<lambda>d. (d, i')) (wr d j NUL))
    = (if length a < MSNL_ALIAS_SIZE
       then Some (a @ NUL # drop (Suc (length a)) ?a0, length b1 + length m + length b2 + length a) else None)"
    unfolding e(3) by (rule copy_terminate) (auto simp: a_def)
  have w0: "wr ?m0 0 NUL = Some ?m0" "wr ?a0 0 NUL = Some ?a0"
    by (simp_all add: wr_def list_update_same_conv)
  have nn: "NUL \<notin> set m" "NUL \<notin> set a" by (auto simp: m_def a_def dest: set_takeWhileD)
  show ?thesis
    unfolding ma
    using i1 i2 cm ca w0 nn
    by (auto simp: read_line_def blank_entry_def holds_entry_def split: option.splits prod.splits
        if_splits)
qed

section \<open>The file and the lookup\<close>

definition fits :: "string \<Rightarrow> bool" where
  "fits l \<longleftrightarrow> NUL \<notin> set l \<and> length (line_msn l) < MSNL_MSN_SIZE \<and> length (line_alias l) < MSNL_ALIAS_SIZE"

definition holds_entries :: "MSN_Lookup list \<Rightarrow> string list \<Rightarrow> bool" where
  "holds_entries es ls \<longleftrightarrow> list_all2 (\<lambda>e l. holds_entry e (line_msn l) (line_alias l)) es ls"

lemma read_lines_entries:
  assumes "\<forall>x \<in> set ps. fits (snd x)"
  shows "\<exists>es. run_lines (\<lambda>pos l xs. do {
             e \<leftarrow> read_line (Some (l @ [NUL])) (Some blank_entry); e \<leftarrow> e; Some (Inl (e # xs)) }) ps xs
         = Some (Inl (rev es @ xs) :: MSN_Lookup list + unit) \<and> holds_entries es (map snd ps)"
  using assms
proof (induction ps arbitrary: xs)
  case Nil
  then show ?case by (simp add: holds_entries_def)
next
  case (Cons p ps)
  obtain pos l where p: "p = (pos, l)" by (cases p)
  then have "fits l" using Cons.prems by simp
  then obtain e where e: "read_line (Some (l @ [NUL])) (Some blank_entry) = Some (Some e)"
    "holds_entry e (line_msn l) (line_alias l)"
    using read_line_spec[of l "[]"] by (auto simp: fits_def)
  obtain es where es: "run_lines (\<lambda>pos l xs. do {
             e \<leftarrow> read_line (Some (l @ [NUL])) (Some blank_entry); e \<leftarrow> e; Some (Inl (e # xs)) }) ps (e # xs)
         = Some (Inl (rev es @ e # xs) :: MSN_Lookup list + unit)" "holds_entries es (map snd ps)"
    using Cons.IH[of "e # xs"] Cons.prems by auto
  then show ?case using e
    by (intro exI[of _ "e # es"]) (simp add: p holds_entries_def)
qed

lemma lookup_from_entries:
  assumes "holds_entries es ls"
  shows "lookup_from es m target =
    (case map_of (map (\<lambda>l. (line_msn l, line_alias l)) ls) m of
       None \<Rightarrow> Some (1, target)
     | Some a \<Rightarrow> (case target of
           None \<Rightarrow> Some (0, None)
         | Some t \<Rightarrow> map_option (\<lambda>t. (0, Some t)) (strcpy t a)))"
  using assms unfolding holds_entries_def
proof (induction es ls rule: list_all2_induct)
  case Nil
  then show ?case by simp
next
  case (Cons e es l ls)
  then show ?case
    by (auto simp: holds_entry_def map_conv_bind_option o_def split: option.splits)
qed

section \<open>Properties\<close>

text \<open>
  C28: The alias table refines the partial function that maps the first word of each line of
  the file to the rest of the line: after \<open>msnl_read_file\<close> has read a file whose lines fit the
  arrays, \<open>msnl_lookup\<close> copies the alias of the first line with exactly this number into the
  target and returns 0, and returns 1 without touching the target when no line has it.
\<close>

theorem msn_lookup_refines:
  assumes "fs file = Some content" and "\<forall>l \<in> set (map snd (pieces 511 0 content)). fits l"
    and "cstr number = Some m" and "length target = MSNL_ALIAS_SIZE"
  shows "\<exists>es. msnl_read_file fs file [] = Some (0, es) \<and>
    (case map_of (map (\<lambda>l. (line_msn l, line_alias l)) (map snd (pieces 511 0 content))) m of
       None \<Rightarrow> msnl_lookup es (Some number) (Some target) = Some (1, Some target)
     | Some a \<Rightarrow> (\<exists>t. msnl_lookup es (Some number) (Some target) = Some (0, Some t) \<and> cstr t = Some a))"
proof -
  let ?ls = "map snd (pieces 511 0 content)"
  obtain es where es: "run_lines (\<lambda>pos l xs. do {
             e \<leftarrow> read_line (Some (l @ [NUL])) (Some blank_entry); e \<leftarrow> e; Some (Inl (e # xs)) })
           (pieces 511 0 content) [] = Some (Inl (rev es @ []) :: MSN_Lookup list + unit)"
    "holds_entries es ?ls"
    using read_lines_entries[of "pieces 511 0 content" "[]"] assms(2) by auto
  have r: "msnl_read_file fs file [] = Some (0, es)"
    using assms(1) es(1) by (simp add: msnl_read_file_def while_fgets_open)
  show ?thesis
  proof (cases "map_of (map (\<lambda>l. (line_msn l, line_alias l)) ?ls) m")
    case None
    then show ?thesis using r lookup_from_entries[OF es(2), of m] assms(3)
      by (auto simp: msnl_lookup_def)
  next
    case (Some a)
    then have "(m, a) \<in> (\<lambda>l. (line_msn l, line_alias l)) ` set ?ls"
      using map_of_SomeD[OF Some] by (simp only: set_map)
    then obtain l where l: "l \<in> set ?ls" "a = line_alias l" by blast
    have "length a < length target" "NUL \<notin> set a"
      using l assms(2,4) by (auto simp: fits_def line_alias_def dest: set_takeWhileD)
    then obtain t where "strcpy target a = Some t" "cstr t = Some a"
      using strcpy_fits cstr_strcpy by blast
    then show ?thesis using Some r lookup_from_entries[OF es(2), of m] assms(3)
      by (auto simp: msnl_lookup_def)
  qed
qed

definition msn_file :: string where
  "msn_file = unlines [''80504 Allgemein'', ''80251 Holger'', ''80504 again'']"

lemma msn_file_pieces: "pieces 511 0 msn_file
    = [(0, ''80504 Allgemein\<newline>''), (16, ''80251 Holger\<newline>''), (29, ''80504 again\<newline>'')]"
  unfolding msn_file_def by (subst pieces_unlines) simp_all

theorem msn_lookup_refines_witness:
  "\<exists>es. msnl_read_file (\<lambda>_. Some msn_file) ''msn.dat'' [] = Some (0, es) \<and>
    (case map_of (map (\<lambda>l. (line_msn l, line_alias l)) (map snd (pieces 511 0 msn_file))) ''80504'' of
       None \<Rightarrow> msnl_lookup es (Some (''80504'' @ [NUL])) (Some (replicate 256 NUL)) = Some (1, Some (replicate 256 NUL))
     | Some a \<Rightarrow> (\<exists>t. msnl_lookup es (Some (''80504'' @ [NUL])) (Some (replicate 256 NUL)) = Some (0, Some t) \<and>
         cstr t = Some a))"
  by (rule msn_lookup_refines)
     (simp_all add: msn_file_pieces fits_def line_msn_def line_alias_def cstr_def)

text \<open>
  A line of the file fits its record exactly when its number has fewer than 32 and its
  alias fewer than 256 characters: then \<open>_read_line\<close> stores both; otherwise the copying stops
  at the size of the array, and the terminating zero is written one cell behind it.
\<close>

theorem read_line_fits_iff:
  assumes "NUL \<notin> set l"
  shows "((\<exists>e. read_line (Some (l @ [NUL])) (Some blank_entry) = Some (Some e) \<and>
      holds_entry e (line_msn l) (line_alias l)) \<longleftrightarrow> fits l) \<and>
    (read_line (Some (l @ [NUL])) (Some blank_entry) = None \<longleftrightarrow> \<not> fits l)"
  using read_line_spec[OF assms, of "[]"] assms by (auto simp: fits_def)

theorem read_line_fits_iff_witness:
  "((\<exists>e. read_line (Some (replicate 32 CHR ''5'' @ [NUL])) (Some blank_entry) = Some (Some e) \<and>
      holds_entry e (line_msn (replicate 32 CHR ''5'')) (line_alias (replicate 32 CHR ''5''))) \<longleftrightarrow>
      fits (replicate 32 CHR ''5'')) \<and>
    (read_line (Some (replicate 32 CHR ''5'' @ [NUL])) (Some blank_entry) = None \<longleftrightarrow>
      \<not> fits (replicate 32 CHR ''5''))"
  by (rule read_line_fits_iff) simp

end
