(* ===== verification/World.thy ===== *)
theory World
  imports FritzLink Server Sources Daemon Msn
begin

text \<open>
  The components of the program in one process: they share the table of open descriptors, and
  the connection to the call monitor (\<open>FritzLink\<close>) and the server (\<open>Server\<close>) run in threads of
  their own. The locale \<open>descriptor_owner\<close> states what a component promises about descriptors;
  \<open>two_owners\<close> shows that two such components keep out of each other's way in every
  interleaving, whatever the rest of the program opens and closes.
\<close>

section \<open>Owners of descriptors\<close>

text \<open>
  A component in a table of descriptors \<open>fds s\<close>: \<open>owned s\<close> are its own, and \<open>good B s\<close> says that it is
  in order with \<open>B\<close> the descriptors of others. Its steps keep the others, and it does not depend
  on what they are.
\<close>

locale descriptor_owner =
  fixes owned :: "'s \<Rightarrow> int set"
    and good :: "int set \<Rightarrow> 's \<Rightarrow> bool"
    and fds :: "'s \<Rightarrow> int set"
    and with_fds :: "int set \<Rightarrow> 's \<Rightarrow> 's"
    and step :: "'s \<Rightarrow> 's \<Rightarrow> bool"
  assumes table: "good B s \<Longrightarrow> fds s = B \<union> owned s"
    and apart: "good B s \<Longrightarrow> B \<inter> owned s = {}"
    and valid: "good B s \<Longrightarrow> - 1 \<notin> owned s"
    and frame: "good B s \<Longrightarrow> C \<inter> owned s = {} \<Longrightarrow> - 1 \<notin> C \<Longrightarrow> good C (with_fds (C \<union> owned s) s)"
    and owned_with: "owned (with_fds T s) = owned s"
    and with_with: "with_fds U (with_fds T s) = with_fds U s"
    and with_same: "with_fds (fds s) s = s"
    and keeps: "step s s' \<Longrightarrow> good B s \<Longrightarrow> good B s'"
begin

lemma steps_keep: "step\<^sup>*\<^sup>* s s' \<Longrightarrow> good B s \<Longrightarrow> good B s'"
  by (induction rule: rtranclp_induct) (auto intro: keeps)

text \<open>In a table \<open>T\<close> that holds its descriptors, the others are the rest of it.\<close>

lemma in_table:
  assumes "good B s" and "owned s \<subseteq> T" and "- 1 \<notin> T"
  shows "good (T - owned s) (with_fds T s)"
proof -
  have "T - owned s \<union> owned s = T" using assms(2) by blast
  then show ?thesis using frame[OF assms(1), of "T - owned s"] assms(3) by auto
qed

text \<open>A change that keeps the others, made in a table.\<close>

lemma change_table:
  assumes "good (T - owned s) s'" and "- 1 \<notin> T"
  shows "fds s' = T - owned s \<union> owned s' \<and> (T - owned s) \<inter> owned s' = {} \<and> - 1 \<notin> fds s' \<and>
    good (fds s' - owned s') (with_fds (fds s') s')"
proof -
  have t: "fds s' = T - owned s \<union> owned s'" "(T - owned s) \<inter> owned s' = {}" "- 1 \<notin> owned s'"
    using table[OF assms(1)] apart[OF assms(1)] valid[OF assms(1)] by auto
  then have "fds s' - owned s' = T - owned s" by blast
  then show ?thesis using assms t unfolding with_same by simp
qed

end

text \<open>Two components in one table.\<close>

locale two_owners =
  a: descriptor_owner owned good fds with_fds step + b: descriptor_owner owned' good' fds' with_fds' step'
  for owned :: "'s \<Rightarrow> int set" and good fds with_fds step
    and owned' :: "'t \<Rightarrow> int set" and good' fds' with_fds' step'
begin

text \<open>A change of the first one in the table leaves the second one in order, and both apart.\<close>

lemma first_change:
  assumes "good (T - owned s) s'" and "good' (T - owned' t) (with_fds' T t)"
    and "owned s \<inter> owned' t = {}" and "owned' t \<subseteq> T" and "- 1 \<notin> T"
  shows "good (fds s' - owned s') (with_fds (fds s') s') \<and> good' (fds s' - owned' t) (with_fds' (fds s') t) \<and>
    owned s' \<inter> owned' t = {} \<and> - 1 \<notin> fds s'"
proof -
  note f = a.change_table[OF assms(1,5)]
  have sub: "owned' t \<subseteq> fds s'" "owned s' \<inter> owned' t = {}" using f assms(3,4) by auto
  have "good' (fds s' - owned' (with_fds' T t)) (with_fds' (fds s') (with_fds' T t))"
    using sub(1) conjunct1[OF conjunct2[OF conjunct2[OF f]]]
    by (intro b.in_table[OF assms(2)]) (simp_all only: b.owned_with not_False_eq_True)
  then have "good' (fds s' - owned' t) (with_fds' (fds s') t)" by (simp add: b.owned_with b.with_with)
  then show ?thesis using sub(2) f by blast
qed

text \<open>What the rest of the program does to the table.\<close>

lemma other_step:
  assumes "good (T - owned s) (with_fds T s)" and "good' (T - owned' t) (with_fds' T t)"
    and "owned s \<union> owned' t \<subseteq> U" and "- 1 \<notin> U"
  shows "good (U - owned s) (with_fds U s) \<and> good' (U - owned' t) (with_fds' U t)"
proof -
  have "good (U - owned (with_fds T s)) (with_fds U (with_fds T s))"
    using assms(3,4) by (intro a.in_table[OF assms(1)]) (simp_all add: a.owned_with)
  moreover have "good' (U - owned' (with_fds' T t)) (with_fds' U (with_fds' T t))"
    using assms(3,4) by (intro b.in_table[OF assms(2)]) (simp_all add: b.owned_with)
  ultimately show ?thesis by (simp add: a.owned_with a.with_with b.owned_with b.with_with)
qed

end

text \<open>The two roles are symmetric.\<close>

sublocale two_owners \<subseteq> swapped: two_owners owned' good' fds' with_fds' step' owned good fds with_fds step
  by unfold_locales

section \<open>The connection to the call monitor\<close>

definition link_own :: "fritz_server \<Rightarrow> int set" where
  "link_own s = {srv_netlink s, fdpipe_r s, fdpipe_w s} \<union> (if 0 \<le> srv_sock s then {srv_sock s} else {})"

lemma link_ok_own: "link_ok B s \<Longrightarrow> open_fds s = B \<union> link_own s \<and> B \<inter> link_own s = {} \<and> - 1 \<notin> link_own s"
  by (auto simp: link_ok_def fixed_ok_def link_own_def)

lemma link_frame:
  "link_ok B s \<Longrightarrow> C \<inter> link_own s = {} \<Longrightarrow> link_ok C (s\<lparr>open_fds := C \<union> link_own s\<rparr>)"
  by (auto simp: link_ok_def fixed_ok_def link_own_def)

lemma link_own_with [simp]: "link_own (s\<lparr>open_fds := T\<rparr>) = link_own s"
  by (simp add: link_own_def)

interpretation link: descriptor_owner link_own link_ok open_fds "\<lambda>T s. s\<lparr>open_fds := T\<rparr>" link_step
  by unfold_locales (simp_all add: link_ok_own link_frame link_step_ok)

section \<open>The server\<close>

definition srv_good :: "int set \<Rightarrow> system \<Rightarrow> bool" where
  "srv_good B y \<longleftrightarrow> steady (sys_server y) \<and> foreign (sys_server y) = B"

definition with_open :: "int set \<Rightarrow> system \<Rightarrow> system" where
  "with_open T y = y\<lparr>sys_server := (sys_server y)\<lparr>cs_open := T\<rparr>\<rparr>"

definition srv_own :: "system \<Rightarrow> int set" where
  "srv_own y = set (own (sys_server y))"

lemma own_with_open [simp]: "own (s\<lparr>cs_open := T\<rparr>) = own s"
  by (simp add: own_def)

lemma srv_frame: "srv_good B y \<Longrightarrow> C \<inter> srv_own y = {} \<Longrightarrow> - 1 \<notin> C \<Longrightarrow> srv_good C (with_open (C \<union> srv_own y) y)"
  by (auto simp: srv_good_def srv_own_def with_open_def srv_ok_def foreign_def)

lemma srv_good_step: "srv_step L y y' \<Longrightarrow> srv_good B y \<Longrightarrow> srv_good B y'"
  using srv_step_tidy[of L y y'] by (auto simp: srv_good_def tidy_def)

interpretation srv: descriptor_owner srv_own srv_good "\<lambda>y. cs_open (sys_server y)" with_open "srv_step L" for L
  by unfold_locales
     (auto simp: srv_frame intro: srv_good_step, auto simp: srv_good_def srv_own_def srv_ok_def foreign_def with_open_def)

section \<open>Before the connection\<close>

text \<open>
  Between \<open>fritz_init\<close> and \<open>fritz_startup\<close> the connection has its netlink socket and its pipe, no
  socket and no thread.
\<close>

definition idle_own :: "fritz_server \<Rightarrow> int set" where
  "idle_own s = {srv_netlink s, fdpipe_r s, fdpipe_w s}"

definition idle_ok :: "int set \<Rightarrow> fritz_server \<Rightarrow> bool" where
  "idle_ok B s \<longleftrightarrow> fixed_ok B s \<and> \<not> has s Connected \<and> open_fds s = B \<union> idle_own s"

lemma idle_own_with [simp]: "idle_own (s\<lparr>open_fds := T\<rparr>) = idle_own s"
  by (simp add: idle_own_def)

lemma idle_frame: "idle_ok B s \<Longrightarrow> C \<inter> idle_own s = {} \<Longrightarrow> idle_ok C (s\<lparr>open_fds := C \<union> idle_own s\<rparr>)"
  by (auto simp: idle_ok_def fixed_ok_def idle_own_def)

text \<open>
  A phase of the connection, in which it owns at most what it owns when it runs, in one table with
  the server.
\<close>

locale link_phase = descriptor_owner hold good open_fds "\<lambda>T s. s\<lparr>open_fds := T\<rparr>" step
  for hold :: "fritz_server \<Rightarrow> int set" and good and step +
  assumes part: "hold s \<subseteq> link_own s"

sublocale link_phase \<subseteq> beside: two_owners hold good open_fds "\<lambda>T s. s\<lparr>open_fds := T\<rparr>" step
    srv_own srv_good "\<lambda>y. cs_open (sys_server y)" with_open "srv_step L" for L
  by unfold_locales

interpretation idle: link_phase idle_own idle_ok "(=)"
  by unfold_locales (auto simp: idle_frame, auto simp: idle_ok_def fixed_ok_def idle_own_def link_own_def)

interpretation running: link_phase link_own link_ok link_step
  by unfold_locales simp

section \<open>The program\<close>

text \<open>
  The parts main() keeps going; the open descriptors are those of \<open>w_fds\<close>, and the sets inside
  the two components are replaced by it whenever one of them runs. \<open>w_area_file\<close> is the pointer
  \<open>_ciac_filename\<close>, which \<open>w_areas\<close> shows as the string it points to.
\<close>

record world =
  w_config :: Fritz2CIConfig
  w_log :: logger
  w_daemon :: daemon
  w_files :: files
  w_fds :: "int set"
  w_fritz :: fritz_server
  w_sys :: system
  w_db :: db_handles
  w_lookup :: lookup_state
  w_msn :: "MSN_Lookup list"
  w_areas :: areacodes
  w_area_file :: "string owned"
  w_todo :: "CIDataSet list owned"

definition fritz_of :: "world \<Rightarrow> fritz_server" where
  "fritz_of w = (w_fritz w)\<lparr>open_fds := w_fds w\<rparr>"

definition put_fritz :: "fritz_server \<Rightarrow> world \<Rightarrow> world" where
  "put_fritz s w = w\<lparr>w_fritz := s, w_fds := open_fds s\<rparr>"

definition sys_of :: "world \<Rightarrow> system" where
  "sys_of w = with_open (w_fds w) (w_sys w)"

definition put_sys :: "system \<Rightarrow> world \<Rightarrow> world" where
  "put_sys y w = w\<lparr>w_sys := y, w_fds := cs_open (sys_server y)\<rparr>"

text \<open>The descriptors that belong to neither of the two.\<close>

definition others :: "world \<Rightarrow> int set" where
  "others w = w_fds w - link_own (w_fritz w) - srv_own (w_sys w)"

text \<open>
  The steps between start and end: one of the server or of a broadcast, a write to the server's
  pipe, or the rest of the program opens or closes a descriptor, records a call in the database,
  leaves it in the queue or writes to the log; and one of the connection to the call monitor or of the main loop's timers for it.
\<close>

inductive rest_step :: "cinet \<Rightarrow> world \<Rightarrow> world \<Rightarrow> bool" for L where
  server: "srv_step L (sys_of w) y \<Longrightarrow> rest_step L w (put_sys y w)"
| pipes: "rest_step L w (put_sys ((sys_of w)\<lparr>sys_server := (sys_server (sys_of w))\<lparr>cs_pipe := t\<rparr>\<rparr>) w)"
| opens: "0 \<le> fd \<Longrightarrow> fd \<notin> w_fds w \<Longrightarrow> rest_step L w (w\<lparr>w_fds := insert fd (w_fds w)\<rparr>)"
| closes: "fd \<in> others w \<Longrightarrow> rest_step L w (w\<lparr>w_fds := w_fds w - {fd}\<rparr>)"
| records: "dbhandler_add_data e d (sys_db (w_sys w)) = Some (rc, db) \<Longrightarrow> rest_step L w (put_sys ((sys_of w)\<lparr>sys_db := db\<rparr>) w)"
| queues: "w_todo w = Owned q \<Longrightarrow> rest_step L w (w\<lparr>w_todo := Owned (q @ [d])\<rparr>)"
| logs: "rest_step L w (w\<lparr>w_log := (w_log w)\<lparr>log_out := log_out (w_log w) @ out\<rparr>\<rparr>)"

inductive world_step :: "cinet \<Rightarrow> world \<Rightarrow> world \<Rightarrow> bool" for L where
  fritz: "link_step (fritz_of w) s \<Longrightarrow> world_step L w (put_fritz s w)"
| rest: "rest_step L w w' \<Longrightarrow> world_step L w w'"

inductive_cases world_stepE: "world_step L w w'"

text \<open>
  The connection, in a phase, and the server are in order in the common table, and no descriptor
  belongs to both.
\<close>

definition in_order :: "(fritz_server \<Rightarrow> int set) \<Rightarrow> (int set \<Rightarrow> fritz_server \<Rightarrow> bool) \<Rightarrow> world \<Rightarrow> bool" where
  "in_order hold good w \<longleftrightarrow> good (w_fds w - hold (w_fritz w)) (fritz_of w) \<and>
     srv_good (w_fds w - srv_own (w_sys w)) (sys_of w) \<and>
     hold (w_fritz w) \<inter> srv_own (w_sys w) = {} \<and> - 1 \<notin> w_fds w"

abbreviation world_ok :: "world \<Rightarrow> bool" where
  "world_ok \<equiv> in_order link_own link_ok"

abbreviation starting_ok :: "world \<Rightarrow> bool" where
  "starting_ok \<equiv> in_order idle_own idle_ok"

lemma in_order_cong:
  "w_fds w' = w_fds w \<Longrightarrow> w_fritz w' = w_fritz w \<Longrightarrow> w_sys w' = w_sys w \<Longrightarrow> in_order h g w' \<longleftrightarrow> in_order h g w"
  by (simp add: in_order_def fritz_of_def sys_of_def)

lemma views [simp]:
  "open_fds (fritz_of w) = w_fds w" "link_own (fritz_of w) = link_own (w_fritz w)" "idle_own (fritz_of w) = idle_own (w_fritz w)"
  "cs_open (sys_server (sys_of w)) = w_fds w" "srv_own (sys_of w) = srv_own (w_sys w)"
  "w_fds (put_fritz s w) = open_fds s" "w_fritz (put_fritz s w) = s" "w_sys (put_fritz s w) = w_sys w"
  "w_fds (put_sys y w) = cs_open (sys_server y)" "w_sys (put_sys y w) = y" "w_fritz (put_sys y w) = w_fritz w"
  by (simp_all add: fritz_of_def sys_of_def put_fritz_def put_sys_def with_open_def srv_own_def)

lemma piped_good: "srv_good B y \<Longrightarrow> srv_good B (y\<lparr>sys_server := (sys_server y)\<lparr>cs_pipe := t\<rparr>\<rparr>)"
  by (simp add: srv_good_def srv_ok_def foreign_def own_def)

text \<open>In every phase the rest of the program keeps this.\<close>

context link_phase
begin

lemma hold_of: "hold (fritz_of w) = hold (w_fritz w)"
  unfolding fritz_of_def by (rule owned_with)

lemma in_order_subset:
  assumes "in_order hold good w"
  shows "hold (w_fritz w) \<subseteq> w_fds w" and "srv_own (w_sys w) \<subseteq> w_fds w"
  using assms table[of "w_fds w - hold (w_fritz w)" "fritz_of w"] hold_of[of w]
    srv.table[of "w_fds w - srv_own (w_sys w)" "sys_of w"]
  by (auto simp: in_order_def)

lemma in_order_link:
  assumes "in_order hold good w" and "good (w_fds w - hold (w_fritz w)) s"
  shows "in_order hold good (put_fritz s w)"
proof -
  have "good (open_fds s - hold s) (s\<lparr>open_fds := open_fds s\<rparr>) \<and>
      srv_good (open_fds s - srv_own (w_sys w)) (with_open (open_fds s) (w_sys w)) \<and>
      hold s \<inter> srv_own (w_sys w) = {} \<and> - 1 \<notin> open_fds s"
    using beside.first_change[of "w_fds w" "w_fritz w" s "w_sys w"] assms in_order_subset[OF assms(1)]
    unfolding in_order_def fritz_of_def sys_of_def by blast
  then show ?thesis unfolding in_order_def fritz_of_def sys_of_def by (simp add: put_fritz_def)
qed

lemma in_order_sys:
  assumes "in_order hold good w" and "srv_good (w_fds w - srv_own (w_sys w)) y"
  shows "in_order hold good (put_sys y w)"
proof -
  have "srv_good (cs_open (sys_server y) - srv_own y) (with_open (cs_open (sys_server y)) y) \<and>
      good (cs_open (sys_server y) - hold (w_fritz w)) ((w_fritz w)\<lparr>open_fds := cs_open (sys_server y)\<rparr>) \<and>
      srv_own y \<inter> hold (w_fritz w) = {} \<and> - 1 \<notin> cs_open (sys_server y)"
    using beside.swapped.first_change[of "w_fds w" "w_sys w" y "w_fritz w"] assms in_order_subset[OF assms(1)]
    unfolding in_order_def fritz_of_def sys_of_def by blast
  then show ?thesis unfolding in_order_def fritz_of_def sys_of_def by (simp add: put_sys_def Int_commute)
qed

lemma in_order_others:
  assumes "in_order hold good w" and "hold (w_fritz w) \<union> srv_own (w_sys w) \<subseteq> T" and "- 1 \<notin> T"
  shows "in_order hold good (w\<lparr>w_fds := T\<rparr>)"
  using beside.other_step[of "w_fds w" "w_fritz w" "w_sys w" T] assms
  by (auto simp: in_order_def fritz_of_def sys_of_def)

lemma rest_step_keeps:
  assumes "rest_step L w w'" and "in_order hold good w"
  shows "in_order hold good w'"
  using assms
proof (induction rule: rest_step.induct)
  case (server w y)
  have "srv_good (w_fds w - srv_own (w_sys w)) (sys_of w)" using server.prems by (simp add: in_order_def)
  then show ?case by (rule in_order_sys[OF server.prems srv.keeps[OF server.hyps]])
next
  case (pipes w t)
  have "srv_good (w_fds w - srv_own (w_sys w)) (sys_of w)" using pipes.prems by (simp add: in_order_def)
  then show ?case by (rule in_order_sys[OF pipes.prems piped_good])
next
  case (opens fd w)
  then show ?case using in_order_subset[of w] by (intro in_order_others) (auto simp: in_order_def)
next
  case (closes fd w)
  then show ?case
    using in_order_subset[of w] part[of "w_fritz w"] by (intro in_order_others) (auto simp: in_order_def others_def)
next
  case (records e d w rc db)
  have "srv_good (w_fds w - srv_own (w_sys w)) ((sys_of w)\<lparr>sys_db := db\<rparr>)"
    using records.prems by (simp add: in_order_def srv_good_def)
  then show ?case by (rule in_order_sys[OF records.prems])
next
  case (queues w q d)
  then show ?case by (simp cong: in_order_cong)
next
  case (logs w out)
  then show ?case by (simp cong: in_order_cong)
qed

lemma rest_steps_keep: "(rest_step L)\<^sup>*\<^sup>* w w' \<Longrightarrow> in_order hold good w \<Longrightarrow> in_order hold good w'"
  by (induction rule: rtranclp_induct) (auto intro: rest_step_keeps)

end

lemma world_step_ok:
  assumes "world_step L w w'" and "world_ok w"
  shows "world_ok w'"
  using assms
proof (induction rule: world_step.induct)
  case (fritz w s)
  have "link_ok (w_fds w - link_own (w_fritz w)) (fritz_of w)" using fritz.prems by (simp add: in_order_def)
  then show ?case by (rule running.in_order_link[OF fritz.prems link.keeps[OF fritz.hyps]])
next
  case (rest w w')
  then show ?case by (rule running.rest_step_keeps)
qed

text \<open>What it means for the table.\<close>

lemma world_ok_partition:
  assumes "world_ok w"
  shows "w_fds w = link_own (w_fritz w) \<union> srv_own (w_sys w) \<union> others w \<and>
    link_own (w_fritz w) \<inter> srv_own (w_sys w) = {} \<and> distinct (own (sys_server (w_sys w))) \<and>
    {w'. \<exists>y. srv_step L (sys_of w) y \<and> w' = put_sys y w} \<subseteq> {w'. others w' = others w \<and> w_fritz w' = w_fritz w} \<and>
    {w'. \<exists>s. link_step (fritz_of w) s \<and> w' = put_fritz s w} \<subseteq> {w'. others w' = others w \<and> w_sys w' = w_sys w}"
proof -
  note sub = running.in_order_subset[OF assms]
  have g: "link_ok (w_fds w - link_own (w_fritz w)) (fritz_of w)" "srv_good (w_fds w - srv_own (w_sys w)) (sys_of w)"
    "link_own (w_fritz w) \<inter> srv_own (w_sys w) = {}" using assms by (simp_all add: in_order_def)
  have "distinct (own (sys_server (w_sys w)))"
    using g(2) by (simp add: srv_good_def srv_ok_def sys_of_def with_open_def)
  moreover have "others (put_sys y w) = others w" if "srv_step L (sys_of w) y" for y
    using srv.table[OF srv.keeps[OF that g(2)]] srv.apart[OF srv.keeps[OF that g(2)]] by (auto simp: others_def)
  moreover have "others (put_fritz s w) = others w" if "link_step (fritz_of w) s" for s
    using link.table[OF link.keeps[OF that g(1)]] link.apart[OF link.keeps[OF that g(1)]] by (auto simp: others_def)
  moreover have "w_fds w = link_own (w_fritz w) \<union> srv_own (w_sys w) \<union> others w" using sub by (auto simp: others_def)
  ultimately show ?thesis using g(3) by auto
qed

lemma world_steps_ok: "(world_step L)\<^sup>*\<^sup>* w w' \<Longrightarrow> world_ok w \<Longrightarrow> world_ok w'"
  by (induction rule: rtranclp_induct) (auto intro: world_step_ok)

text \<open>What the steps never touch; the queue only grows.\<close>

definition kept :: "world \<Rightarrow> world \<Rightarrow> bool" where
  "kept w w' \<longleftrightarrow> w_config w' = w_config w \<and> w_daemon w' = w_daemon w \<and> w_files w' = w_files w \<and> w_db w' = w_db w \<and>
     w_lookup w' = w_lookup w \<and> w_area_file w' = w_area_file w \<and>
     (case w_todo w of Owned q \<Rightarrow> \<exists>ds. w_todo w' = Owned (q @ ds) | t \<Rightarrow> w_todo w' = t)"

lemma kept_refl [simp]: "kept w w"
  by (simp add: kept_def split: owned.splits)

lemma kept_trans: "kept u v \<Longrightarrow> kept v w \<Longrightarrow> kept u w"
  by (auto simp: kept_def split: owned.splits)

lemma kept_put [simp]: "kept w (put_fritz s w)" "kept w (put_sys y w)"
  by (simp_all add: kept_def put_fritz_def put_sys_def split: owned.splits)

lemma rest_step_kept: "rest_step L w w' \<Longrightarrow> kept w w' \<and> w_fritz w' = w_fritz w"
  by (induction rule: rest_step.induct) (simp_all, simp_all add: kept_def split: owned.splits)

lemma world_step_kept: "world_step L w w' \<Longrightarrow> kept w w'"
  by (induction rule: world_step.induct) (simp_all add: rest_step_kept)

lemma steps_kept: "(world_step L)\<^sup>*\<^sup>* w w' \<Longrightarrow> kept w w'"
  by (induction rule: rtranclp_induct) (auto intro: kept_trans world_step_kept)

lemma rest_steps: "(rest_step L)\<^sup>*\<^sup>* w w' \<Longrightarrow> (world_step L)\<^sup>*\<^sup>* w w' \<and> w_fritz w' = w_fritz w"
  by (induction rule: rtranclp_induct) (auto dest: rest_step_kept intro: rtranclp.rtrancl_into_rtrancl world_step.rest)

end
