(* ===== verification/Startup.thy ===== *)
theory Startup
  imports World
begin

text \<open>
  The start and the end of the program, \<open>main\<close> and \<open>_shutdown\<close> of \<open>main.c\<close>: the components are started
  one after the other, and released in \<open>_shutdown\<close>, which is called at the end of the main loop
  and from most of the places where the start fails.
\<close>

section \<open>What the start meets\<close>

text \<open>
  The options of the command line, the key files, which files the log can append to, the time
  stamp of the n-th line of the log; the files of a process and the result of \<open>fork\<close>; the
  descriptors of \<open>netutil_init_netlink\<close>, \<open>socket\<close> and both calls of \<open>pipe\<close>; whether the threads can be
  created; the answers of SQLite for both databases and of curl; the XML files and the text
  files; the first attempt to connect, which depends on the descriptors that are open then; the
  library cinet and the clients' side at the end.
\<close>

record main_env =
  m_opts :: "(bool \<times> bool \<times> string list) option"
  m_argv0 :: string
  m_keyfile :: "string \<Rightarrow> keyfile option"
  m_append :: "string \<Rightarrow> bool"
  m_stamp :: "nat \<Rightarrow> string"
  m_permissions :: permissions
  m_fork :: int
  m_netlink :: int
  m_pipe :: "(int \<times> int) option"
  m_srv_sock :: int
  m_srv_pipe :: "(int \<times> int) option"
  m_srv_thread :: bool
  m_thread :: bool
  m_db :: sqlite_answers
  m_cache :: sqlite_answers
  m_curl :: bool
  m_doc :: "string option \<Rightarrow> xml_node option option"
  m_text :: "string \<Rightarrow> string option"
  m_attempt :: "int set \<Rightarrow> attempt"
  m_glib :: glib_ascii
  m_write :: "net_out \<Rightarrow> string"
  m_sends :: sends
  m_peers :: peers

text \<open>
  What the other threads do while main waits in \<open>g_thread_join\<close>: for the thread of the connection to
  the call monitor, and for that of the server. \<open>None\<close>: the thread does not end. And what they do
  while main starts: the server's thread from its start to that of the other one, and then both.
\<close>

record joins =
  j_fritz :: "world \<Rightarrow> world option"
  j_server :: "world \<Rightarrow> world option"
  j_started :: "world \<Rightarrow> world"
  j_listening :: "world \<Rightarrow> world"

definition say :: "main_env \<Rightarrow> string \<Rightarrow> world \<Rightarrow> world option" where
  "say E text w = do {
     g \<leftarrow> log_log (m_append E) (m_stamp E (length (log_out (w_log w)))) (text @ [LF]) (w_config w) (w_log w);
     Some (w\<lparr>w_log := g\<rparr>) }"

section \<open>The end\<close>

definition stop_fritz :: "joins \<Rightarrow> world \<Rightarrow> world option" where
  "stop_fritz J w = (let s = fritz_of w in do {
     t \<leftarrow> (if has s Listening then j_fritz J (put_fritz (shutdown_request s) w) else Some w);
     Some (put_fritz (fritz_shutdown (\<lambda>_. fritz_of t) s) t) })"

text \<open>The server's thread is joined after the request in its pipe.\<close>

definition join_server :: "joins \<Rightarrow> world \<Rightarrow> world option" where
  "join_server J w = (let y = sys_of w; s = sys_server y in
     if cs_state s = CISrvStateRunning \<and> cs_thread s
     then j_server J (put_sys (y\<lparr>sys_server := s\<lparr>cs_pipe := cs_pipe s @ ''disconnect''\<rparr>\<rparr>) w)
     else Some w)"

definition stop_server :: "main_env \<Rightarrow> joins \<Rightarrow> world \<Rightarrow> world option" where
  "stop_server E J w = do {
     t \<leftarrow> join_server J w;
     s \<leftarrow> cisrv_disconnect (m_write E) (m_sends E) (m_peers E) (\<lambda>_. Some (sys_server (sys_of t))) (sys_server (sys_of w));
     Some (put_sys ((sys_of t)\<lparr>sys_server := s\<rparr>) t) }"

text \<open>The thread has been joined before, so \<open>fritz_cleanup\<close> waits for none.\<close>

definition clean_fritz :: "world \<Rightarrow> world" where
  "clean_fritz w = put_fritz (fritz_cleanup (\<lambda>s. s) (fritz_of w)) w"

text \<open>The pointer to the name of the file of area codes keeps its value.\<close>

definition ci_free_area_codes :: "world \<Rightarrow> world option" where
  "ci_free_area_codes w = do { a \<leftarrow> release (w_area_file w); Some (w\<lparr>w_area_file := a\<rparr>) }"

text \<open>\<open>while ((set = g_queue_pop_head(...)) != NULL)\<close>, with the count.\<close>

fun pop_all :: "CIDataSet list \<Rightarrow> nat \<Rightarrow> nat" where
  "pop_all [] cnt = cnt"
| "pop_all (d # ds) cnt = pop_all ds (Suc cnt)"

definition free_queue :: "main_env \<Rightarrow> world \<Rightarrow> world option" where
  "free_queue E w = do {
     q \<leftarrow> deref (w_todo w);
     q \<leftarrow> q;
     let cnt = pop_all q 0 in do {
     todo \<leftarrow> release (Owned ([] :: CIDataSet list));
     let w = w\<lparr>w_todo := todo\<rparr> in
     if cnt \<noteq> 0 then say E (''There were '' @ dec cnt @ '' sets not written to database'') w else Some w } }"

definition shutdown_all :: "main_env \<Rightarrow> joins \<Rightarrow> world \<Rightarrow> world option" where
  "shutdown_all E J w = do {
     w \<leftarrow> ci_free_area_codes w;
     w \<leftarrow> stop_fritz J w;
     w \<leftarrow> stop_server E J w;
     let w = clean_fritz (w\<lparr>w_msn := msnl_cleanup (w_msn w)\<rparr>) in do {
     h \<leftarrow> dbhandler_cleanup (w_db w);
     let rc = cisrv_cleanup in do {
     k \<leftarrow> lookup_cleanup (w_lookup w);
     w \<leftarrow> free_queue E (w\<lparr>w_db := h, w_lookup := k\<rparr>);
     c \<leftarrow> config_free (w_config w);
     let (rc, d, fs) = stop_daemon (w_daemon w) (w_files w) in
     Some (w\<lparr>w_config := c, w_daemon := d, w_files := fs\<rparr>) } } }"

section \<open>The start\<close>

text \<open>Either the exit code, with the world left behind, or main goes on.\<close>

type_synonym progress = "(int \<times> world) + world"

definition fail :: "main_env \<Rightarrow> joins \<Rightarrow> string \<Rightarrow> world \<Rightarrow> progress option" where
  "fail E J text w = do { w \<leftarrow> say E text w; w \<leftarrow> shutdown_all E J w; Some (Inl (1, w)) }"

definition start_config :: "main_env \<Rightarrow> world \<Rightarrow> progress option" where
  "start_config E w =
     (let (rc, c) = parse_cmd_line (m_opts E) (w_config w); w = w\<lparr>w_config := c\<rparr> in
      if rc \<noteq> 0 then Some (Inl (1, w))
      else do {
        f \<leftarrow> deref (cf_configfile c);
        let w = w\<lparr>w_log := log_set_verbose (cf_verbose c) (w_log w)\<rparr>; (rc, c) = config_load (m_keyfile E) f c;
            w = w\<lparr>w_config := c\<rparr> in
        if rc \<noteq> 0 then Some (Inl (1, w))
        else do {
          w \<leftarrow> say E ''loaded configuration'' (w\<lparr>w_log := log_set_log_file (w_log w)\<rparr>);
          Some (Inr w) } })"

definition start_process :: "main_env \<Rightarrow> world \<Rightarrow> progress option" where
  "start_process E w =
     (if cf_daemon (w_config w)
      then do {
        p \<leftarrow> deref (cf_pid_file (w_config w));
        (pid, d, fs) \<leftarrow> start_daemon (m_permissions E) (m_argv0 E) p (m_fork E) (w_daemon w) (w_files w);
        let w = w\<lparr>w_daemon := d, w_files := fs\<rparr> in
        if pid = - 1 then do { w \<leftarrow> say E ''Could not start daemon'' w; Some (Inl (1, w)) }
        else if pid \<noteq> 0
        then do {
          w \<leftarrow> say E (''Starting as daemon. Process id is '' @ dec (nat pid)) w;
          c \<leftarrow> config_free (w_config w);
          Some (Inl (0, w\<lparr>w_config := c\<rparr>)) }
        else Some (Inr w) }
      else Some (Inr w))"

text \<open>From the queue to the file of own numbers; the call database may fail.\<close>

definition start_components :: "main_env \<Rightarrow> joins \<Rightarrow> world \<Rightarrow> progress option" where
  "start_components E J w = do {
     host \<leftarrow> deref (cf_fritz_host (w_config w));
     let w = w\<lparr>w_todo := Owned []\<rparr>;
         (rc, s) = fritz_init host (cf_fritz_port (w_config w)) (m_netlink E) (m_pipe E) (fritz_of w);
         w = put_fritz s w in
     if rc \<noteq> 0 then fail E J ''Could not initialize fritz'' w
     else do {
       w \<leftarrow> say E ''initialized fritz'' w;
       let (rc, s) = cisrv_init (m_srv_sock E) (sys_server (sys_of w)); w = put_sys ((sys_of w)\<lparr>sys_server := s\<rparr>) w in
       if rc \<noteq> 0 then fail E J ''Could not initialize ci-server'' w
       else do {
         w \<leftarrow> say E ''initialized cisrv'' w;
         (rc, h) \<leftarrow> dbhandler_init (m_db E) (w_db w);
         w \<leftarrow> say E (if rc \<noteq> 0 then ''Could not initialize dbhandler'' else ''initialized dbhandler'') (w\<lparr>w_db := h\<rparr>);
         sources \<leftarrow> deref (cf_lookup_sources_location (w_config w));
         (rc, k) \<leftarrow> lookup_init (m_cache E) (m_curl E) (m_doc E sources) (w_lookup w);
         let w = w\<lparr>w_lookup := k\<rparr> in
         if rc \<noteq> 0 then fail E J ''Could not initialize lookup'' w
         else do {
           w \<leftarrow> say E ''initialized lookup'' w;
           f \<leftarrow> deref (cf_msn_lookup_location (w_config w));
           f \<leftarrow> f;
           (rc, ms) \<leftarrow> msnl_read_file (m_text E) f (w_msn w);
           w \<leftarrow> say E (if rc \<noteq> 0 then ''Could not open msn lookup file'' else ''loaded msn lookup file'') (w\<lparr>w_msn := ms\<rparr>);
           Some (Inr w) } } } }"

text \<open>The threads and the area codes. A failed \<open>fritz_startup\<close> returns without \<open>_shutdown\<close>.\<close>

definition start_threads :: "main_env \<Rightarrow> joins \<Rightarrow> world \<Rightarrow> progress option" where
  "start_threads E J w =
     (let (rc, s) = cisrv_run (cf_ci2_port (w_config w)) (m_srv_pipe E) (m_srv_thread E) (sys_server (sys_of w));
          w = put_sys ((sys_of w)\<lparr>sys_server := s, sys_phase := Binding, sys_sending := False\<rparr>) w in
      if rc \<noteq> 0 then fail E J ''call shutdown after failed cisrv_run'' w
      else do {
        w \<leftarrow> say E ''started ci srv'' w;
        let w = j_started J w;
            (rc, s) = fritz_startup (m_attempt E (w_fds w)) (m_thread E) (fritz_of w); w = put_fritz s w in
        if rc \<noteq> 0 then do { w \<leftarrow> say E ''failed to listen (fritz)'' w; Some (Inl (1, w)) }
        else do {
          w \<leftarrow> say E ''listening to fritz'' w;
          let w = j_listening J w in do {
          f \<leftarrow> deref (cf_areacodes_location (w_config w));
          (rc, st) \<leftarrow> ci_read_area_codes_from_file (m_glib E) (m_text E) f ci_init_area_codes;
          let w = w\<lparr>w_areas := st, w_area_file := own_opt (ac_filename st)\<rparr> in
          if rc \<noteq> 0 then fail E J ''call shutdown after failed ci_read_area_codes_from_file'' w
          else do { w \<leftarrow> say E ''initialized area codes'' w; Some (Inr w) } } } })"

definition andthen :: "progress option \<Rightarrow> (world \<Rightarrow> progress option) \<Rightarrow> progress option" where
  "andthen p f = do { r \<leftarrow> p; case r of Inl e \<Rightarrow> Some (Inl e) | Inr w \<Rightarrow> f w }"

definition start_main :: "main_env \<Rightarrow> joins \<Rightarrow> world \<Rightarrow> progress option" where
  "start_main E J w =
     andthen (andthen (andthen (start_config E w) (start_process E)) (start_components E J)) (start_threads E J)"

text \<open>\<open>loop\<close> is what happens while \<open>g_main_loop_run\<close> runs, until a signal ends it.\<close>

definition main_quit :: "main_env \<Rightarrow> world \<Rightarrow> world option" where
  "main_quit E w = do { w \<leftarrow> say E ''quit main loop'' w; say E ''terminating, call shutdown'' w }"

definition main :: "main_env \<Rightarrow> joins \<Rightarrow> (world \<Rightarrow> world) \<Rightarrow> world \<Rightarrow> (int \<times> world) option" where
  "main E J loop w = do {
     r \<leftarrow> start_main E J w;
     case r of
       Inl e \<Rightarrow> Some e
     | Inr w \<Rightarrow> do {
         w \<leftarrow> main_quit E (loop w);
         w \<leftarrow> shutdown_all E J w;
         Some (0, w) } }"

section \<open>The parts of the start\<close>

text \<open>What one part leaves as it was.\<close>

definition same_parts :: "world \<Rightarrow> world \<Rightarrow> bool" where
  "same_parts w w' \<longleftrightarrow> w_fds w' = w_fds w \<and> w_fritz w' = w_fritz w \<and> w_sys w' = w_sys w \<and> w_db w' = w_db w \<and>
     w_lookup w' = w_lookup w \<and> w_msn w' = w_msn w \<and> w_areas w' = w_areas w \<and> w_area_file w' = w_area_file w \<and>
     w_todo w' = w_todo w"

lemma same_parts_trans: "same_parts u v \<Longrightarrow> same_parts v w \<Longrightarrow> same_parts u w"
  by (simp add: same_parts_def)

lemma say_same: "say E text w = Some w' \<Longrightarrow>
    same_parts w w' \<and> w_config w' = w_config w \<and> w_daemon w' = w_daemon w \<and> w_files w' = w_files w"
  by (auto simp: say_def c_bind same_parts_def)

lemma say_kept: "say E text w = Some w' \<Longrightarrow> kept w w'"
  by (auto simp: say_def c_bind kept_def split: owned.splits)

lemma kept_msn: "kept w (w\<lparr>w_msn := ms\<rparr>)"
  by (simp add: kept_def split: owned.splits)

lemma same_parts_order: "same_parts w w' \<Longrightarrow> in_order h g w' \<longleftrightarrow> in_order h g w"
  by (rule in_order_cong) (simp_all add: same_parts_def)

lemma say_live:
  assumes "cf_live (w_config w)"
  shows "\<exists>g. say E text w = Some (w\<lparr>w_log := g\<rparr>)"
  using log_live[OF assms, of "m_append E" "m_stamp E (length (log_out (w_log w)))" "text @ [LF]" "w_log w"]
  by (auto simp: say_def)

lemma fail_Inl: "fail E J text w \<noteq> Some (Inr w')"
  by (simp add: fail_def c_bind)

lemma start_config_Inr:
  assumes "start_config E w = Some (Inr w')"
  shows "same_parts w w' \<and> cf_live (w_config w') \<and> w_daemon w' = w_daemon w \<and> w_files w' = w_files w"
proof -
  obtain rc c where c: "parse_cmd_line (m_opts E) (w_config w) = (rc, c)" by fastforce
  have l: "cf_live c" using parse_live[of "m_opts E" "w_config w"] c by simp
  obtain f where f: "deref (cf_configfile c) = Some f" using assms by (auto simp: start_config_def c c_bind Let_def split: if_splits)
  obtain rc2 c2 where c2: "config_load (m_keyfile E) f c = (rc2, c2)" by fastforce
  have "cf_live c2" using load_live[OF l, of "m_keyfile E" f] c2 by simp
  then show ?thesis
    using assms by (auto simp: start_config_def c f c2 c_bind Let_def same_parts_def split: if_splits dest!: say_same)
qed

lemma start_process_Inr:
  assumes "start_process E w = Some (Inr w')"
  shows "same_parts w w' \<and> w_config w' = w_config w \<and>
    (pid_file (w_daemon w) = None \<longrightarrow> pid_file (w_daemon w') \<noteq> Some [])"
  using assms
  by (auto simp: start_process_def start_daemon_def c_bind Let_def same_parts_def split: prod.splits if_splits option.splits)

text \<open>After the components: the two that own descriptors are as their start leaves them.\<close>

lemma start_components_Inr:
  assumes "start_components E J w = Some (Inr w')"
  shows "\<exists>host s1 s2 rc. deref (cf_fritz_host (w_config w)) = Some host \<and>
    fritz_init host (cf_fritz_port (w_config w)) (m_netlink E) (m_pipe E) (fritz_of w) = (0, s1) \<and>
    cisrv_init (m_srv_sock E) ((sys_server (w_sys w))\<lparr>cs_open := open_fds s1\<rparr>) = (0, s2) \<and>
    w_fritz w' = s1 \<and> sys_server (w_sys w') = s2 \<and> w_fds w' = cs_open s2 \<and>
    dbhandler_init (m_db E) (w_db w) = Some (rc, w_db w') \<and>
    lookup_init (m_cache E) (m_curl E) (m_doc E (the (deref (cf_lookup_sources_location (w_config w))))) (w_lookup w) = Some (0, w_lookup w') \<and>
    w_config w' = w_config w \<and> w_todo w' = Owned [] \<and> w_area_file w' = w_area_file w \<and> w_daemon w' = w_daemon w \<and>
    w_files w' = w_files w"
proof -
  obtain host where h: "deref (cf_fritz_host (w_config w)) = Some host"
    using assms by (auto simp: start_components_def c_bind Let_def)
  obtain rc1 s1 where s1: "fritz_init host (cf_fritz_port (w_config w)) (m_netlink E) (m_pipe E) (fritz_of w) = (rc1, s1)" by fastforce
  obtain rc2 s2 where s2: "cisrv_init (m_srv_sock E) ((sys_server (w_sys w))\<lparr>cs_open := open_fds s1\<rparr>) = (rc2, s2)" by fastforce
  have 0: "fritz_of (w\<lparr>w_todo := t\<rparr>) = fritz_of w" for t by (simp add: fritz_of_def)
  have 1: "rc1 = 0" using assms by (auto simp: start_components_def h c_bind Let_def 0 s1 fail_Inl split: if_splits)
  let ?w1 = "put_fritz s1 (w\<lparr>w_todo := Owned []\<rparr>)"
  obtain w2 where w2: "say E ''initialized fritz'' ?w1 = Some w2"
    using assms by (auto simp: start_components_def h c_bind Let_def 0 s1 1)
  note q2 = say_same[OF w2]
  have v: "sys_server (sys_of w2) = (sys_server (w_sys w))\<lparr>cs_open := open_fds s1\<rparr>"
    using q2 by (simp add: same_parts_def sys_of_def with_open_def put_fritz_def)
  have 2: "rc2 = 0" using assms by (auto simp: start_components_def h c_bind Let_def 0 s1 1 w2 v s2 fail_Inl split: if_splits)
  let ?w3 = "put_sys ((sys_of w2)\<lparr>sys_server := s2\<rparr>) w2"
  note start = start_components_def h c_bind Let_def 0 s1 1 w2 v s2 2 fail_Inl
  obtain w4 where w4: "say E ''initialized cisrv'' ?w3 = Some w4" using assms by (auto simp: start split: if_splits)
  obtain rc3 db where db: "dbhandler_init (m_db E) (w_db w4) = Some (rc3, db)"
    using assms by (auto simp: start w4 split: if_splits)
  obtain w5 where w5: "say E (if rc3 \<noteq> 0 then ''Could not initialize dbhandler'' else ''initialized dbhandler'') (w4\<lparr>w_db := db\<rparr>) = Some w5"
    using assms by (auto simp: start w4 db split: if_splits)
  obtain src where src: "deref (cf_lookup_sources_location (w_config w5)) = Some src"
    using assms w5 by (auto simp: start w4 db split: if_splits)
  obtain k where k: "lookup_init (m_cache E) (m_curl E) (m_doc E src) (w_lookup w5) = Some (0, k)"
    using assms w5 by (auto simp: start w4 db src split: if_splits)
  obtain w6 where w6: "say E ''initialized lookup'' (w5\<lparr>w_lookup := k\<rparr>) = Some w6"
    using assms w5 by (auto simp: start w4 db src k split: if_splits)
  have w': "\<exists>t ms. say E t (w6\<lparr>w_msn := ms\<rparr>) = Some w'"
    using assms w5 by (auto simp: start w4 db src k w6 split: if_splits)
  obtain t ms where t: "say E t (w6\<lparr>w_msn := ms\<rparr>) = Some w'" using w' by blast
  show ?thesis
    using say_same[OF w4] say_same[OF w5] say_same[OF w6] say_same[OF t] q2 h s1 1 s2 2 db src k
    by (simp add: same_parts_def put_fritz_def put_sys_def)
qed

text \<open>
  After the threads: \<open>a\<close> when the server's thread has been started, \<open>b\<close> when the connection is
  made, \<open>c\<close> when both threads run.
\<close>

lemma start_threads_Inr:
  assumes "start_threads E J w = Some (Inr w')"
  shows "\<exists>s1 s2 a c f.
    cisrv_run (cf_ci2_port (w_config w)) (m_srv_pipe E) (m_srv_thread E) (sys_server (sys_of w)) = (0, s1) \<and>
    same_parts (put_sys ((sys_of w)\<lparr>sys_server := s1, sys_phase := Binding, sys_sending := False\<rparr>) w) a \<and> kept w a \<and>
    fritz_startup (m_attempt E (w_fds (j_started J a))) (m_thread E) (fritz_of (j_started J a)) = (0, s2) \<and>
    same_parts (put_fritz s2 (j_started J a)) c \<and> kept (j_started J a) c \<and>
    same_parts ((j_listening J c)\<lparr>w_areas := w_areas w', w_area_file := own_opt f\<rparr>) w' \<and>
    kept ((j_listening J c)\<lparr>w_area_file := own_opt f\<rparr>) w'"
proof -
  obtain rc1 s1 where s1: "cisrv_run (cf_ci2_port (w_config w)) (m_srv_pipe E) (m_srv_thread E) (sys_server (sys_of w)) = (rc1, s1)" by fastforce
  have 1: "rc1 = 0" using assms by (auto simp: start_threads_def s1 Let_def fail_Inl split: if_splits)
  let ?w1 = "put_sys ((sys_of w)\<lparr>sys_server := s1, sys_phase := Binding, sys_sending := False\<rparr>) w"
  obtain a where a: "say E ''started ci srv'' ?w1 = Some a"
    using assms by (auto simp: start_threads_def s1 1 Let_def c_bind)
  let ?b = "j_started J a"
  obtain rc2 s2 where s2: "fritz_startup (m_attempt E (w_fds ?b)) (m_thread E) (fritz_of ?b) = (rc2, s2)" by fastforce
  note start = start_threads_def s1 1 Let_def c_bind a s2 fail_Inl
  have 2: "rc2 = 0" using assms by (auto simp: start split: if_splits)
  obtain c where c: "say E ''listening to fritz'' (put_fritz s2 ?b) = Some c" using assms by (auto simp: start 2)
  let ?c = "j_listening J c"
  obtain p rc st where st: "ci_read_area_codes_from_file (m_glib E) (m_text E) p ci_init_area_codes = Some (rc, st)"
    "say E ''initialized area codes'' (?c\<lparr>w_areas := st, w_area_file := own_opt (ac_filename st)\<rparr>) = Some w'"
    using assms by (auto simp: start 2 c split: if_splits)
  have k: "kept w a" "kept ?b c"
    by (rule kept_trans[OF kept_put(2) say_kept[OF a]], rule kept_trans[OF kept_put(1) say_kept[OF c]])
  have e: "same_parts (?c\<lparr>w_areas := w_areas w', w_area_file := own_opt (ac_filename st)\<rparr>) w'"
    "kept (?c\<lparr>w_area_file := own_opt (ac_filename st)\<rparr>) w'"
    using say_same[OF st(2)] say_kept[OF st(2)] by (simp_all add: same_parts_def kept_def)
  show ?thesis
    by (rule exI[of _ s1], rule exI[of _ s2], rule exI[of _ a], rule exI[of _ c], rule exI[of _ "ac_filename st"])
       (use s1 1 say_same[OF a] s2 2 say_same[OF c] k e in simp)
qed

section \<open>After the start\<close>

text \<open>The static variables of the program before main.\<close>

definition at_start :: "world \<Rightarrow> bool" where
  "at_start w \<longleftrightarrow> w_db w = no_db \<and> w_lookup w = no_lookup \<and> w_area_file w = Null \<and> w_todo w = Null \<and>
     w_daemon w = no_daemon \<and> cs_state (sys_server (w_sys w)) = CISrvStateUninitialized"

text \<open>The kernel gives out descriptors that are not open; -1 is an error.\<close>

definition pipe_fds :: "(int \<times> int) option \<Rightarrow> int list" where
  "pipe_fds p = (case p of None \<Rightarrow> [] | Some (r, w) \<Rightarrow> [r, w])"

definition given_fds :: "main_env \<Rightarrow> int list" where
  "given_fds E = filter (\<lambda>fd. fd \<noteq> - 1) [m_netlink E, m_srv_sock E] @
     pipe_fds (m_pipe E) @ pipe_fds (m_srv_pipe E)"

definition fresh_fds :: "main_env \<Rightarrow> int set \<Rightarrow> bool" where
  "fresh_fds E T \<longleftrightarrow> distinct (given_fds E) \<and> list_all (\<lambda>fd. 0 \<le> fd \<and> fd \<notin> T) (given_fds E) \<and> - 1 \<notin> T"

definition attempts_ok :: "(int set \<Rightarrow> attempt) \<Rightarrow> bool" where
  "attempts_ok at \<longleftrightarrow> (\<forall>T. new_sock (at T) = - 1 \<or> 0 \<le> new_sock (at T) \<and> new_sock (at T) \<notin> T)"

text \<open>
  What the other threads do are steps; before the connection is made, and while main waits for the
  server's thread at the end, they are those of the server and of the rest of the program.
\<close>

definition joins_ok :: "cinet \<Rightarrow> joins \<Rightarrow> bool" where
  "joins_ok L J \<longleftrightarrow> (\<forall>w t. j_fritz J w = Some t \<longrightarrow> (world_step L)\<^sup>*\<^sup>* w t) \<and>
     (\<forall>w t. j_server J w = Some t \<longrightarrow> (rest_step L)\<^sup>*\<^sup>* w t) \<and>
     (\<forall>w. (rest_step L)\<^sup>*\<^sup>* w (j_started J w)) \<and> (\<forall>w. (world_step L)\<^sup>*\<^sup>* w (j_listening J w))"

text \<open>Everything main holds can be released.\<close>

definition resources_ok :: "world \<Rightarrow> bool" where
  "resources_ok w \<longleftrightarrow> cf_live (w_config w) \<and> db_live (w_db w) \<and>
     (\<exists>k. lookup_cleanup (w_lookup w) = Some k \<and> lookup_gone k) \<and> w_area_file w \<noteq> Freed \<and> (\<exists>q. w_todo w = Owned q) \<and>
     pid_file (w_daemon w) \<noteq> Some []"

lemma andthen_Inr: "andthen p f = Some (Inr w') \<longleftrightarrow> (\<exists>w. p = Some (Inr w) \<and> f w = Some (Inr w'))"
  by (cases p; cases "the p") (auto simp: andthen_def split: sum.splits)

lemma start_main_Inr:
  assumes "start_main E J w = Some (Inr w')"
  obtains w1 w2 w3 where "start_config E w = Some (Inr w1)" and "start_process E w1 = Some (Inr w2)"
    and "start_components E J w2 = Some (Inr w3)" and "start_threads E J w3 = Some (Inr w')"
  using assms by (auto simp: start_main_def andthen_Inr)

lemma server_started:
  assumes "0 \<le> nl" and "sock \<noteq> - 1" and "fritz_init host prt nl pp s0 = (0, s1)"
    and "cisrv_init sock (y0\<lparr>cs_open := open_fds s1\<rparr>) = (0, y1)" and "cisrv_run prt2 qq ok y1 = (0, y2)"
    and "- 1 \<notin> open_fds s0" and "distinct (nl # sock # pipe_fds pp @ pipe_fds qq)"
    and "list_all (\<lambda>fd. 0 \<le> fd \<and> fd \<notin> open_fds s0) (nl # sock # pipe_fds pp @ pipe_fds qq)"
    and "w_fritz w = s1" and "sys_server (w_sys w) = y2" and "w_fds w = cs_open y2"
  shows "starting_ok w"
proof -
  define T where "T = open_fds s0"
  obtain r p where pp: "pp = Some (r, p)"
    using assms(3) by (cases pp) (auto simp: fritz_init_def Let_def split: option.splits if_splits)
  obtain r2 p2 where qq: "qq = Some (r2, p2)" using assms(5) by (cases qq) (auto simp: cisrv_run_def split: if_splits)
  have d: "distinct [nl, sock, r, p, r2, p2]" "{nl, sock, r, p, r2, p2} \<inter> T = {}" "0 \<le> nl" "0 \<le> sock" "0 \<le> r" "0 \<le> p" "0 \<le> r2" "0 \<le> p2"
    using assms(7,8) by (auto simp: pipe_fds_def pp qq T_def)
  have i: "fixed_ok T s1 \<and> \<not> has s1 Connected \<and> srv_sock s1 = 0 \<and> open_fds s1 = T \<union> {srv_netlink s1, fdpipe_r s1, fdpipe_w s1}"
    by (rule init_fixed[OF assms(3)[unfolded pp] T_def[symmetric] d(3,5,6)]) (use d(2) in auto)
  have n: "idle_own s1 = {nl, r, p}"
    using assms(3) pp by (auto simp: idle_own_def fritz_init_def Let_def set_flag_def split: option.splits if_splits)
  define F where "F = T \<union> {nl, r, p}"
  have F: "open_fds s1 = F" using i n by (auto simp: F_def idle_own_def)
  have ok: ok using assms(5) by (auto simp: cisrv_run_def qq Let_def split: if_splits)
  have y2: "y2 = snd (cisrv_run prt2 (Some (r2, p2)) True (snd (cisrv_init sock (y0\<lparr>cs_open := F\<rparr>))))"
    using assms(4,5) qq ok F by simp
  have "starts sock r2 p2 prt2 (y0\<lparr>cs_open := F\<rparr>) y2" using y2 d assms(6) by (auto simp: starts_def F_def T_def)
  from starts_steady[OF this] have st: "steady y2" "foreign y2 = F" by simp_all
  have own: "set (own y2) = {sock, r2, p2}" "cs_open y2 = F \<union> {sock, r2, p2}"
    using assms(2) by (auto simp: y2 own_def cisrv_init_def cisrv_run_def)
  have U: "w_fds w = F \<union> {sock, r2, p2}" using own(2) assms(11) by simp
  have 1: "idle_ok (w_fds w - idle_own (w_fritz w)) (fritz_of w)"
    using i n d by (auto simp: idle_ok_def fixed_ok_def fritz_of_def assms(9) U F_def idle_own_def)
  have srv: "srv_own (w_sys w) = {sock, r2, p2}" using own(1) assms(10) by (simp add: srv_own_def)
  have g: "srv_good F (w_sys w)" using st assms(10) by (simp add: srv_good_def)
  have m: "- 1 \<notin> w_fds w" using d assms(6) by (auto simp: U F_def T_def)
  have 2: "srv_good (w_fds w - srv_own (w_sys w)) (sys_of w)"
    unfolding sys_of_def by (rule srv.in_table[OF g]) (use srv m U in auto)
  have "idle_own (w_fritz w) \<inter> srv_own (w_sys w) = {}" using d n srv assms(9) by auto
  then show ?thesis using 1 2 m by (simp add: in_order_def)
qed

lemma connection_started:
  assumes "starting_ok w" and "attempts_ok at" and "fritz_startup (at (w_fds w)) ok (fritz_of w) = (rc, s)"
  shows "world_ok (put_fritz s w)"
proof -
  let ?B = "w_fds w - idle_own (w_fritz w)"
  have i: "idle_ok ?B (fritz_of w)" and g: "srv_good (w_fds w - srv_own (w_sys w)) (sys_of w)"
    and x: "idle_own (w_fritz w) \<inter> srv_own (w_sys w) = {}" and m: "- 1 \<notin> w_fds w"
    using assms(1) by (simp_all add: in_order_def)
  have fr: "fresh (at (w_fds w)) (fritz_of w)"
    using spec[OF assms(2)[unfolded attempts_ok_def], of "w_fds w"] by (auto simp: fresh_def)
  have "open_fds (fritz_of w) = ?B \<union> {srv_netlink (fritz_of w), fdpipe_r (fritz_of w), fdpipe_w (fritz_of w)}"
    using i by (auto simp: idle_ok_def idle_own_def)
  from startup_link_ok[OF _ _ fr this, of ok] have l: "link_ok ?B s" using i by (simp add: idle_ok_def assms(3))
  note lo = link_ok_own[OF l]
  have own: "srv_own (w_sys w) \<subseteq> ?B" using idle.in_order_subset(2)[OF assms(1)] x by blast
  have m2: "- 1 \<notin> open_fds s" using lo m by auto
  have sub: "srv_own (sys_of w) \<subseteq> open_fds s" using own lo by auto
  have "srv_good (open_fds s - srv_own (sys_of w)) (with_open (open_fds s) (sys_of w))"
    by (rule srv.in_table[OF g sub m2])
  then have 1: "srv_good (open_fds s - srv_own (w_sys w)) (with_open (open_fds s) (w_sys w))"
    by (simp add: sys_of_def with_open_def srv_own_def)
  have "open_fds s - link_own s = ?B" using lo by blast
  then have "link_ok (open_fds s - link_own s) (s\<lparr>open_fds := open_fds s\<rparr>)" using l by simp
  moreover have "link_own s \<inter> srv_own (w_sys w) = {}" using own lo by blast
  ultimately show ?thesis using 1 m2 by (simp add: in_order_def fritz_of_def sys_of_def put_fritz_def)
qed

lemma resources_kept: "kept w w' \<Longrightarrow> resources_ok w \<Longrightarrow> resources_ok w'"
  by (auto simp: kept_def resources_ok_def)

lemma components_ok:
  assumes "start_config E w0 = Some (Inr w1)" and "start_process E w1 = Some (Inr w2)"
    and "start_components E J w2 = Some (Inr w3)" and "at_start w0"
  shows "resources_ok w3 \<and> w_fds w2 = w_fds w0"
proof -
  note c = start_config_Inr[OF assms(1)] and p = start_process_Inr[OF assms(2)]
  have s: "same_parts w0 w2" "cf_live (w_config w2)" using c p same_parts_trans by auto
  have pid: "pid_file (w_daemon w2) \<noteq> Some []" using c p assms(4) by (simp add: at_start_def no_daemon_def)
  obtain rc where k:
    "dbhandler_init (m_db E) (w_db w2) = Some (rc, w_db w3)"
    "lookup_init (m_cache E) (m_curl E) (m_doc E (the (deref (cf_lookup_sources_location (w_config w2))))) (w_lookup w2) = Some (0, w_lookup w3)"
    "w_config w3 = w_config w2" "w_todo w3 = Owned []" "w_daemon w3 = w_daemon w2" "w_area_file w3 = w_area_file w2"
    using start_components_Inr[OF assms(3)] by blast
  have w2: "db_live (w_db w2)" "w_lookup w2 = no_lookup" "w_area_file w2 = Null"
    using s(1) assms(4) no_db_live by (simp_all add: same_parts_def at_start_def)
  have "db_live (w_db w3)" using dbhandler_init_live[OF w2(1), of "m_db E"] k(1) by auto
  moreover have "\<exists>k. lookup_cleanup (w_lookup w3) = Some k \<and> lookup_gone k"
    using lookup_init_cleanup[OF k(2)[unfolded w2(2)]] by (simp split: if_splits)
  ultimately show ?thesis using s pid k(3-6) w2(3) by (simp add: resources_ok_def same_parts_def)
qed

lemma threads_ok:
  assumes "start_components E J w2 = Some (Inr w3)" and "fresh_fds E (w_fds w2)"
    and "cisrv_run (cf_ci2_port (w_config w3)) (m_srv_pipe E) (m_srv_thread E) (sys_server (sys_of w3)) = (0, y2)"
  shows "starting_ok (put_sys ((sys_of w3)\<lparr>sys_server := y2, sys_phase := Binding, sys_sending := False\<rparr>) w3)"
proof -
  obtain host s1 y1 where k:
    "fritz_init host (cf_fritz_port (w_config w2)) (m_netlink E) (m_pipe E) (fritz_of w2) = (0, s1)"
    "cisrv_init (m_srv_sock E) ((sys_server (w_sys w2))\<lparr>cs_open := open_fds s1\<rparr>) = (0, y1)"
    "w_fritz w3 = s1" "sys_server (w_sys w3) = y1" "w_fds w3 = cs_open y1"
    using start_components_Inr[OF assms(1)] by blast
  have y1: "sys_server (sys_of w3) = y1" using k(4,5) by (simp add: sys_of_def with_open_def)
  have nl: "m_netlink E \<noteq> - 1" "m_srv_sock E \<noteq> - 1"
    using k(1,2) by (auto simp: fritz_init_def cisrv_init_def Let_def split: option.splits)
  have g: "distinct (m_netlink E # m_srv_sock E # pipe_fds (m_pipe E) @ pipe_fds (m_srv_pipe E))"
    "list_all (\<lambda>fd. 0 \<le> fd \<and> fd \<notin> open_fds (fritz_of w2)) (m_netlink E # m_srv_sock E # pipe_fds (m_pipe E) @ pipe_fds (m_srv_pipe E))"
    "- 1 \<notin> open_fds (fritz_of w2)"
    using assms(2) nl by (simp_all add: fresh_fds_def given_fds_def)
  have n0: "0 \<le> m_netlink E" using g(2) by simp
  show ?thesis
    by (rule server_started[OF n0 nl(2) k(1,2) assms(3)[unfolded y1] g(3,1,2)]) (simp_all add: k(3))
qed

lemma start_running:
  assumes "start_main E J w0 = Some (Inr w)" and "at_start w0" and "fresh_fds E (w_fds w0)"
    and "attempts_ok (m_attempt E)" and "joins_ok L J"
  shows "world_ok w \<and> resources_ok w"
proof -
  obtain w1 w2 w3 where c: "start_config E w0 = Some (Inr w1)" and p: "start_process E w1 = Some (Inr w2)"
    and k: "start_components E J w2 = Some (Inr w3)" and t: "start_threads E J w3 = Some (Inr w)"
    by (rule start_main_Inr[OF assms(1)])
  have r3: "resources_ok w3" "fresh_fds E (w_fds w2)" using components_ok[OF c p k assms(2)] assms(3) by simp_all
  obtain y2 s2 a d f where t:
    "cisrv_run (cf_ci2_port (w_config w3)) (m_srv_pipe E) (m_srv_thread E) (sys_server (sys_of w3)) = (0, y2)"
    "same_parts (put_sys ((sys_of w3)\<lparr>sys_server := y2, sys_phase := Binding, sys_sending := False\<rparr>) w3) a" "kept w3 a"
    "fritz_startup (m_attempt E (w_fds (j_started J a))) (m_thread E) (fritz_of (j_started J a)) = (0, s2)"
    "same_parts (put_fritz s2 (j_started J a)) d" "kept (j_started J a) d"
    "same_parts ((j_listening J d)\<lparr>w_areas := w_areas w, w_area_file := own_opt f\<rparr>) w"
    "kept ((j_listening J d)\<lparr>w_area_file := own_opt f\<rparr>) w"
    using start_threads_Inr[OF t] by blast
  have j: "(rest_step L)\<^sup>*\<^sup>* a (j_started J a)" "(world_step L)\<^sup>*\<^sup>* d (j_listening J d)"
    using assms(5) by (simp_all add: joins_ok_def)
  have "starting_ok a" using threads_ok[OF k r3(2) t(1)] same_parts_order[OF t(2)] by blast
  then have "starting_ok (j_started J a)" by (rule idle.rest_steps_keep[OF j(1)])
  then have "world_ok (put_fritz s2 (j_started J a))" by (rule connection_started[OF _ assms(4) t(4)])
  then have "world_ok d" using same_parts_order[OF t(5)] by blast
  then have "world_ok (j_listening J d)" by (rule world_steps_ok[OF j(2)])
  then have "world_ok ((j_listening J d)\<lparr>w_areas := w_areas w, w_area_file := own_opt f\<rparr>)"
    by (simp cong: in_order_cong)
  then have 1: "world_ok w" using same_parts_order[OF t(7)] by blast
  have "kept a (j_started J a)" "kept d (j_listening J d)" using rest_steps[OF j(1)] steps_kept j(2) by blast+
  then have "kept w3 (j_listening J d)" using t(3,6) by (blast intro: kept_trans)
  from resources_kept[OF this r3(1)] have "resources_ok ((j_listening J d)\<lparr>w_area_file := own_opt f\<rparr>)"
    by (simp add: resources_ok_def)
  from resources_kept[OF t(8) this] show ?thesis using 1 by simp
qed

section \<open>The end\<close>

lemma resources_steps: "(world_step L)\<^sup>*\<^sup>* w w' \<Longrightarrow> resources_ok w \<Longrightarrow> resources_ok w'"
  using resources_kept steps_kept by blast

definition joined :: "joins \<Rightarrow> world \<Rightarrow> world option" where
  "joined J w = do {
     a \<leftarrow> release (w_area_file w);
     w \<leftarrow> stop_fritz J (w\<lparr>w_area_file := a\<rparr>);
     join_server J w }"

text \<open>After \<open>fritz_shutdown\<close> there is no connection and no thread for it.\<close>

definition fritz_stopped :: "fritz_server \<Rightarrow> bool" where
  "fritz_stopped s \<longleftrightarrow> \<not> has s Connected \<and> \<not> has s Listening"

lemma shutdown_stops:
  assumes "if has s Listening then link_ok B t else link_ok B s"
  shows "link_ok B (fritz_shutdown (\<lambda>_. t) s) \<and> fritz_stopped (fritz_shutdown (\<lambda>_. t) s)"
proof -
  define u where "u = (if has s Listening then clear_flag Listening (t\<lparr>thread := False\<rparr>) else s)"
  have u: "link_ok B u" "\<not> has u Listening" using assms by (auto simp: u_def link_ok_fields split: if_splits)
  have "fritz_shutdown (\<lambda>_. t) s = (if has u Connected then close_sock (clear_flag Connected u) else u)"
    by (simp add: fritz_shutdown_def u_def Let_def close_clear)
  then show ?thesis using u link_ok_close[of B u] by (simp add: fritz_stopped_def)
qed

lemma stop_fritz_ok:
  assumes "world_ok w" and "joins_ok L J" and "stop_fritz J w = Some w'"
  shows "world_ok w' \<and> fritz_stopped (w_fritz w') \<and> kept w w'"
proof -
  let ?s = "fritz_of w" and ?r = "put_fritz (shutdown_request (fritz_of w)) w"
  obtain t where t: "(if has ?s Listening then j_fritz J ?r else Some w) = Some t"
    "w' = put_fritz (fritz_shutdown (\<lambda>_. fritz_of t) ?s) t"
    using assms(3) by (auto simp: stop_fritz_def c_bind Let_def)
  have r: "world_step L w ?r" by (rule world_step.fritz[OF link_step.quit])
  have st: "(world_step L)\<^sup>*\<^sup>* w t"
  proof (cases "has ?s Listening")
    case True
    then have "(world_step L)\<^sup>*\<^sup>* ?r t" using t(1) assms(2) by (simp add: joins_ok_def)
    then show ?thesis using r by (rule converse_rtranclp_into_rtranclp[rotated])
  next
    case False
    then show ?thesis using t(1) by simp
  qed
  then have ok: "world_ok t" using world_steps_ok assms(1) by blast
  have "if has ?s Listening then link_ok (w_fds t - link_own (w_fritz t)) (fritz_of t)
      else link_ok (w_fds t - link_own (w_fritz t)) ?s"
    using ok t(1) by (auto simp: in_order_def)
  note s = shutdown_stops[OF this]
  then have "world_ok w'" unfolding t(2) by (intro running.in_order_link[OF ok]) simp
  moreover have "kept w w'" unfolding t(2) by (rule kept_trans[OF steps_kept[OF st] kept_put(1)])
  ultimately show ?thesis using s t(2) by simp
qed

lemma join_server_ok:
  assumes "world_ok w" and "joins_ok L J" and "join_server J w = Some t"
  shows "world_ok t \<and> w_fritz t = w_fritz w \<and> kept w t"
proof -
  let ?p = "put_sys ((sys_of w)\<lparr>sys_server := (sys_server (sys_of w))\<lparr>cs_pipe := cs_pipe (sys_server (sys_of w)) @ ''disconnect''\<rparr>\<rparr>) w"
  have p: "rest_step L w ?p" by (rule rest_step.pipes)
  have "(rest_step L)\<^sup>*\<^sup>* w t"
    using assms(2,3) p by (auto simp: join_server_def joins_ok_def Let_def split: if_splits intro: converse_rtranclp_into_rtranclp)
  from rest_steps[OF this] show ?thesis using world_steps_ok[of L w t] assms(1) steps_kept[of L w t] by blast
qed

lemma cleanup_stopped:
  assumes "link_ok B s" and "fritz_stopped s"
  shows "open_fds (fritz_cleanup (\<lambda>s. s) s) = B"
proof -
  have "fritz_shutdown (\<lambda>s. s) s = s" using assms(2) by (simp add: fritz_shutdown_def fritz_stopped_def)
  then have "open_fds (fritz_cleanup (\<lambda>s. s) s) = open_fds s - set (snd (netutil_close_fd (fdpipe_r s))) -
      set (snd (netutil_close_fd (fdpipe_w s))) - set (netutil_cleanup (srv_netlink s))"
    by (simp add: fritz_cleanup_def Let_def case_prod_beta)
  also have "\<dots> = B" using assms by (intro cleanup_closes[OF _ _ refl refl]) (simp_all add: fritz_stopped_def)
  finally show ?thesis .
qed

text \<open>The descriptors: the server closes its own, then the connection closes its own.\<close>

definition all_end :: "main_env \<Rightarrow> world \<Rightarrow> bool" where
  "all_end E t \<longleftrightarrow> list_all (peer_ends (m_peers E)) (map cl_sock (cs_clients (sys_server (w_sys t))))"

lemma stop_server_ok:
  assumes "world_ok w" and "joins_ok L J" and "join_server J w = Some t" and "sends_ok (m_sends E)"
  shows "\<exists>s. stop_server E J w = (if all_end E t then Some (put_sys ((sys_of t)\<lparr>sys_server := s\<rparr>) t) else None) \<and>
    cs_open s = w_fds t - srv_own (w_sys t)"
proof -
  have t: "world_ok t" using join_server_ok[OF assms(1-3)] by simp
  have g: "steady (sys_server (sys_of w))" "steady (sys_server (sys_of t))" "foreign (sys_server (sys_of t)) = w_fds t - srv_own (w_sys t)"
    using assms(1) t by (auto simp: in_order_def srv_good_def)
  have c: "cs_clients (sys_server (sys_of t)) = cs_clients (sys_server (w_sys t))" by (simp add: sys_of_def with_open_def)
  obtain s where s: "cisrv_disconnect (m_write E) (m_sends E) (m_peers E) (\<lambda>_. Some (sys_server (sys_of t))) (sys_server (sys_of w)) =
      (if all_end E t then Some s else None)" "cs_open s = w_fds t - srv_own (w_sys t)"
    using disconnect[OF assms(4) g(1) refl g(2), of "m_write E" "m_peers E"] g(3) c unfolding all_end_def by auto
  then show ?thesis by (intro exI[of _ s]) (simp add: stop_server_def assms(3))
qed

lemma clean_fritz_ok:
  assumes "world_ok t" and "fritz_stopped (w_fritz t)" and "w_fritz u = w_fritz t" and "w_fds u = w_fds t - srv_own (w_sys t)"
  shows "w_fds (clean_fritz u) = others t \<and> kept u (clean_fritz u)"
proof -
  have l: "link_ok (w_fds t - link_own (w_fritz t)) (fritz_of t)" and d: "link_own (w_fritz t) \<inter> srv_own (w_sys t) = {}"
    and m: "- 1 \<notin> w_fds t" using assms(1) by (simp_all add: in_order_def)
  have sub: "link_own (fritz_of t) \<subseteq> w_fds u" using running.in_order_subset(1)[OF assms(1)] d assms(4) by auto
  have "link_ok (w_fds u - link_own (fritz_of t)) ((fritz_of t)\<lparr>open_fds := w_fds u\<rparr>)"
    using m assms(4) by (intro link.in_table[OF l sub]) simp
  moreover have "(fritz_of t)\<lparr>open_fds := w_fds u\<rparr> = fritz_of u" using assms(3) by (simp add: fritz_of_def)
  ultimately have "link_ok (w_fds u - link_own (w_fritz t)) (fritz_of u)" by simp
  moreover have "fritz_stopped (fritz_of u)" using assms(2,3) by (simp add: fritz_stopped_def fritz_of_def)
  ultimately have "open_fds (fritz_cleanup (\<lambda>s. s) (fritz_of u)) = w_fds u - link_own (w_fritz t)"
    by (rule cleanup_stopped)
  then show ?thesis using assms(4) by (auto simp: clean_fritz_def others_def)
qed

lemma free_queue_ok:
  assumes "cf_live (w_config w)" and "w_todo w = Owned q"
  shows "\<exists>g. free_queue E w = Some (w\<lparr>w_todo := Freed, w_log := g\<rparr>)"
proof -
  let ?w = "w\<lparr>w_todo := Freed\<rparr>"
  obtain g where "say E (''There were '' @ dec (pop_all q 0) @ '' sets not written to database'') ?w = Some (?w\<lparr>w_log := g\<rparr>)"
    using say_live[of ?w] assms(1) by fastforce
  then show ?thesis
    using assms(2) by (cases "pop_all q 0 = 0") (auto simp: free_queue_def Let_def intro: exI[of _ "w_log w"])
qed

text \<open>Everything is released: the state \<open>w'\<close> at the end, \<open>w\<close> before.\<close>

definition released :: "world \<Rightarrow> world \<Rightarrow> bool" where
  "released w w' \<longleftrightarrow> w_db w' = no_db \<and> lookup_gone (w_lookup w') \<and> list_all gone (cf_strings (w_config w')) \<and>
     gone (w_area_file w') \<and> w_todo w' = Freed \<and>
     w_files w' = (case pid_file (w_daemon w) of None \<Rightarrow> w_files w | Some p \<Rightarrow> (w_files w)(p := None))"

lemma shutdown_result:
  assumes "world_ok w" and "resources_ok w" and "joins_ok L J" and "joined J w = Some t" and "sends_ok (m_sends E)"
  shows "\<exists>w'. shutdown_all E J w = (if all_end E t then Some w' else None) \<and> w_fds w' = others t \<and> released w w'"
proof -
  obtain a where a: "release (w_area_file w) = Some a" "gone a"
    using assms(2) release_live[of "w_area_file w"] by (auto simp: resources_ok_def)
  let ?w0 = "w\<lparr>w_area_file := a\<rparr>"
  obtain w1 where w1: "stop_fritz J ?w0 = Some w1" "join_server J w1 = Some t"
    using assms(4) by (auto simp: joined_def a c_bind)
  have ok0: "world_ok ?w0" using assms(1) by (simp add: in_order_def fritz_of_def sys_of_def)
  note f = stop_fritz_ok[OF ok0 assms(3) w1(1)]
  note g = join_server_ok[OF conjunct1[OF f] assms(3) w1(2)]
  obtain s where s: "stop_server E J w1 = (if all_end E t then Some (put_sys ((sys_of t)\<lparr>sys_server := s\<rparr>) t) else None)"
    "cs_open s = w_fds t - srv_own (w_sys t)"
    using stop_server_ok[OF conjunct1[OF f] assms(3) w1(2) assms(5)] by blast
  let ?u = "(put_sys ((sys_of t)\<lparr>sys_server := s\<rparr>) t)\<lparr>w_msn := msnl_cleanup (w_msn (put_sys ((sys_of t)\<lparr>sys_server := s\<rparr>) t))\<rparr>"
  have "w_fds (clean_fritz ?u) = others t \<and> kept ?u (clean_fritz ?u)"
    by (rule clean_fritz_ok[of t]) (use f g s(2) in \<open>simp_all add: put_sys_def\<close>)
  moreover have "kept t ?u" by (simp add: kept_def put_sys_def split: owned.splits)
  ultimately have u: "w_fds (clean_fritz ?u) = others t" "kept ?w0 (clean_fritz ?u)"
    using f g by (auto intro: kept_trans)
  define v where "v = clean_fritz ?u"
  have r: "cf_live (w_config v)" "db_live (w_db v)" "\<exists>k. lookup_cleanup (w_lookup v) = Some k \<and> lookup_gone k"
    "w_area_file v = a" "w_daemon v = w_daemon w" "w_files v = w_files w"
    using assms(2) u(2) by (simp_all add: v_def resources_ok_def kept_def)
  have todo: "\<exists>q. w_todo v = Owned q" using assms(2) u(2) by (auto simp: v_def resources_ok_def kept_def)
  obtain k where k: "lookup_cleanup (w_lookup v) = Some k" "lookup_gone k" using r(3) by blast
  obtain q where q: "w_todo v = Owned q" using todo by blast
  let ?x = "v\<lparr>w_db := no_db, w_lookup := k\<rparr>"
  obtain l where l: "free_queue E ?x = Some (?x\<lparr>w_todo := Freed, w_log := l\<rparr>)"
    using free_queue_ok[of ?x q E] r(1) q by auto
  obtain c where c: "config_free (w_config v) = Some c" "list_all gone (cf_strings c)"
    using config_free_live[OF r(1)] by blast
  obtain rc d fs where d: "stop_daemon (w_daemon v) (w_files v) = (rc, d, fs)" using prod_cases3 by blast
  have fs: "fs = (case pid_file (w_daemon w) of None \<Rightarrow> w_files w | Some p \<Rightarrow> (w_files w)(p := None))"
    using d r(5,6) assms(2) by (auto simp: stop_daemon_def resources_ok_def split: option.splits list.splits)
  let ?y = "?x\<lparr>w_todo := Freed, w_log := l, w_config := c, w_daemon := d, w_files := fs\<rparr>"
  have "shutdown_all E J w = (if all_end E t then Some ?y else None)"
    by (simp add: shutdown_all_def ci_free_area_codes_def a(1) w1(1) s(1) Let_def v_def[symmetric] cleanup_live[OF r(2)] k(1) l c(1) d)
  moreover have "w_fds ?y = others t" using u(1) by (simp add: v_def)
  moreover have "released w ?y" using k(2) c(2) r(4) a(2) fs by (simp add: released_def)
  ultimately show ?thesis by blast
qed

lemma quit_same:
  assumes "main_quit E w = Some w'"
  shows "kept w w' \<and> same_parts w w'"
proof -
  obtain u where u: "say E ''quit main loop'' w = Some u" "say E ''terminating, call shutdown'' u = Some w'"
    using assms by (auto simp: main_quit_def c_bind)
  show ?thesis
    using kept_trans[OF say_kept[OF u(1)] say_kept[OF u(2)]] same_parts_trans say_same[OF u(1)] say_same[OF u(2)] by blast
qed

text \<open>A start that fails in \<open>fritz_init\<close> leaves zeros for the ends of the pipe.\<close>

lemma zero_state: "srv_state s = 0 \<Longrightarrow> \<not> has s f"
  by (simp add: has_def)

lemma zero_cleanup:
  assumes "srv_state s = 0" and "fdpipe_r s = 0" and "fdpipe_w s = 0"
  shows "open_fds (fritz_cleanup (\<lambda>s. s) s) = open_fds s - {0} - set (netutil_cleanup (srv_netlink s))"
  using assms by (simp add: fritz_cleanup_def netutil_close_fd_def)

lemma fritz_init_fails:
  assumes "fst (fritz_init host prt nl pp s) \<noteq> 0" and "nl = - 1 \<or> 0 \<le> nl \<and> nl \<notin> open_fds s"
  shows "srv_state (snd (fritz_init host prt nl pp s)) = 0 \<and>
    open_fds (fritz_cleanup (\<lambda>s. s) (snd (fritz_init host prt nl pp s))) = open_fds s - {0}"
proof (cases host)
  case None
  then show ?thesis by (simp add: fritz_init_def zero_cleanup netutil_cleanup_def)
next
  case (Some h)
  show ?thesis
  proof (cases "nl = - 1")
    case True
    then show ?thesis by (simp add: fritz_init_def zero_cleanup netutil_cleanup_def Some)
  next
    case False
    then have "pp = None" using assms(1) by (cases pp) (auto simp: fritz_init_def Some Let_def)
    then show ?thesis
      using False assms(2) by (simp add: fritz_init_def zero_cleanup netutil_cleanup_def Some) blast
  qed
qed

lemma not_started_shutdown:
  assumes "at_start w" and "cf_live (w_config w)" and "srv_state s = 0"
  shows "\<exists>w'. fail E J text (put_fritz s (w\<lparr>w_todo := Owned []\<rparr>)) = Some (Inl (1, w')) \<and>
    w_fds w' = open_fds (fritz_cleanup (\<lambda>s. s) s)"
proof -
  let ?w = "put_fritz s (w\<lparr>w_todo := Owned []\<rparr>)"
  have "cf_live (w_config ?w)" using assms(2) by (simp add: put_fritz_def)
  from say_live[OF this] obtain g where g: "say E text ?w = Some (?w\<lparr>w_log := g\<rparr>)" by blast
  let ?v = "?w\<lparr>w_log := g\<rparr>"
  have f: "fritz_of (?v\<lparr>w_area_file := Null\<rparr>) = s" by (simp add: fritz_of_def put_fritz_def)
  have st: "fritz_shutdown j s = s" for j using assms(3) by (simp add: fritz_shutdown_def zero_state)
  have 1: "stop_fritz J (?v\<lparr>w_area_file := Null\<rparr>) = Some (put_fritz s (?v\<lparr>w_area_file := Null\<rparr>))"
    unfolding stop_fritz_def f Let_def using st by (simp add: zero_state[OF assms(3)])
  let ?a = "put_fritz s (?v\<lparr>w_area_file := Null\<rparr>)"
  have y: "cs_state (sys_server (sys_of ?a)) = CISrvStateUninitialized"
    using assms(1) by (simp add: at_start_def sys_of_def with_open_def put_fritz_def)
  then have 2: "stop_server E J ?a = Some (put_sys (sys_of ?a) ?a)"
    by (simp add: stop_server_def join_server_def cisrv_disconnect_def Let_def)
  define b where "b = put_sys (sys_of ?a) ?a"
  define u where "u = clean_fritz (b\<lparr>w_msn := msnl_cleanup (w_msn b)\<rparr>)"
  have b: "w_fritz b = s" "w_fds b = open_fds s" by (simp_all add: b_def put_sys_def put_fritz_def sys_of_def with_open_def)
  have "(w_fritz b)\<lparr>open_fds := w_fds b\<rparr> = s" by (simp add: b)
  then have fds: "w_fds u = open_fds (fritz_cleanup (\<lambda>s. s) s)" by (simp add: u_def clean_fritz_def fritz_of_def)
  have "kept ?a b" unfolding b_def by (rule kept_put)
  moreover have "kept (b\<lparr>w_msn := msnl_cleanup (w_msn b)\<rparr>) u" unfolding u_def clean_fritz_def by (rule kept_put)
  ultimately have "kept ?a u" by (metis kept_trans kept_msn)
  then have r: "w_db u = no_db" "w_lookup u = no_lookup" "w_config u = w_config w" "\<exists>q. w_todo u = Owned q"
    using assms(1) by (simp_all add: kept_def put_fritz_def at_start_def)
  then obtain q where q: "w_todo u = Owned q" by blast
  have k: "lookup_cleanup no_lookup = Some no_lookup"
    by (simp add: lookup_cleanup_def no_lookup_def cidb_cleanup_def no_cache_def cirlw_cleanup_def)
  let ?x = "u\<lparr>w_db := no_db, w_lookup := no_lookup\<rparr>"
  obtain l where l: "free_queue E ?x = Some (?x\<lparr>w_todo := Freed, w_log := l\<rparr>)"
    using free_queue_ok[of ?x q E] assms(2) r(3) q by auto
  obtain c where c: "config_free (w_config u) = Some c" using config_free_live[of "w_config u"] assms(2) r by auto
  obtain rc d fs where d: "stop_daemon (w_daemon u) (w_files u) = (rc, d, fs)" using prod_cases3 by blast
  have "w_area_file ?v = Null" using assms(1) by (simp add: at_start_def put_fritz_def)
  then have "shutdown_all E J ?v = Some (?x\<lparr>w_todo := Freed, w_log := l, w_config := c, w_daemon := d, w_files := fs\<rparr>)"
    by (simp add: shutdown_all_def ci_free_area_codes_def 1 2 b_def[symmetric] Let_def u_def[symmetric] r(1,2) cleanup_live[OF no_db_live] k l c d)
  then show ?thesis using g fds by (simp add: fail_def)
qed

section \<open>Properties\<close>


text \<open>
  A machine on which everything works: no command line, no configuration file, so the defaults;
  one source, an empty file of area codes and no file of own numbers.
\<close>

definition sample_sqlite :: sqlite_answers where
  "sample_sqlite = \<lparr>sq_open = 0, sq_handle = True, sq_exec = (\<lambda>i. 0), sq_prepare = (\<lambda>i. 0)\<rparr>"

definition sample_attempts :: "int set \<Rightarrow> attempt" where
  "sample_attempts T = (if 6 \<in> T then good_attempt\<lparr>new_sock := - 1\<rparr> else good_attempt)"

definition sample_main :: main_env where
  "sample_main = \<lparr>m_opts = Some (False, False, [''fritz2cid'']), m_argv0 = ''fritz2cid'', m_keyfile = Map.empty,
     m_append = (\<lambda>f. True), m_stamp = (\<lambda>n. []), m_permissions = sample_permissions, m_fork = 0,
     m_netlink = 3, m_pipe = Some (4, 5), m_srv_sock = 7, m_srv_pipe = Some (8, 9), m_srv_thread = True, m_thread = True,
     m_db = sample_sqlite, m_cache = sample_sqlite, m_curl = True, m_doc = (\<lambda>f. Some (Some shipped_sources)),
     m_text = [''/usr/share/fritz2ci/vorwahl.dat'' \<mapsto> []], m_attempt = sample_attempts, m_glib = ascii,
     m_write = (\<lambda>m. ''bye''), m_sends = (\<lambda>fd w n. int n), m_peers = (\<lambda>fd. (True, [0]))\<rparr>"

definition sample_joins :: joins where
  "sample_joins = \<lparr>j_fritz = Some, j_server = Some, j_started = (\<lambda>w. w), j_listening = (\<lambda>w. w)\<rparr>"

definition sample_world :: world where
  "sample_world = \<lparr>w_config = zero_config, w_log = \<lparr>log_verbose = False, log_set = False, log_out = []\<rparr>,
     w_daemon = no_daemon, w_files = Map.empty, w_fds = {0, 1, 2}, w_fritz = no_server,
     w_sys = \<lparr>sys_server = no_ci_server, sys_db = new_database, sys_phase = Binding, sys_sending = False\<rparr>,
     w_db = no_db, w_lookup = no_lookup, w_msn = [], w_areas = ci_init_area_codes, w_area_file = Null, w_todo = Null\<rparr>"

lemma sample_start_ok:
  "at_start sample_world" "fresh_fds sample_main (w_fds sample_world)" "attempts_ok (m_attempt sample_main)"
  "joins_ok L sample_joins"
  by (simp_all add: at_start_def sample_world_def no_ci_server_def fresh_fds_def given_fds_def pipe_fds_def sample_main_def
      good_attempt_def attempts_ok_def sample_attempts_def joins_ok_def sample_joins_def)

lemma say_quiet: "\<not> log_verbose (w_log w) \<Longrightarrow> say E text w = Some w"
  by (simp add: say_def log_log_def)

definition sample_config :: Fritz2CIConfig where
  "sample_config = config_defaults (zero_config\<lparr>cf_configfile := Owned ''/etc/fritz2ci.conf''\<rparr>)"

lemma sample_config_started:
  "start_config sample_main sample_world =
     Some (Inr (sample_world\<lparr>w_config := sample_config, w_log := \<lparr>log_verbose = False, log_set = True, log_out = []\<rparr>\<rparr>))"
  by (simp add: start_config_def sample_main_def sample_world_def parse_cmd_line_def zero_config_def config_load_def
      sample_config_def log_set_verbose_def log_set_log_file_def say_quiet)

lemma sample_config_fields:
  "cf_fritz_host sample_config = Owned ''127.0.0.1''" "cf_daemon sample_config = False"
  "cf_lookup_sources_location sample_config = Owned ''/usr/share/fritz2ci/revlookup.xml''"
  "cf_msn_lookup_location sample_config = Owned ''/usr/share/fritz2ci/msn.dat''"
  "cf_areacodes_location sample_config = Owned ''/usr/share/fritz2ci/vorwahl.dat''"
  by (simp_all add: sample_config_def config_defaults_def zero_config_def)

definition sample_db :: db_handles where
  "sample_db = \<lparr>dh_db = Owned (), dh_stmts = [Owned (), Owned (), Owned (), Owned ()]\<rparr>"

definition sample_lookup_state :: lookup_state where
  "sample_lookup_state = \<lparr>lk_cache = \<lparr>ch_db = Owned (), ch_stmt = Owned ()\<rparr>, lk_curl = Owned (),
     lk_sources = [source_of shipped_source]\<rparr>"

lemma sample_handles:
  "dbhandler_init sample_sqlite no_db = Some (0, sample_db)"
  "lookup_init sample_sqlite True (Some (Some shipped_sources)) no_lookup = Some (0, sample_lookup_state)"
proof -
  show "dbhandler_init sample_sqlite no_db = Some (0, sample_db)"
    by (simp add: dbhandler_init_def sample_sqlite_def no_db_def connection_def prepared_def sample_db_def numeral_eq_Suc)
  have "node_name shipped_sources = ''cirevlookupsources''" by (simp add: shipped_sources_def)
  from load_file_of[OF this shipped_elements(2)]
  show "lookup_init sample_sqlite True (Some (Some shipped_sources)) no_lookup = Some (0, sample_lookup_state)"
    by (simp add: lookup_init_def cidb_init_def cirlw_init_def no_lookup_def connect_no_cache opens_cache_def sample_sqlite_def
        connection_def shipped_elements sample_lookup_state_def)
qed

text \<open>The connection and the server after each part of their start.\<close>

definition sample_link0 :: fritz_server where
  "sample_link0 = snd (fritz_init (Some ''127.0.0.1'') 1012 3 (Some (4, 5)) no_server)"

definition sample_listener0 :: CIServer where
  "sample_listener0 = snd (cisrv_init 7 (no_ci_server\<lparr>cs_open := open_fds sample_link0\<rparr>))"

definition sample_listener :: CIServer where
  "sample_listener = snd (cisrv_run 63690 (Some (8, 9)) True sample_listener0)"

definition sample_link :: fritz_server where
  "sample_link = snd (fritz_startup good_attempt True (sample_link0\<lparr>open_fds := cs_open sample_listener\<rparr>))"

lemma sample_parts:
  "fritz_init (Some ''127.0.0.1'') 1012 3 (Some (4, 5)) no_server = (0, sample_link0)"
  "cisrv_init 7 (no_ci_server\<lparr>cs_open := open_fds sample_link0\<rparr>) = (0, sample_listener0)"
  "cisrv_run 63690 (Some (8, 9)) True sample_listener0 = (0, sample_listener)"
  "fritz_startup good_attempt True (sample_link0\<lparr>open_fds := cs_open sample_listener\<rparr>) = (0, sample_link)"
  by (simp_all add: sample_link0_def sample_listener_def sample_listener0_def sample_link_def fritz_init_def cisrv_init_def
      cisrv_run_def fritz_startup_def no_ci_server_def)

lemma sample_fds:
  "cs_open sample_listener = {0, 1, 2, 3, 4, 5, 7, 8, 9}" "own sample_listener = [7, 8, 9]" "cs_clients sample_listener = []"
  "\<not> has sample_link Listening" "link_own sample_link = {3, 4, 5, 6}" "open_fds sample_link = {0, 1, 2, 3, 4, 5, 6, 7, 8, 9}"
  by (auto simp: sample_link_def sample_link0_def sample_listener_def sample_listener0_def fritz_startup_def fritz_try_connect_def fritz_connect_def
      fritz_init_def cisrv_init_def cisrv_run_def no_ci_server_def good_attempt_def own_def no_server_def link_own_def Let_def
      has_def set_flag_def)

lemma sample_link_fields:
  "srv_sock sample_link = 6" "srv_netlink sample_link = 3" "fdpipe_r sample_link = 4" "fdpipe_w sample_link = 5"
  "has sample_link Connected"
  by (simp_all add: sample_link_def sample_link0_def fritz_startup_def fritz_try_connect_def fritz_connect_def fritz_init_def
      good_attempt_def no_server_def Let_def has_def set_flag_def)

lemma sample_areas:
  "ci_read_area_codes_from_file G [f \<mapsto> []] (Some f) st = Some (0, st\<lparr>ac_filename := Some f\<rparr>)"
  by (simp add: ci_read_area_codes_from_file_def index_loop_def while_fgets_open)

lemma sample_main_fields:
  "m_netlink sample_main = 3" "m_pipe sample_main = Some (4, 5)" "m_srv_sock sample_main = 7" "m_srv_pipe sample_main = Some (8, 9)"
  "m_srv_thread sample_main" "m_thread sample_main" "m_db sample_main = sample_sqlite" "m_cache sample_main = sample_sqlite"
  "m_curl sample_main" "m_doc sample_main f = Some (Some shipped_sources)" "m_attempt sample_main = sample_attempts"
  "m_text sample_main = [''/usr/share/fritz2ci/vorwahl.dat'' \<mapsto> []]" "m_sends sample_main = (\<lambda>fd w n. int n)"
  by (simp_all add: sample_main_def)

lemma sample_threads:
  "j_started sample_joins w = w" "j_listening sample_joins w = w" "sample_attempts (cs_open sample_listener) = good_attempt"
  using sample_fds(1) by (simp_all add: sample_joins_def sample_attempts_def)

lemma no_msn_file:
  "msnl_read_file [''/usr/share/fritz2ci/vorwahl.dat'' \<mapsto> []] ''/usr/share/fritz2ci/msn.dat'' xs = Some (1, xs)"
  by (simp add: msnl_read_file_def)

lemma sample_start:
  "\<exists>w. start_main sample_main sample_joins sample_world = Some (Inr w) \<and> w_fritz w = sample_link \<and> sys_server (w_sys w) = sample_listener \<and>
     w_fds w = {0, 1, 2, 3, 4, 5, 6, 7, 8, 9} \<and> \<not> log_verbose (w_log w) \<and> w_area_file w = Owned ''/usr/share/fritz2ci/vorwahl.dat'' \<and>
     sys_db (w_sys w) = new_database \<and> w_todo w = Owned [] \<and> \<not> sys_sending (w_sys w)"
proof -
  let ?w1 = "sample_world\<lparr>w_config := sample_config, w_log := \<lparr>log_verbose = False, log_set = True, log_out = []\<rparr>\<rparr>"
  have 1: "start_process sample_main ?w1 = Some (Inr ?w1)" by (simp add: start_process_def sample_config_fields)
  have p: "cf_fritz_port sample_config = 1012" "cf_ci2_port sample_config = 63690"
    by (simp_all add: sample_config_def config_defaults_def)
  have f: "no_server\<lparr>open_fds := {0, 1, 2}\<rparr> = no_server" by (simp add: no_server_def)
  have "\<exists>w. start_components sample_main sample_joins ?w1 = Some (Inr w) \<and> w_fritz w = sample_link0 \<and>
      sys_server (sys_of w) = sample_listener0 \<and> w_config w = sample_config \<and> \<not> log_verbose (w_log w) \<and>
      sys_db (sys_of w) = new_database \<and> w_todo w = Owned []"
    unfolding start_components_def
    by (simp add: sample_config_fields p f sample_parts sample_main_fields say_quiet fritz_of_def sys_of_def with_open_def put_fritz_def put_sys_def
        sample_world_def sample_handles no_msn_file)
  then obtain w where w: "start_components sample_main sample_joins ?w1 = Some (Inr w)" "w_fritz w = sample_link0"
    "sys_server (sys_of w) = sample_listener0" "w_config w = sample_config" "\<not> log_verbose (w_log w)" "sys_db (sys_of w) = new_database"
    "w_todo w = Owned []" by blast
  have "\<exists>v. start_threads sample_main sample_joins w = Some (Inr v) \<and> w_fritz v = sample_link \<and> sys_server (w_sys v) = sample_listener \<and>
     w_fds v = open_fds sample_link \<and> \<not> log_verbose (w_log v) \<and> w_area_file v = Owned ''/usr/share/fritz2ci/vorwahl.dat'' \<and>
     sys_db (w_sys v) = new_database \<and> w_todo v = Owned [] \<and> \<not> sys_sending (w_sys v)"
    unfolding start_threads_def
    by (simp add: sample_config_fields p w sample_parts sample_main_fields sample_threads say_quiet put_fritz_def put_sys_def fritz_of_def sample_areas)
  then show ?thesis by (auto simp: start_main_def andthen_Inr sample_config_started 1 w(1) sample_fds)
qed




text \<open>
  C27: When the connection cannot be initialised - no host in the configuration, no netlink socket
  or no pipe - main ends with 1, and the clean-up has closed descriptor 0, the standard input, for
  the ends of the pipe were never set.
\<close>

theorem failed_init_closes_stdin:
  assumes "at_start w" and "cf_live (w_config w)" and "deref (cf_fritz_host (w_config w)) = Some host"
    and "fst (fritz_init host (cf_fritz_port (w_config w)) (m_netlink E) (m_pipe E) (fritz_of w)) \<noteq> 0"
    and "m_netlink E = - 1 \<or> 0 \<le> m_netlink E \<and> m_netlink E \<notin> w_fds w"
  shows "\<exists>w'. start_components E J w = Some (Inl (1, w')) \<and> w_fds w' = w_fds w - {0}"
proof -
  obtain rc s where s: "fritz_init host (cf_fritz_port (w_config w)) (m_netlink E) (m_pipe E) (fritz_of w) = (rc, s)" by fastforce
  have "srv_state s = 0" "open_fds (fritz_cleanup (\<lambda>s. s) s) = w_fds w - {0}"
    using fritz_init_fails[OF assms(4)] assms(5) s by simp_all
  from not_started_shutdown[OF assms(1,2) this(1), of E J "''Could not initialize fritz''"] this(2)
  obtain w' where w': "fail E J ''Could not initialize fritz'' (put_fritz s (w\<lparr>w_todo := Owned []\<rparr>)) = Some (Inl (1, w'))"
    "w_fds w' = w_fds w - {0}" by auto
  have "fritz_of (w\<lparr>w_todo := Owned []\<rparr>) = fritz_of w" by (simp add: fritz_of_def)
  then show ?thesis using w' assms(4) s by (simp add: start_components_def assms(3))
qed

theorem failed_init_closes_stdin_witness:
  "\<exists>w'. start_components (sample_main\<lparr>m_netlink := - 1\<rparr>) sample_joins (sample_world\<lparr>w_config := sample_config\<rparr>) = Some (Inl (1, w')) \<and>
    w_fds w' = {1, 2}"
proof -
  let ?w = "sample_world\<lparr>w_config := sample_config\<rparr>"
  have "at_start ?w" "cf_live (w_config ?w)"
    using sample_start_ok(1) by (simp_all add: at_start_def cf_live_def cf_strings_def sample_config_def config_defaults_def zero_config_def)
  note f = failed_init_closes_stdin[OF this, where host = "Some ''127.0.0.1''" and E = "sample_main\<lparr>m_netlink := - 1\<rparr>" and J = sample_joins]
  have "{0, 1, 2} - {0} = {1, 2 :: int}" by auto
  then show ?thesis using f by (simp add: sample_config_fields fritz_init_def sample_world_def)
qed

end
