(* ===== verification/Calls.thy ===== *)
theory Calls
  imports Server Lookup Msn
begin

text \<open>
  What happens on a call, the part of \<open>main.c\<close> behind the call monitor: a message becomes a data set,
  is written to the backup file, announced to the clients, completed by the reverse lookup, recorded in
  the database and announced again. It puts the other components together; what
  they take from outside is collected in one environment.
\<close>

section \<open>Dates\<close>

text \<open>
  \<open>strftime\<close> with a maximum: the text and its zero, when they fit; otherwise the array is
  indeterminate. The formats of the source, for a time within its ranges.
\<close>

definition strftime :: "nat \<Rightarrow> char list \<Rightarrow> string \<Rightarrow> char list option" where
  "strftime m a s = (if length s < m then strcpy a s else None)"

definition hms :: "tm \<Rightarrow> string" where
  "hms t = clock (nat (tm_hour t)) (nat (tm_min t)) (nat (tm_sec t))"

definition ymd :: "tm \<Rightarrow> string" where
  "ymd t = iso_date (nat (tm_year t + 1900)) (nat (tm_mon t + 1)) (nat (tm_mday t))"

definition dmy :: "tm \<Rightarrow> string" where
  "dmy t = pad 2 (nat (tm_mday t)) @ CHR ''.'' # pad 2 (nat (tm_mon t + 1)) @ CHR ''.'' # pad 4 (nat (tm_year t + 1900))"

definition compact :: "tm \<Rightarrow> string" where
  "compact t = pad 2 (nat (tm_year t mod 100)) @ pad 2 (nat (tm_mon t + 1)) @ pad 2 (nat (tm_mday t)) @
     pad 2 (nat (tm_hour t)) @ pad 2 (nat (tm_min t)) @ pad 2 (nat (tm_sec t))"

text \<open>\<open>t\<close> is the local time, \<open>us\<close> the microseconds.\<close>

definition generate_msg_id :: "tm \<Rightarrow> nat \<Rightarrow> char list option \<Rightarrow> char list option option" where
  "generate_msg_id t us i =
     (case i of
        None \<Rightarrow> Some None
      | Some a \<Rightarrow> do {
          a \<leftarrow> strftime 16 a (compact t);
          a \<leftarrow> put a 12 (take 3 (pad 3 (us div 1000 mod 1000)) @ [NUL]);
          Some (Some a) })"

section \<open>State\<close>

text \<open>
  The parts of the program a call changes: the server, the two databases, the queue of calls that
  could not be recorded, and the backup file.
\<close>

record program =
  p_server :: CIServer
  p_db :: database
  p_cache :: "cache_row list"
  p_todo :: "CIDataSet list"
  p_backup :: string

record call_env =
  e_write :: "net_out \<Rightarrow> string"
  e_sends :: "CIServerMsg \<Rightarrow> sends"
  e_peers :: "CIServerMsg \<Rightarrow> peers"
  e_glib :: glib_ascii
  e_files :: "string \<Rightarrow> string option"
  e_areas :: areacodes
  e_msns :: "MSN_Lookup list"
  e_lookup :: lookup_env
  e_sources :: "CIRLSource list"
  e_source :: "64 word"
  e_find :: bool
  e_cache :: bool
  e_insert :: insert_env
  e_now :: tm
  e_usec :: nat
  e_stack :: "char list"
  e_location :: "string option"
  e_open :: bool

section \<open>Operations\<close>

text \<open>The file afterwards; the separator is the paragraph sign in UTF-8.\<close>

definition PARAGRAPH :: string where
  "PARAGRAPH = [CHR 0xC2, CHR 0xA7]"

definition quoted :: "string \<Rightarrow> string" where
  "quoted s = CHR 0x22 # s @ [CHR 0x22]"

definition backup_data_write :: "string option \<Rightarrow> bool \<Rightarrow> CIDataSet \<Rightarrow> string \<Rightarrow> string option" where
  "backup_data_write location opens d file =
     (if location = None then Some file
      else if \<not> opens then Some file
      else do {
        n \<leftarrow> cstr (cidsNumberComplete d);
        name \<leftarrow> cstr (cidsName d);
        date \<leftarrow> cstr (cidsDate d);
        time \<leftarrow> cstr (cidsTime d);
        m \<leftarrow> cstr (cidsMSN d);
        al \<leftarrow> cstr (cidsAlias d);
        service \<leftarrow> cstr (cidsService d);
        fx \<leftarrow> cstr (cidsFix d);
        Some (file @ n @ PARAGRAPH @ quoted name @ PARAGRAPH @ quoted date @ PARAGRAPH @ quoted time @ PARAGRAPH @
          m @ PARAGRAPH @ quoted al @ PARAGRAPH @ quoted service @ PARAGRAPH @ fx @ [LF]) })"

definition announce :: "call_env \<Rightarrow> CIServerMsg \<Rightarrow> CIDataSet \<Rightarrow> char list option \<Rightarrow> program \<Rightarrow> program option" where
  "announce E ty d msgid p = do {
     (rc, s) \<leftarrow> cisrv_broadcast_message (e_write E) (e_sends E ty) (e_peers E ty) ty (Some d) msgid (p_server p);
     Some (p\<lparr>p_server := s\<rparr>) }"

text \<open>The data set of a ringing telephone, up to its date.\<close>

definition ring_set :: "call_env \<Rightarrow> CIFritzCallMsg \<Rightarrow> CIDataSet option" where
  "ring_set E m = (let z = zero_dataset in do {
     time \<leftarrow> strftime 16 (cidsTime z) (hms (datetime m));
     s \<leftarrow> cstr (calling_number m);
     num \<leftarrow> strcpy (cidsNumberComplete z) s;
     s \<leftarrow> cstr (called_number m);
     line \<leftarrow> strcpy (cidsMSN z) s;
     service \<leftarrow> strcpy (cidsService z) ''Telefonie'';
     fx \<leftarrow> strcpy (cidsFix z) ''Fix'';
     (rc, r) \<leftarrow> ci_get_area_code (e_glib E) (e_files E) (e_areas E) (Some num)
       (Some \<lparr>numAreaCode = cidsAreaCode z, numNumber = cidsNumber z, strArea = cidsArea z\<rparr>);
     r \<leftarrow> r;
     s \<leftarrow> cstr (strArea r);
     name \<leftarrow> strcpy (cidsName z) s;
     (rc, al) \<leftarrow> msnl_lookup (e_msns E) (Some line) (Some (cidsAlias z));
     al \<leftarrow> al;
     Some (z\<lparr>cidsTime := time, cidsNumberComplete := num, cidsMSN := line, cidsService := service, cidsFix := fx,
       cidsAreaCode := numAreaCode r, cidsNumber := numNumber r, cidsArea := strArea r, cidsName := name,
       cidsAlias := al\<rparr>) })"

text \<open>The part that holds the lock of the queue.\<close>

definition record_call :: "call_env \<Rightarrow> CIDataSet \<Rightarrow> program \<Rightarrow> program option" where
  "record_call E d p =
     (if p_todo p = []
      then do {
        (rc, db) \<leftarrow> dbhandler_add_data (e_insert E) (Some d) (p_db p);
        Some (if rc \<noteq> 0 then p\<lparr>p_db := db, p_todo := p_todo p @ [d]\<rparr> else p\<lparr>p_db := db\<rparr>) }
      else Some (p\<lparr>p_todo := p_todo p @ [d]\<rparr>))"

definition handle_ring :: "call_env \<Rightarrow> CIFritzCallMsg \<Rightarrow> program \<Rightarrow> program option" where
  "handle_ring E m p = do {
     msgid \<leftarrow> generate_msg_id (e_now E) (e_usec E) (Some (e_stack E));
     d \<leftarrow> ring_set E m;
     date \<leftarrow> strftime 16 (cidsDate d) (dmy (datetime m));
     let d = d\<lparr>cidsDate := date\<rparr> in do {
     file \<leftarrow> backup_data_write (e_location E) (e_open E) d (p_backup p);
     date \<leftarrow> strftime 16 (cidsDate d) (ymd (datetime m));
     let d = d\<lparr>cidsDate := date\<rparr> in do {
     p \<leftarrow> announce E CIServerMsgMessage d msgid (p\<lparr>p_backup := file\<rparr>);
     (rc, d, rows) \<leftarrow> lookup_get_caller_data (e_lookup E) (e_sources E) (e_source E) (e_find E) (e_cache E) (p_cache p) d;
     p \<leftarrow> record_call E d (p\<lparr>p_cache := rows\<rparr>);
     p \<leftarrow> (if rc = 0 then announce E CIServerMsgUpdate d msgid p else Some p);
     announce E CIServerMsgComplete d msgid p } } }"

definition handle_call :: "call_env \<Rightarrow> CIFritzCallMsg \<Rightarrow> program \<Rightarrow> program option" where
  "handle_call E m p = (let z = zero_dataset in do {
     time \<leftarrow> strftime 16 (cidsTime z) (hms (datetime m));
     date \<leftarrow> strftime 16 (cidsDate z) (ymd (datetime m));
     s \<leftarrow> cstr (called_number m);
     num \<leftarrow> strcpy (cidsNumberComplete z) s;
     s \<leftarrow> cstr (calling_number m);
     line \<leftarrow> strcpy (cidsMSN z) s;
     (rc, al) \<leftarrow> msnl_lookup (e_msns E) (Some line) (Some (cidsAlias z));
     al \<leftarrow> al;
     announce E CIServerMsgCall (z\<lparr>cidsTime := time, cidsDate := date, cidsNumberComplete := num, cidsMSN := line,
       cidsAlias := al\<rparr>) None p })"

definition handle_fritz_message :: "call_env \<Rightarrow> CIFritzCallMsg option \<Rightarrow> program \<Rightarrow> program option" where
  "handle_fritz_message E cmsg p =
     (case cmsg of
        None \<Rightarrow> Some p
      | Some m \<Rightarrow>
          if msgtype m \<noteq> CALLMSGTYPE_CALL \<and> msgtype m \<noteq> CALLMSGTYPE_RING then Some p
          else if msgtype m = CALLMSGTYPE_RING then handle_ring E m p
          else handle_call E m p)"

section \<open>Lengths\<close>

definition tm_ok :: "tm \<Rightarrow> bool" where
  "tm_ok t \<longleftrightarrow> tm_sec t \<in> {0 .. 60} \<and> tm_min t \<in> {0 .. 59} \<and> tm_hour t \<in> {0 .. 23} \<and> tm_mday t \<in> {0 .. 31} \<and>
     tm_mon t \<in> {0 .. 11} \<and> tm_year t \<in> {0 .. 8099}"

lemma pad_no_NUL: "NUL \<notin> set (pad k n)"
  using pad_digits[of k n] not_dig_NUL by blast

lemma date_lengths:
  assumes "tm_ok t"
  shows "length (hms t) = 8" "length (ymd t) = 10" "length (dmy t) = 10" "length (compact t) = 12"
proof -
  have n: "nat (tm_sec t) < 10 ^ 2" "nat (tm_min t) < 10 ^ 2" "nat (tm_hour t) < 10 ^ 2" "nat (tm_mday t) < 10 ^ 2"
    "nat (tm_mon t + 1) < 10 ^ 2" "nat (tm_year t + 1900) < 10 ^ 4" "nat (tm_year t mod 100) < 10 ^ 2"
    using assms by (simp_all add: tm_ok_def nat_less_iff)
  note l = n[THEN length_pad]
  show "length (hms t) = 8" "length (ymd t) = 10" "length (dmy t) = 10" "length (compact t) = 12"
    using l by (simp_all add: hms_def ymd_def dmy_def compact_def clock_def iso_date_def)
qed

lemma date_texts: "NUL \<notin> set (hms t)" "NUL \<notin> set (ymd t)" "NUL \<notin> set (dmy t)" "NUL \<notin> set (compact t)"
  by (simp_all add: hms_def ymd_def dmy_def compact_def clock_def iso_date_def pad_no_NUL)

lemma strftime_text:
  "text_in n a \<Longrightarrow> length s < m \<Longrightarrow> m \<le> n \<Longrightarrow> NUL \<notin> set s \<Longrightarrow>
     \<exists>b. strftime m a s = Some b \<and> text_in n b \<and> cstr b = Some s"
  using text_in_strcpy[of n a s] by (auto simp: strftime_def)

text \<open>The id has 15 characters and fills the array.\<close>

lemma msg_id:
  assumes "tm_ok t" and "length a = 16"
  shows "\<exists>b i. generate_msg_id t us (Some a) = Some (Some b) \<and> b = i @ [NUL] \<and> length i = 15 \<and> NUL \<notin> set i"
proof -
  have c: "length (compact t) = 12" "NUL \<notin> set (compact t)" using date_lengths[OF assms(1)] date_texts by simp_all
  have p: "length (pad 3 (us div 1000 mod 1000)) = 3" by (simp add: length_pad)
  then have "generate_msg_id t us (Some a) = Some (Some (compact t @ pad 3 (us div 1000 mod 1000) @ [NUL]))"
    using assms(2) c(1) by (simp add: generate_msg_id_def strftime_def strcpy_def put_def)
  then show ?thesis using c p pad_no_NUL by (intro exI[of _ "compact t @ pad 3 (us div 1000 mod 1000)"] exI) auto
qed

section \<open>The data set of a call\<close>

definition entry_ok :: "MSN_Lookup \<Rightarrow> bool" where
  "entry_ok e \<longleftrightarrow> text_in 32 (msn e) \<and> text_in 256 (msn_alias e)"

lemma msnl_always:
  assumes "list_all entry_ok es" and "text_in 256 t" and "cstr a = Some m"
  shows "\<exists>rc t'. msnl_lookup es (Some a) (Some t) = Some (rc, Some t') \<and> text_in 256 t'"
proof -
  have "\<exists>rc t'. lookup_from es m (Some t) = Some (rc, Some t') \<and> text_in 256 t'"
    using assms(1)
  proof (induction es)
    case Nil
    then show ?case using assms(2) by simp
  next
    case (Cons e es)
    then have e: "text_in 32 (msn e)" "text_in 256 (msn_alias e)" by (simp_all add: entry_ok_def)
    obtain k where k: "cstr (msn e) = Some k" using text_in_cstr[OF e(1)] by blast
    obtain s where s: "cstr (msn_alias e) = Some s" "length s < 256" "NUL \<notin> set s" using text_in_cstr[OF e(2)] by blast
    obtain b where "strcpy t s = Some b" "text_in 256 b" using text_in_strcpy[OF assms(2) s(2,3)] by blast
    then show ?case using Cons k s(1) by auto
  qed
  then show ?thesis using assms(3) by (simp add: msnl_lookup_def)
qed

text \<open>What the call relies on: the tables that have been read fit their arrays.\<close>

definition tables_ok :: "call_env \<Rightarrow> bool" where
  "tables_ok E \<longleftrightarrow> glib_ascii_ok (e_glib E) \<and> areas_ok (e_glib E) (e_files E) (e_areas E) \<and> list_all entry_ok (e_msns E)"

definition msg_ok :: "CIFritzCallMsg \<Rightarrow> bool" where
  "msg_ok m \<longleftrightarrow> text_in 32 (calling_number m) \<and> text_in 32 (called_number m) \<and> tm_ok (datetime m)"

lemma zero_arrays:
  "text_in 32 (cidsNumberComplete zero_dataset)" "text_in 16 (cidsTime zero_dataset)" "text_in 16 (cidsDate zero_dataset)"
  "text_in 16 (cidsMSN zero_dataset)" "text_in 256 (cidsService zero_dataset)" "text_in 256 (cidsFix zero_dataset)"
  "text_in 256 (cidsName zero_dataset)" "text_in 256 (cidsAlias zero_dataset)"
  "texts \<lparr>numAreaCode = cidsAreaCode zero_dataset, numNumber = cidsNumber zero_dataset, strArea = cidsArea zero_dataset\<rparr>"
  using zero_ok(1) by (simp_all add: dataset_ok_def texts_def calls_fit_def text_in_def)

definition holds_ring :: "CIFritzCallMsg \<Rightarrow> CIDataSet \<Rightarrow> bool" where
  "holds_ring m d \<longleftrightarrow> dataset_ok d \<and> cstr (cidsNumberComplete d) = cstr (calling_number m) \<and>
     cstr (cidsMSN d) = cstr (called_number m) \<and> cstr (cidsTime d) = Some (hms (datetime m)) \<and>
     cstr (cidsService d) = Some ''Telefonie'' \<and> cstr (cidsFix d) = Some ''Fix'' \<and> cstr (cidsName d) = cstr (cidsArea d)"

lemma ring_set_cases:
  assumes "tables_ok E" and "msg_ok m" and "cstr (called_number m) = Some line"
  shows "if length line < 16 then \<exists>d. ring_set E m = Some d \<and> holds_ring m d else ring_set E m = None"
proof -
  note z = zero_arrays
  have m: "text_in 32 (calling_number m)" "tm_ok (datetime m)" using assms(2) by (simp_all add: msg_ok_def)
  have line: "NUL \<notin> set line" using assms(3) by (rule cstr_no_NUL)
  obtain time where time: "strftime 16 (cidsTime zero_dataset) (hms (datetime m)) = Some time" "text_in 16 time"
    "cstr time = Some (hms (datetime m))"
    using strftime_text[OF z(2), of "hms (datetime m)" 16] date_lengths[OF m(2)] date_texts by auto
  obtain s where s: "cstr (calling_number m) = Some s" "length s < 32" "NUL \<notin> set s" using text_in_cstr[OF m(1)] by blast
  obtain num where num: "strcpy (cidsNumberComplete zero_dataset) s = Some num" "text_in 32 num" "cstr num = Some s"
    using text_in_strcpy[OF z(1) s(2,3)] by blast
  show ?thesis
  proof (cases "length line < 16")
    case False
    then have "strcpy (cidsMSN zero_dataset) line = None" using z(4) by (simp add: strcpy_def put_def text_in_def)
    then show ?thesis using False by (simp add: ring_set_def Let_def time s(1) num(1) assms(3))
  next
    case True
    obtain msn where msn: "strcpy (cidsMSN zero_dataset) line = Some msn" "text_in 16 msn" "cstr msn = Some line"
      using text_in_strcpy[OF z(4) True line] by blast
    have tel: "length ''Telefonie'' < 256" "NUL \<notin> set ''Telefonie''" "length ''Fix'' < 256" "NUL \<notin> set ''Fix''" by simp_all
    obtain service where service: "strcpy (cidsService zero_dataset) ''Telefonie'' = Some service" "text_in 256 service"
      "cstr service = Some ''Telefonie''" using text_in_strcpy[OF z(5) tel(1,2)] by blast
    obtain fx where fx: "strcpy (cidsFix zero_dataset) ''Fix'' = Some fx" "text_in 256 fx" "cstr fx = Some ''Fix''"
      using text_in_strcpy[OF z(6) tel(3,4)] by blast
    obtain rc r where r: "ci_get_area_code (e_glib E) (e_files E) (e_areas E) (Some num) (Some \<lparr>numAreaCode = cidsAreaCode zero_dataset,
        numNumber = cidsNumber zero_dataset, strArea = cidsArea zero_dataset\<rparr>) = Some (rc, Some r)" "texts r"
      using area_code_always[of "e_glib E" "e_files E" "e_areas E" num, OF _ _ _ _ z(9)] assms(1) num(2)
      by (auto simp: tables_ok_def text_in_def)
    have r_in: "text_in 256 (strArea r)" "text_in 16 (numAreaCode r)" "text_in 32 (numNumber r)"
      using r(2) by (simp_all add: texts_def calls_fit_def text_in_def)
    obtain area where area: "cstr (strArea r) = Some area" "length area < 256" "NUL \<notin> set area"
      using text_in_cstr[OF r_in(1)] by blast
    obtain name where name: "strcpy (cidsName zero_dataset) area = Some name" "text_in 256 name" "cstr name = Some area"
      using text_in_strcpy[OF z(7) area(2,3)] by blast
    have "list_all entry_ok (e_msns E)" using assms(1) by (simp add: tables_ok_def)
    from msnl_always[OF this z(8) msn(3)]
    obtain rc' al where al: "msnl_lookup (e_msns E) (Some msn) (Some (cidsAlias zero_dataset)) = Some (rc', Some al)" "text_in 256 al"
      by blast
    have ok: "text_in 16 (cidsDate zero_dataset)" by (rule z(3))
    show ?thesis
      using True r_in ok time num msn service fx r(1) area(1) name al s(1)
      by (simp add: ring_set_def Let_def assms(3) holds_ring_def dataset_ok_def)
  qed
qed

lemma backup_written: "dataset_ok d \<Longrightarrow> \<exists>file'. backup_data_write location opens d file = Some file'"
proof -
  assume "dataset_ok d"
  then obtain n name date time m al service fx where "cstr (cidsNumberComplete d) = Some n" "cstr (cidsName d) = Some name"
    "cstr (cidsDate d) = Some date" "cstr (cidsTime d) = Some time" "cstr (cidsMSN d) = Some m" "cstr (cidsAlias d) = Some al"
    "cstr (cidsService d) = Some service" "cstr (cidsFix d) = Some fx"
    unfolding dataset_ok_def using text_in_cstr by meson
  then show ?thesis by (simp add: backup_data_write_def)
qed

section \<open>Announcing\<close>

text \<open>The message for version 3, and what each client is told.\<close>

definition ring_message :: "stage \<Rightarrow> CIDataSet \<Rightarrow> string \<Rightarrow> net_out" where
  "ring_message st d i = \<lparr>out_type = CI_NET_MSG_EVENT_RING,
     out_values = map (\<lambda>(k, a). (k, shown a)) (ring_texts d) @ [(''msgid'', Text (Some i)), (''stage'', Stage st)], out_list = []\<rparr>"

definition told :: "call_env \<Rightarrow> CIServerMsg \<Rightarrow> stage \<Rightarrow> CIDataSet \<Rightarrow> string \<Rightarrow> CIClient list \<Rightarrow> (int \<times> string) list" where
  "told E ty st d i cs = map (\<lambda>c. (cl_sock c,
     if modern c then e_write E (ring_message st d i) else CINetMessage ty (Some d))) cs"

lemma send_rest_all: "send_rest (\<lambda>w n. int n) len 0 = (False, len)"
  by (subst send_rest.simps) (subst send_rest.simps, simp add: Let_def)

lemma all_kept: "keeps (\<lambda>fd w n. int n) ty text old c \<longleftrightarrow> \<not> marked c"
  by (simp add: keeps_def reached_def send_rest_all)

lemma all_delivered: "ty \<noteq> CIServerMsgCall \<Longrightarrow> delivery (\<lambda>fd w n. int n) ty text old c = [(cl_sock c, if modern c then text else old)]"
  by (simp add: delivery_def broadcast_client_def modern_def send_rest_all Let_def)

lemma all_told: "ty \<noteq> CIServerMsgCall \<Longrightarrow>
    concat (map (delivery (\<lambda>fd w n. int n) ty (e_write E (ring_message st d i)) (CINetMessage ty (Some d))) cs) = told E ty st d i cs"
  by (induction cs) (simp_all add: told_def all_delivered)

lemma announce_all:
  assumes "dataset_ok d" and "stage_of ty = Some st" and "cstr a = Some i" and "e_sends E ty = (\<lambda>fd w n. int n)"
    and "list_all (\<lambda>c. \<not> marked c) (cs_clients (p_server p))"
  shows "announce E ty d (Some a) p = Some (p\<lparr>p_server :=
    (p_server p)\<lparr>cs_sent := cs_sent (p_server p) @ told E ty st d i (cs_clients (p_server p))\<rparr>\<rparr>)"
proof -
  let ?s = "p_server p"
  have A: "sends_ok (\<lambda>fd w n. int n)" by (simp add: sends_ok_def)
  have ty: "ty \<noteq> CIServerMsgCall" using assms(2) by auto
  have none: "filter marked (cs_clients ?s) = []" and all: "filter (\<lambda>c. \<not> marked c) (cs_clients ?s) = cs_clients ?s"
    using assms(5) by (auto simp: list_all_iff filter_empty_conv)
  note sent = all_told[OF ty]
  have m: "broadcast_content ty (Some d) (Some a) = Some (Some (ring_message st d i))"
    using ring_content[OF assms(1-3)] by (simp add: ring_message_def)
  have len: "length (CINetMessage ty (Some d)) < 2 ^ 63" using length_CINetMessage[OF assms(1)] by simp
  have "?s\<lparr>cs_clients := cs_clients ?s, cs_open := cs_open ?s, cs_sent := t\<rparr> = ?s\<lparr>cs_sent := t\<rparr>" for t by simp
  then show ?thesis
    unfolding announce_def assms(4) broadcast_message[OF A len m] all_kept
    by (simp add: sent none all Let_def)
qed

text \<open>Recording a call into an empty queue.\<close>

lemma record_written:
  assumes "dataset_ok d" and "tm_ok t" and "cstr (cidsDate d) = Some (ymd t)" and "cstr (cidsTime d) = Some (hms t)"
    and "list_all (binds (e_insert E)) [1, 2, 3, 4, 5, 6, 7]" and "steps (e_insert E)" and "\<not> insert_stepped (p_db p)"
    and "p_todo p = []"
  shows "\<exists>r. record_call E d p = Some (p\<lparr>p_db := (p_db p)\<lparr>cidata := cidata (p_db p) @ [r]\<rparr>\<rparr>) \<and> records d r"
proof -
  obtain xs ys where x: "cidsDate d = ymd t @ NUL # xs" "cidsTime d = hms t @ NUL # ys"
    using assms(3,4) by (auto simp: cstr_Some_iff)
  have b: "nat (tm_year t + 1900) < 10000" "nat (tm_mon t + 1) < 100" "nat (tm_mday t) < 100" "nat (tm_hour t) < 100"
    "nat (tm_min t) < 100" "nat (tm_sec t) < 100"
    using assms(2) by (simp_all add: tm_ok_def nat_less_iff)
  obtain v where v: "parse_datetime (mktime (e_insert E)) (Some (cidsDate d)) (Some (cidsTime d)) = Some v"
    unfolding x ymd_def hms_def using parse_datetime_text[OF b] by blast
  let ?r = "recorded_row d v\<lparr>call_id := next_id (cidata (p_db p))\<rparr>"
  have "dbhandler_add_data (e_insert E) (Some d) (p_db p) = Some (0, (p_db p)\<lparr>cidata := cidata (p_db p) @ [?r]\<rparr>)"
    using add_data_cases[OF assms(1) v, of "p_db p"] assms(5-7) by (simp add: insert_call_def)
  then show ?thesis
    using assms(8) records_recorded_row by (intro exI[of _ ?r]) (simp add: record_call_def)
qed

lemma ring_announcements:
  assumes "tables_ok E" and "msg_ok m" and "cstr (called_number m) = Some line" and "length line < 16"
    and "tm_ok (e_now E)" and "length (e_stack E) = 16"
    and "env_ok (e_lookup E)" and "\<forall>s \<in> set (e_sources E). source_ok (e_lookup E) s" and "\<forall>r \<in> set (p_cache p). row_ok r"
    and "e_sends E = (\<lambda>ty fd w n. int n)" and "list_all (\<lambda>c. \<not> marked c) (cs_clients (p_server p))"
    and "list_all (binds (e_insert E)) [1, 2, 3, 4, 5, 6, 7]" and "steps (e_insert E)" and "\<not> insert_stepped (p_db p)"
    and "p_todo p = []"
  shows "\<exists>d d' i rc r p'. handle_ring E m p = Some p' \<and> holds_ring m d \<and>
    cstr (cidsDate d) = Some (ymd (datetime m)) \<and> length i = 15 \<and>
    lookup_get_caller_data (e_lookup E) (e_sources E) (e_source E) (e_find E) (e_cache E) (p_cache p) d = Some (rc, d', p_cache p') \<and>
    cs_clients (p_server p') = cs_clients (p_server p) \<and>
    cs_sent (p_server p') = cs_sent (p_server p) @
      told E CIServerMsgMessage MultipartStageInit d i (cs_clients (p_server p)) @
      (if rc = 0 then told E CIServerMsgUpdate MultipartStageUpdate d' i (cs_clients (p_server p)) else []) @
      told E CIServerMsgComplete MultipartStageComplete d' i (cs_clients (p_server p)) \<and>
    cidata (p_db p') = cidata (p_db p) @ [r] \<and> records d' r \<and> p_todo p' = []"
proof -
  have t: "tm_ok (datetime m)" using assms(2) by (simp add: msg_ok_def)
  obtain a i where i: "generate_msg_id (e_now E) (e_usec E) (Some (e_stack E)) = Some (Some a)" "a = i @ [NUL]"
    "length i = 15" "NUL \<notin> set i" using msg_id[OF assms(5,6)] by blast
  then have ci: "cstr a = Some i" by simp
  obtain d0 where d0: "ring_set E m = Some d0" "holds_ring m d0" using ring_set_cases[OF assms(1-3)] assms(4) by auto
  then have "text_in 16 (cidsDate d0)" by (simp add: holds_ring_def dataset_ok_def)
  then obtain b1 where b1: "strftime 16 (cidsDate d0) (dmy (datetime m)) = Some b1" "text_in 16 b1"
    using strftime_text[of 16 "cidsDate d0" "dmy (datetime m)" 16] date_lengths[OF t] date_texts by auto
  obtain b2 where b2: "strftime 16 b1 (ymd (datetime m)) = Some b2" "text_in 16 b2" "cstr b2 = Some (ymd (datetime m))"
    using strftime_text[OF b1(2), of "ymd (datetime m)" 16] date_lengths[OF t] date_texts by auto
  define d where "d = d0\<lparr>cidsDate := b2\<rparr>"
  have d: "holds_ring m d" "cstr (cidsDate d) = Some (ymd (datetime m))" "dataset_ok d" "cstr (cidsTime d) = Some (hms (datetime m))"
    using d0(2) b2 by (simp_all add: d_def holds_ring_def dataset_ok_def)
  have "dataset_ok (d0\<lparr>cidsDate := b1\<rparr>)" using d0(2) b1(2) by (simp add: holds_ring_def dataset_ok_def)
  then obtain fl where fl: "backup_data_write (e_location E) (e_open E) (d0\<lparr>cidsDate := b1\<rparr>) (p_backup p) = Some fl"
    using backup_written by blast
  obtain num where num: "cstr (cidsNumberComplete d) = Some num"
    using d(3) text_in_cstr[of 32 "cidsNumberComplete d"] by (auto simp: dataset_ok_def)
  obtain rc d' rows where l: "lookup_get_caller_data (e_lookup E) (e_sources E) (e_source E) (e_find E) (e_cache E) (p_cache p) d
      = Some (rc, d', rows)" "dataset_ok d'" "d' = d\<lparr>cidsName := cidsName d'\<rparr>"
    using lookup_always[OF assms(7,8,9) d(3) num, of "e_source E" "e_find E" "e_cache E"] by blast
  have "cidsDate d' = cidsDate (d\<lparr>cidsName := cidsName d'\<rparr>)" "cidsTime d' = cidsTime (d\<lparr>cidsName := cidsName d'\<rparr>)"
    using l(3) by (rule arg_cong)+
  then have d': "cstr (cidsDate d') = Some (ymd (datetime m))" "cstr (cidsTime d') = Some (hms (datetime m))"
    using d(2,4) by simp_all
  have e: "e_sends E ty = (\<lambda>fd w n. int n)" for ty by (simp add: assms(10))
  note tell = announce_all[OF d(3) _ ci e] announce_all[OF l(2) _ ci e]
  let ?s = "p_server p"
  let ?s1 = "?s\<lparr>cs_sent := cs_sent ?s @ told E CIServerMsgMessage MultipartStageInit d i (cs_clients ?s)\<rparr>"
  let ?p = "p\<lparr>p_backup := fl, p_server := ?s1, p_cache := rows\<rparr>"
  obtain r where r: "record_call E d' ?p = Some (?p\<lparr>p_db := (p_db p)\<lparr>cidata := cidata (p_db p) @ [r]\<rparr>\<rparr>)" "records d' r"
    using record_written[OF l(2) t d' assms(12,13), of ?p] assms(14,15) by auto
  have h: "handle_ring E m p = do {
      p \<leftarrow> (if rc = 0 then announce E CIServerMsgUpdate d' (Some a) (?p\<lparr>p_db := (p_db p)\<lparr>cidata := cidata (p_db p) @ [r]\<rparr>\<rparr>)
           else Some (?p\<lparr>p_db := (p_db p)\<lparr>cidata := cidata (p_db p) @ [r]\<rparr>\<rparr>));
      announce E CIServerMsgComplete d' (Some a) p }"
    using assms(11) r(1)
    by (simp add: handle_ring_def i(1) d0(1) b1(1) b2(1) fl Let_def d_def[symmetric] tell(1) l(1))
  show ?thesis
    using assms(11,15) r(2) d(1,2) i(3) l(1)
    by (cases "rc = 0") (simp_all add: h tell(2), blast+)
qed

section \<open>The queue\<close>

text \<open>Messages one after the other, each with what the rest of the world answers.\<close>

fun handle_messages :: "(call_env \<times> CIFritzCallMsg option) list \<Rightarrow> program \<Rightarrow> program option" where
  "handle_messages [] p = Some p"
| "handle_messages ((E, m) # ms) p = do { p \<leftarrow> handle_fritz_message E m p; handle_messages ms p }"

primrec is_ring :: "CIFritzCallMsg option \<Rightarrow> bool" where
  "is_ring None = False"
| "is_ring (Some m) = (msgtype m = CALLMSGTYPE_RING)"

lemma announce_fields:
  "announce E ty d i p = Some p' \<Longrightarrow> p_db p' = p_db p \<and> p_todo p' = p_todo p"
  by (auto simp: announce_def c_bind)

lemma record_queued: "p_todo p \<noteq> [] \<Longrightarrow> record_call E d p = Some (p\<lparr>p_todo := p_todo p @ [d]\<rparr>)"
  by (simp add: record_call_def)

lemma handle_queued:
  assumes "handle_fritz_message E m p = Some p'" and "p_todo p \<noteq> []"
  shows "p_db p' = p_db p \<and> (\<exists>ds. p_todo p' = p_todo p @ ds \<and> length ds = (if is_ring m then 1 else 0))"
proof (cases m)
  case None
  then show ?thesis using assms(1) by (simp add: handle_fritz_message_def)
next
  case (Some x)
  show ?thesis
  proof (cases "msgtype x = CALLMSGTYPE_RING")
    case True
    then have "handle_ring E x p = Some p'" using assms(1) Some by (simp add: handle_fritz_message_def)
    then obtain p1 p2 d i rc rows p3 where p: "announce E CIServerMsgMessage d i p1 = Some p2" "p_db p1 = p_db p" "p_todo p1 = p_todo p"
      and r: "\<exists>d'. record_call E d' (p2\<lparr>p_cache := rows\<rparr>) = Some p3 \<and>
        (\<exists>p4. (if rc = (0 :: int) then announce E CIServerMsgUpdate d' i p3 else Some p3) = Some p4 \<and>
          announce E CIServerMsgComplete d' i p4 = Some p')"
      by (fastforce simp: handle_ring_def c_bind Let_def)
    note f = announce_fields[OF p(1)]
    from r obtain d' p4 where r: "record_call E d' (p2\<lparr>p_cache := rows\<rparr>) = Some p3"
      "(if rc = 0 then announce E CIServerMsgUpdate d' i p3 else Some p3) = Some p4"
      "announce E CIServerMsgComplete d' i p4 = Some p'" by blast
    have "p3 = p2\<lparr>p_cache := rows, p_todo := p_todo p @ [d']\<rparr>"
      using r(1) record_queued[of "p2\<lparr>p_cache := rows\<rparr>" E d'] f p(2,3) assms(2) by simp
    moreover have "p_db p4 = p_db p3 \<and> p_todo p4 = p_todo p3"
      using r(2) by (auto dest: announce_fields split: if_splits)
    ultimately show ?thesis using announce_fields[OF r(3)] f p(2,3) True Some by simp
  next
    case False
    then have "p' = p \<or> handle_call E x p = Some p'" using assms(1) Some by (auto simp: handle_fritz_message_def split: if_splits)
    then have "p_db p' = p_db p \<and> p_todo p' = p_todo p"
      by (auto simp: handle_call_def Let_def c_bind dest: announce_fields)
    then show ?thesis using False Some by simp
  qed
qed

lemma handle_messages_queued:
  "handle_messages ms p = Some p' \<Longrightarrow> p_todo p \<noteq> [] \<Longrightarrow>
     p_db p' = p_db p \<and> (\<exists>ds. p_todo p' = p_todo p @ ds \<and> length ds = length (filter (\<lambda>m. is_ring (snd m)) ms))"
proof (induction ms arbitrary: p)
  case (Cons x ms)
  obtain E m where x: "x = (E, m)" by (cases x)
  then obtain q where q: "handle_fritz_message E m p = Some q" "handle_messages ms q = Some p'"
    using Cons.prems(1) by (auto simp: c_bind)
  note h = handle_queued[OF q(1) Cons.prems(2)]
  then have "p_todo q \<noteq> []" using Cons.prems(2) by auto
  from Cons.IH[OF q(2) this] h show ?case by (auto simp: x)
qed simp

section \<open>Properties\<close>

text \<open>
  What a ringing telephone leads to. When its message is well formed, the tables have been
  read and the own number fits its array, the data set is announced to every client at once, completed by the
  reverse lookup, recorded as a new row of the database, announced again if the lookup found a name, and announced
  as complete; all of this under one id of 15 characters, to the clients in the order of their list, and with
  the number, the line and the time of the message.
\<close>

theorem ring_announced:
  assumes "msgtype m = CALLMSGTYPE_RING" and "tables_ok E" and "msg_ok m" and "cstr (called_number m) = Some line" and "length line < 16"
    and "tm_ok (e_now E)" and "length (e_stack E) = 16"
    and "env_ok (e_lookup E)" and "\<forall>s \<in> set (e_sources E). source_ok (e_lookup E) s" and "\<forall>r \<in> set (p_cache p). row_ok r"
    and "e_sends E = (\<lambda>ty fd w n. int n)" and "list_all (\<lambda>c. \<not> marked c) (cs_clients (p_server p))"
    and "list_all (binds (e_insert E)) [1, 2, 3, 4, 5, 6, 7]" and "steps (e_insert E)" and "\<not> insert_stepped (p_db p)"
    and "p_todo p = []"
  shows "\<exists>d d' i rc r p'. handle_fritz_message E (Some m) p = Some p' \<and> holds_ring m d \<and>
    cstr (cidsDate d) = Some (ymd (datetime m)) \<and> length i = 15 \<and>
    lookup_get_caller_data (e_lookup E) (e_sources E) (e_source E) (e_find E) (e_cache E) (p_cache p) d = Some (rc, d', p_cache p') \<and>
    cs_clients (p_server p') = cs_clients (p_server p) \<and>
    cs_sent (p_server p') = cs_sent (p_server p) @
      told E CIServerMsgMessage MultipartStageInit d i (cs_clients (p_server p)) @
      (if rc = 0 then told E CIServerMsgUpdate MultipartStageUpdate d' i (cs_clients (p_server p)) else []) @
      told E CIServerMsgComplete MultipartStageComplete d' i (cs_clients (p_server p)) \<and>
    cidata (p_db p') = cidata (p_db p) @ [r] \<and> records d' r \<and> p_todo p' = []"
  using ring_announcements[OF assms(2-16)] assms(1) by (simp add: handle_fritz_message_def)

definition sample_calls_env :: call_env where
  "sample_calls_env = \<lparr>e_write = (\<lambda>m. ''message''), e_sends = (\<lambda>ty fd w n. int n), e_peers = (\<lambda>ty fd. (True, [0])),
     e_glib = ascii, e_files = (\<lambda>n. None), e_areas = ci_init_area_codes, e_msns = [blank_entry], e_lookup = sample_env,
     e_sources = [sample_source], e_source = 1, e_find = True, e_cache = True, e_insert = sample_insert_env, e_now = zero_tm,
     e_usec = 123456, e_stack = replicate 16 NUL, e_location = Some ''cidata.dat'', e_open = True\<rparr>"

definition sample_ring :: CIFritzCallMsg where
  "sample_ring = zero_callmsg\<lparr>msgtype := CALLMSGTYPE_RING, calling_number := ''030555'' @ NUL # replicate 25 NUL,
     called_number := ''80504'' @ NUL # replicate 26 NUL\<rparr>"

definition sample_program :: program where
  "sample_program = \<lparr>p_server = sample_server, p_db = new_database, p_cache = [], p_todo = [], p_backup = []\<rparr>"

lemma sample_ring_ok:
  "tables_ok sample_calls_env" "msg_ok sample_ring" "msgtype sample_ring = CALLMSGTYPE_RING"
  "cstr (called_number sample_ring) = Some ''80504''" "tm_ok zero_tm"
proof -
  show "tables_ok sample_calls_env"
    using ascii_ok by (simp add: tables_ok_def sample_calls_env_def areas_ok_def ci_init_area_codes_def entry_ok_def blank_entry_def text_in_def)
  show "tm_ok zero_tm" by (simp add: tm_ok_def zero_tm_def)
  then show "msg_ok sample_ring" by (simp add: msg_ok_def sample_ring_def zero_callmsg_def text_in_def)
  show "msgtype sample_ring = CALLMSGTYPE_RING" "cstr (called_number sample_ring) = Some ''80504''"
    by (simp_all add: sample_ring_def cstr_def)
qed

theorem ring_announced_witness:
  "\<exists>d d' i rc r p'. handle_fritz_message sample_calls_env (Some sample_ring) sample_program = Some p' \<and> holds_ring sample_ring d \<and>
    cstr (cidsDate d) = Some (ymd (datetime sample_ring)) \<and> length i = 15 \<and>
    lookup_get_caller_data (e_lookup sample_calls_env) (e_sources sample_calls_env) (e_source sample_calls_env) (e_find sample_calls_env)
      (e_cache sample_calls_env) (p_cache sample_program) d = Some (rc, d', p_cache p') \<and>
    cs_clients (p_server p') = cs_clients (p_server sample_program) \<and>
    cs_sent (p_server p') = cs_sent (p_server sample_program) @
      told sample_calls_env CIServerMsgMessage MultipartStageInit d i (cs_clients (p_server sample_program)) @
      (if rc = 0 then told sample_calls_env CIServerMsgUpdate MultipartStageUpdate d' i (cs_clients (p_server sample_program)) else []) @
      told sample_calls_env CIServerMsgComplete MultipartStageComplete d' i (cs_clients (p_server sample_program)) \<and>
    cidata (p_db p') = cidata (p_db sample_program) @ [r] \<and> records d' r \<and> p_todo p' = []"
  by (rule ring_announced[OF sample_ring_ok(3,1,2,4)])
     (simp_all add: sample_calls_env_def sample_program_def sample_ring_ok(5) sample_ok sample_server_def sample_client_def marked_def
       sample_insert_env_def new_database_def)

text \<open>
  C18: The data set of a ringing telephone is well formed, all eleven texts within their arrays, exactly when the own
  number of the message is shorter than 16 characters; a longer one, which the parser lets through up to
  31, is copied over the end of its array.
\<close>

theorem ring_set_typed:
  assumes "tables_ok E" and "msg_ok m" and "cstr (called_number m) = Some line"
  shows "(ring_set E m \<noteq> None \<longleftrightarrow> length line < 16) \<and>
    (case ring_set E m of None \<Rightarrow> True | Some d \<Rightarrow> dataset_ok d \<and>
       cstr (cidsNumberComplete d) = cstr (calling_number m) \<and> cstr (cidsMSN d) = Some line \<and>
       cstr (cidsTime d) = Some (hms (datetime m)) \<and> cstr (cidsName d) = cstr (cidsArea d))"
  using ring_set_cases[OF assms] assms(3) by (cases "length line < 16") (auto simp: holds_ring_def)

theorem ring_set_typed_witness:
  "(ring_set sample_calls_env sample_ring \<noteq> None \<longleftrightarrow> length ''80504'' < 16) \<and>
    (case ring_set sample_calls_env sample_ring of None \<Rightarrow> True | Some d \<Rightarrow> dataset_ok d \<and>
       cstr (cidsNumberComplete d) = cstr (calling_number sample_ring) \<and> cstr (cidsMSN d) = Some ''80504'' \<and>
       cstr (cidsTime d) = Some (hms (datetime sample_ring)) \<and> cstr (cidsName d) = cstr (cidsArea d))"
  by (rule ring_set_typed[OF sample_ring_ok(1,2,4)])



end
