(* ===== verification/Monitor.thy ===== *)
theory Monitor
  imports FritzLink Calls
begin

text \<open>
  From the bytes of the call monitor to the clients: the first test of a turn of the thread
  in \<open>fritz.c\<close> hands what one \<open>recv\<close> delivers to the parser, and the callback of \<open>main.c\<close> handles
  the message. What a buffer of several notifications leads to, and what one leads to in the end.
\<close>

section \<open>The callback\<close>

text \<open>\<open>old\<close> is what is on the stack; the parser clears it.\<close>

definition notify :: "(string \<Rightarrow> string list) \<Rightarrow> (string \<Rightarrow> tm \<Rightarrow> tm) \<Rightarrow> call_env \<Rightarrow> CIFritzCallMsg \<Rightarrow>
    string \<Rightarrow> program \<Rightarrow> program option" where
  "notify split strptime E old line p = do {
     (rc, m) \<leftarrow> fritz_parse_notification split strptime (Some line) (Some old);
     if rc = 0 then handle_fritz_message E m p else Some p }"

text \<open>The lines are what \<open>turn_sock\<close> gives to the parser, at most one.\<close>

fun notify_all :: "(string \<Rightarrow> string list) \<Rightarrow> (string \<Rightarrow> tm \<Rightarrow> tm) \<Rightarrow> call_env \<Rightarrow> CIFritzCallMsg \<Rightarrow>
    string list \<Rightarrow> program \<Rightarrow> program option" where
  "notify_all split strptime E old [] p = Some p"
| "notify_all split strptime E old (l # ls) p = do {
     p \<leftarrow> notify split strptime E old l p; notify_all split strptime E old ls p }"

definition monitor_turn :: "(string \<Rightarrow> string list) \<Rightarrow> (string \<Rightarrow> tm \<Rightarrow> tm) \<Rightarrow> call_env \<Rightarrow> CIFritzCallMsg \<Rightarrow>
    turn \<Rightarrow> fritz_server \<Rightarrow> program \<Rightarrow> (fritz_server \<times> program) option" where
  "monitor_turn split strptime E old t s p =
     (let (ls, s) = turn_sock t s in do { p \<leftarrow> notify_all split strptime E old ls p; Some (s, p) })"

section \<open>Lines with something behind them\<close>

lemma join_append: "gs \<noteq> [] \<Longrightarrow> join (fs @ [[]]) @ join gs = join (fs @ gs)"
proof (induction fs)
  case Nil
  then show ?case by simp
next
  case (Cons f fs)
  then show ?case by (cases "fs @ [[]]"; cases "fs @ gs") (auto simp: neq_Nil_conv)
qed

lemma cut_SEMI: "f \<in> set (cut s) \<Longrightarrow> SEMI \<notin> set f"
  using semicolon_split_splits unfolding splits_def semicolon_split_def by (cases "s = []") auto

text \<open>Every notification ends with a semicolon, so what follows begins a field of its own.\<close>

lemma line_split_rest:
  assumes "splits split" and "event_ok e" and "plain date" and "plain proto"
  shows "split (event_line date proto e @ rest) = butlast (event_fields date proto e) @ cut rest"
proof -
  let ?fs = "butlast (event_fields date proto e)"
  have f: "event_fields date proto e = ?fs @ [[]]" "?fs \<noteq> []" "join (?fs @ cut rest) \<noteq> []" by (cases e; simp)+
  have "event_line date proto e @ rest = join (?fs @ cut rest)"
    unfolding event_line_def using join_append[OF cut_ne, of ?fs rest] join_cut[of rest] f(1) by metis
  moreover have "\<forall>f \<in> set (?fs @ cut rest). SEMI \<notin> set f"
    using fields_no_SEMI[OF assms(2-4)] cut_SEMI by (auto dest: in_set_butlastD)
  ultimately show ?thesis using split_join[OF assms(1), of "?fs @ cut rest"] f by simp
qed

text \<open>The record of an event.\<close>

definition num_array :: "string \<Rightarrow> char list" where
  "num_array s = take 31 s @ replicate (32 - length (take 31 s)) NUL"

lemma num_array_copied: "strlcpy (replicate 32 NUL) s 32 = Some (num_array s)"
proof -
  have "drop (Suc n) (replicate 32 NUL) = replicate (31 - n) NUL" for n by simp
  moreover have "n \<le> 31 \<Longrightarrow> NUL # replicate (31 - n) NUL = replicate (32 - n) NUL" for n
    by (simp flip: replicate_Suc add: Suc_diff_le)
  ultimately show ?thesis by (simp add: strlcpy_def put_def num_array_def min_def)
qed

lemma num_array_text: "plain s \<Longrightarrow> text_in 32 (num_array s) \<and> cstr (num_array s) = Some (take 31 s)"
  using copy_number[of s] num_array_copied[of s] by (auto simp: text_in_def num_array_def)

fun event_msg :: "(string \<Rightarrow> tm \<Rightarrow> tm) \<Rightarrow> string \<Rightarrow> call_event \<Rightarrow> CIFritzCallMsg" where
  "event_msg strptime date (RingEvent c a b) = zero_callmsg\<lparr>datetime := strptime date zero_tm, msgtype := CALLMSGTYPE_RING,
     connectionid := of_nat c, calling_number := num_array a, called_number := num_array b\<rparr>"
| "event_msg strptime date (CallEvent c n a b) = zero_callmsg\<lparr>datetime := strptime date zero_tm, msgtype := CALLMSGTYPE_CALL,
     connectionid := of_nat c, nst := of_nat n, calling_number := num_array a, called_number := num_array b\<rparr>"
| "event_msg strptime date (ConnectEvent c n a) = zero_callmsg\<lparr>datetime := strptime date zero_tm, msgtype := CALLMSGTYPE_CONNECT,
     connectionid := of_nat c, nst := of_nat n, calling_number := num_array a\<rparr>"
| "event_msg strptime date (DisconnectEvent c d) = zero_callmsg\<lparr>datetime := strptime date zero_tm, msgtype := CALLMSGTYPE_DISCONNECT,
     connectionid := of_nat c, duration := of_nat d\<rparr>"

lemma parse_with_rest:
  assumes "splits split" and "event_ok e" and "plain date" and "plain proto"
  shows "fritz_parse_notification split strptime (Some (event_line date proto e @ rest)) (Some old) =
    Some (0, Some (event_msg strptime date e))"
proof -
  note sp = line_split_rest[OF assms, of rest]
  obtain g gs where g: "cut rest = g # gs" using cut_ne[of rest] by (cases "cut rest") auto
  show ?thesis
    using sp assms(2) g
    by (cases e) (simp_all add: fritz_parse_notification_def Let_def field_defs msgtype_of_def gushort_dec strtoul_dec
        parse_fields_def zero_callmsg_def num_array_copied)
qed

section \<open>A turn\<close>

text \<open>The connection is open and readable, and the bytes begin with a notification.\<close>

definition delivers :: "turn \<Rightarrow> fritz_server \<Rightarrow> string \<Rightarrow> bool" where
  "delivers t s bytes \<longleftrightarrow> 0 \<le> srv_sock s \<and> isset t (srv_sock s) \<and> rcv t = bytes \<and> length bytes \<le> 1023 \<and> NUL \<notin> set bytes"

lemma turn_delivers:
  assumes "delivers t s bytes" and "bytes \<noteq> []"
  shows "turn_sock t s = ([bytes], s)"
proof -
  have "takeWhile (\<lambda>c. c \<noteq> NUL) bytes = bytes" using assms(1) by (auto simp: delivers_def takeWhile_eq_all_conv)
  then show ?thesis using assms by (simp add: turn_sock_def delivers_def)
qed

lemma event_line_ne: "event_line date proto e \<noteq> []"
  by (cases e) (simp_all add: event_line_def)

lemma monitor_turn_event:
  assumes "splits split" and "event_ok e" and "plain date" and "plain proto"
    and "delivers t s (event_line date proto e @ rest)"
  shows "monitor_turn split strptime E old t s p =
    map_option (\<lambda>p. (s, p)) (handle_fritz_message E (Some (event_msg strptime date e)) p)"
  using turn_delivers[OF assms(5)] event_line_ne[of date proto e] parse_with_rest[OF assms(1-4), of strptime rest old]
  by (cases "handle_fritz_message E (Some (event_msg strptime date e)) p") (simp_all add: monitor_turn_def notify_def)

section \<open>Properties\<close>


text \<open>A turn that delivers a notification of a ringing telephone.\<close>

definition sample_turn :: "string \<Rightarrow> turn" where
  "sample_turn bytes = \<lparr>sel = 1, isset = (\<lambda>fd. True), rcv = bytes, piped = [], links = []\<rparr>"

definition sample_line :: string where
  "sample_line = event_line ''01.02.14 12:00:00'' ''SIP0'' (RingEvent 0 ''030555'' ''80504'')"

lemma dec_0: "dec 0 = ''0''"
  by (subst dec.simps) (simp add: digit_char_def)

lemma sample_line_text: "sample_line = ''01.02.14 12:00:00;RING;0;030555;80504;SIP0;''"
  by (simp add: sample_line_def event_line_def dec_0)

lemma running_sock: "srv_sock running = 6"
  by (simp add: running_def fritz_startup_def fritz_try_connect_def fritz_connect_def good_attempt_def initialized_def fritz_init_def
      no_server_def Let_def has_def set_flag_def)

lemma sample_delivers: "length rest < 900 \<Longrightarrow> NUL \<notin> set rest \<Longrightarrow> delivers (sample_turn (sample_line @ rest)) running (sample_line @ rest)"
  by (simp add: delivers_def sample_turn_def running_sock sample_line_text)


text \<open>
  C23: Notifications that arrive together are not all handled: only the first one of the bytes that one
  \<open>recv\<close> delivers has an effect, and what follows it, also a complete second notification, changes nothing.
\<close>

theorem second_notification_lost:
  assumes "splits split" and "event_ok e" and "plain date" and "plain proto"
    and "delivers t s (event_line date proto e @ rest)" and "delivers u s (event_line date proto e)"
  shows "monitor_turn split strptime E old t s p = monitor_turn split strptime E old u s p"
  using monitor_turn_event[OF assms(1-5)] monitor_turn_event[OF assms(1-4), of u s "[]"] assms(6) by simp

theorem second_notification_lost_witness:
  "monitor_turn semicolon_split (\<lambda>s t. t) sample_calls_env zero_callmsg (sample_turn (sample_line @ LF # sample_line)) running sample_program =
    monitor_turn semicolon_split (\<lambda>s t. t) sample_calls_env zero_callmsg (sample_turn sample_line) running sample_program"
proof -
  have e: "event_ok (RingEvent 0 ''030555'' ''80504'')" "plain ''01.02.14 12:00:00''" "plain ''SIP0''" by (simp_all add: plain_def)
  have d: "delivers (sample_turn (sample_line @ LF # sample_line)) running (sample_line @ LF # sample_line)"
    "delivers (sample_turn sample_line) running sample_line"
    using sample_delivers[of "LF # sample_line"] sample_delivers[of "[]"] by (simp_all add: sample_line_text)
  show ?thesis by (rule second_notification_lost[OF semicolon_split_splits e d[unfolded sample_line_def], folded sample_line_def])
qed

end
