(* ===== verification/Whole.thy ===== *)
theory Whole
  imports Startup Monitor
begin

text \<open>
  The callback of the call monitor in the running program: what \<open>handle_fritz_message\<close> does to the
  list of clients, the database and the queue, in one go, is a sequence of steps of \<open>World\<close>. So what is
  proved of all interleavings there holds with calls coming in, and the announcements of
  \<open>Monitor\<close> are made in states the program reaches.
\<close>

section \<open>The callback in the world\<close>

text \<open>
  The part of the world a callback works on; \<open>rows\<close> is the content of the cache and \<open>backup\<close> that of
  the backup file.
\<close>

definition queue_of :: "world \<Rightarrow> CIDataSet list" where
  "queue_of w = (case w_todo w of Owned q \<Rightarrow> q | _ \<Rightarrow> [])"

definition program_of :: "cache_row list \<Rightarrow> string \<Rightarrow> world \<Rightarrow> program" where
  "program_of rows backup w = \<lparr>p_server = sys_server (sys_of w), p_db = sys_db (w_sys w), p_cache = rows,
     p_todo = queue_of w, p_backup = backup\<rparr>"

definition put_program :: "program \<Rightarrow> world \<Rightarrow> world" where
  "put_program p w = (put_sys ((sys_of w)\<lparr>sys_server := p_server p, sys_db := p_db p\<rparr>) w)\<lparr>w_todo := Owned (p_todo p)\<rparr>"

abbreviation reaches :: "cinet \<Rightarrow> world \<Rightarrow> program \<Rightarrow> program \<Rightarrow> bool" where
  "reaches L w p p' \<equiv> (rest_step L)\<^sup>*\<^sup>* (put_program p w) (put_program p' w)"

lemma put_program_fields [simp]:
  "w_fds (put_program p w) = cs_open (p_server p)" "w_fritz (put_program p w) = w_fritz w"
  "sys_server (w_sys (put_program p w)) = p_server p" "sys_db (w_sys (put_program p w)) = p_db p"
  "sys_phase (w_sys (put_program p w)) = sys_phase (w_sys w)" "sys_sending (w_sys (put_program p w)) = sys_sending (w_sys w)"
  "w_todo (put_program p w) = Owned (p_todo p)"
  by (simp_all add: put_program_def put_sys_def sys_of_def with_open_def)

lemma sys_of_put: "sys_of (put_program p w) = w_sys (put_program p w)"
  by (simp add: sys_of_def put_program_def with_open_def put_sys_def)

lemma put_sys_program:
  "put_sys ((sys_of (put_program p w))\<lparr>sys_server := s, sys_db := d, sys_sending := sys_sending (w_sys w)\<rparr>) (put_program p w) =
     put_program (p\<lparr>p_server := s, p_db := d\<rparr>) w"
  by (simp add: sys_of_put) (simp add: put_program_def put_sys_def sys_of_def with_open_def)

lemma put_program_same: "p_server p' = p_server p \<Longrightarrow> p_db p' = p_db p \<Longrightarrow> p_todo p' = p_todo p \<Longrightarrow> put_program p' w = put_program p w"
  by (simp add: put_program_def)

lemma program_step:
  assumes "w_todo w = Owned q"
  shows "rest_step L w (put_program (program_of rows backup w) w)"
proof -
  have "put_program (program_of rows backup w) w =
      put_sys ((sys_of w)\<lparr>sys_server := (sys_server (sys_of w))\<lparr>cs_pipe := cs_pipe (sys_server (sys_of w))\<rparr>\<rparr>) w"
    using assms by (simp add: put_program_def program_of_def queue_of_def put_sys_def sys_of_def with_open_def)
  then show ?thesis by (simp only: rest_step.pipes)
qed

section \<open>Its parts\<close>

text \<open>A broadcast is a message to all clients and the removal of those that could not be reached.\<close>

lemma announce_reaches:
  assumes "announce C ty d msgid p = Some p'" and "e_write C = write_out L" and "\<not> sys_sending (w_sys w)"
  shows "reaches L w p p' \<and> p_todo p' = p_todo p"
proof -
  obtain rc s where s: "cisrv_broadcast_message (write_out L) (e_sends C ty) (e_peers C ty) ty (Some d) msgid (p_server p) = Some (rc, s)"
    "p' = p\<lparr>p_server := s\<rparr>" using assms(1,2) by (auto simp: announce_def c_bind)
  obtain rc1 s1 where b: "broadcast_send (write_out L) (e_sends C ty) ty (Some d) msgid (p_server p) = Some (rc1, s1)"
    using s(1) by (auto simp: cisrv_broadcast_message_def c_bind)
  let ?w = "put_program p w"
  show ?thesis
  proof (cases "rc1 = 0")
    case False
    then have "s = p_server p" using s(1) b
      by (auto simp: cisrv_broadcast_message_def broadcast_send_def c_bind Let_def split: option.splits)
    then have "put_program p' w = put_program p w" by (intro put_program_same) (simp_all add: s(2))
    then show ?thesis by (simp add: s(2))
  next
    case True
    then have r: "cisrv_remove_marked_clients (e_peers C ty) s1 = Some s"
      using s(1) b by (auto simp: cisrv_broadcast_message_def c_bind)
    let ?y = "(sys_of ?w)\<lparr>sys_server := s1, sys_sending := True\<rparr>"
    have 1: "srv_step L (sys_of ?w) ?y"
      by (rule srv_step.send_step) (use assms(3) b True in \<open>simp_all add: sys_of_put\<close>)
    let ?v = "put_sys ?y ?w"
    have v: "sys_of ?v = ?y" by (simp add: sys_of_def put_sys_def with_open_def)
    have 2: "srv_step L (sys_of ?v) (?y\<lparr>sys_server := s, sys_sending := False\<rparr>)"
      unfolding v by (rule srv_step.sent_step) (use r in simp_all)
    have "rest_step L ?w ?v" by (rule rest_step.server[OF 1])
    moreover have "rest_step L ?v (put_sys (?y\<lparr>sys_server := s, sys_sending := False\<rparr>) ?v)" by (rule rest_step.server[OF 2])
    moreover have "put_sys (?y\<lparr>sys_server := s, sys_sending := False\<rparr>) ?v = put_program p' w"
      using assms(3) by (simp add: sys_of_put s(2)) (simp add: put_program_def put_sys_def sys_of_def with_open_def)
    ultimately have "reaches L w p p'" by (metis converse_rtranclp_into_rtranclp r_into_rtranclp)
    then show ?thesis by (simp add: s(2))
  qed
qed

text \<open>A call is recorded or left in the queue.\<close>

lemma queue_reaches: "reaches L w p (p\<lparr>p_todo := p_todo p @ [d]\<rparr>)"
proof -
  have "rest_step L (put_program p w) ((put_program p w)\<lparr>w_todo := Owned (p_todo p @ [d])\<rparr>)" by (rule rest_step.queues) simp
  moreover have "(put_program p w)\<lparr>w_todo := Owned (p_todo p @ [d])\<rparr> = put_program (p\<lparr>p_todo := p_todo p @ [d]\<rparr>) w"
    by (simp add: put_program_def)
  ultimately show ?thesis by auto
qed

lemma record_reaches:
  assumes "record_call C d p = Some p'"
  shows "reaches L w p p' \<and> (\<exists>ds. p_todo p' = p_todo p @ ds)"
proof (cases "p_todo p = []")
  case False
  then have "p' = p\<lparr>p_todo := p_todo p @ [d]\<rparr>" using assms by (simp add: record_call_def)
  then show ?thesis using queue_reaches[where L = L and w = w and p = p and d = d] by simp
next
  case True
  obtain rc db where db: "dbhandler_add_data (e_insert C) (Some d) (p_db p) = Some (rc, db)"
    "p' = (if rc \<noteq> 0 then p\<lparr>p_db := db, p_todo := p_todo p @ [d]\<rparr> else p\<lparr>p_db := db\<rparr>)"
    using assms True by (auto simp: record_call_def c_bind)
  let ?w = "put_program p w"
  have "rest_step L ?w (put_sys ((sys_of ?w)\<lparr>sys_db := db\<rparr>) ?w)" by (rule rest_step.records[where e = "e_insert C" and d = "Some d" and rc = rc]) (simp add: db(1))
  moreover have "put_sys ((sys_of ?w)\<lparr>sys_db := db\<rparr>) ?w = put_program (p\<lparr>p_db := db\<rparr>) w"
    by (simp add: sys_of_put) (simp add: put_program_def put_sys_def sys_of_def with_open_def)
  ultimately have 1: "reaches L w p (p\<lparr>p_db := db\<rparr>)" by auto
  then show ?thesis
    using db(2) rtranclp_trans[OF 1 queue_reaches[where L = L and w = w and p = "p\<lparr>p_db := db\<rparr>" and d = d]] by auto
qed

section \<open>The whole of it\<close>

lemma ring_reaches:
  assumes "handle_ring C m p = Some p'" and "e_write C = write_out L" and "\<not> sys_sending (w_sys w)"
  shows "reaches L w p p' \<and> (\<exists>ds. p_todo p' = p_todo p @ ds)"
proof -
  obtain d d' i bk rc rows p1 p2 p3 where
    a: "announce C CIServerMsgMessage d i (p\<lparr>p_backup := bk\<rparr>) = Some p1"
    and r: "record_call C d' (p1\<lparr>p_cache := rows\<rparr>) = Some p2"
    and u: "(if rc = (0::int) then announce C CIServerMsgUpdate d' i p2 else Some p2) = Some p3"
    and c: "announce C CIServerMsgComplete d' i p3 = Some p'"
    using assms(1) by (auto simp: handle_ring_def c_bind Let_def)
  have same: "put_program (p\<lparr>p_backup := bk\<rparr>) w = put_program p w"
    "put_program (p1\<lparr>p_cache := rows\<rparr>) w = put_program p1 w" by (rule put_program_same; simp)+
  have 1: "reaches L w p p1" "p_todo p1 = p_todo p" using announce_reaches[OF a assms(2,3)] same(1) by simp_all
  have 2: "reaches L w p1 p2" "\<exists>ds. p_todo p2 = p_todo p1 @ ds" using record_reaches[OF r, where L = L and w = w] same(2) by simp_all
  have 3: "reaches L w p2 p3 \<and> p_todo p3 = p_todo p2"
    using u announce_reaches[OF _ assms(2,3)] by (cases "rc = 0") auto
  have 4: "reaches L w p3 p'" "p_todo p' = p_todo p3" using announce_reaches[OF c assms(2,3)] by simp_all
  have "reaches L w p p'" using 1(1) 2(1) 3 4(1) by (meson rtranclp_trans)
  then show ?thesis using 1(2) 2(2) 3 4(2) by simp
qed

lemma callback_reaches:
  assumes "handle_fritz_message C (Some m) p = Some p'" and "e_write C = write_out L" and "\<not> sys_sending (w_sys w)"
  shows "reaches L w p p' \<and> (\<exists>ds. p_todo p' = p_todo p @ ds)"
proof -
  let ?skip = "msgtype m \<noteq> CALLMSGTYPE_CALL \<and> msgtype m \<noteq> CALLMSGTYPE_RING" and ?ring = "msgtype m = CALLMSGTYPE_RING"
  have f: "(if ?skip then Some p else if ?ring then handle_ring C m p else handle_call C m p) = Some p'"
    using assms(1) unfolding handle_fritz_message_def option.case .
  show ?thesis
  proof (cases ?skip)
    case True
    then have "p' = p" using f[unfolded if_P[OF True]] by simp
    then show ?thesis by simp
  next
    case no_skip: False
    show ?thesis
    proof (cases ?ring)
      case True
      have "handle_ring C m p = Some p'" by (rule f[unfolded if_not_P[OF no_skip] if_P[OF True]])
      then show ?thesis by (rule ring_reaches[OF _ assms(2,3)])
    next
      case False
      have "handle_call C m p = Some p'" by (rule f[unfolded if_not_P[OF no_skip] if_not_P[OF False]])
      then obtain d where "announce C CIServerMsgCall d None p = Some p'" by (auto simp: handle_call_def c_bind Let_def)
      from announce_reaches[OF this assms(2,3)] show ?thesis by simp
    qed
  qed
qed

lemma notify_reaches:
  assumes "notify split strptime C old line p = Some p'" and "e_write C = write_out L" and "\<not> sys_sending (w_sys w)"
  shows "reaches L w p p' \<and> (\<exists>ds. p_todo p' = p_todo p @ ds)"
proof -
  obtain rc m where m: "(if rc = (0::int) then handle_fritz_message C m p else Some p) = Some p'"
    using assms(1) by (auto simp: notify_def c_bind)
  show ?thesis
  proof (cases "rc = 0")
    case False
    then have "p' = p" using m by simp
    then show ?thesis by simp
  next
    case True
    then have h: "handle_fritz_message C m p = Some p'" using m by simp
    show ?thesis
    proof (cases m)
      case None
      then have "p' = p" using h by (simp add: handle_fritz_message_def)
      then show ?thesis by simp
    next
      case (Some c)
      then show ?thesis using callback_reaches[OF _ assms(2,3)] h by simp
    qed
  qed
qed

lemma notify_all_reaches:
  assumes "e_write C = write_out L" and "\<not> sys_sending (w_sys w)"
  shows "notify_all split strptime C old ls p = Some p' \<Longrightarrow> reaches L w p p' \<and> (\<exists>ds. p_todo p' = p_todo p @ ds)"
proof (induction ls arbitrary: p)
  case (Cons l ls)
  obtain p1 where n: "notify split strptime C old l p = Some p1" "notify_all split strptime C old ls p1 = Some p'"
    using Cons.prems by (auto simp: c_bind)
  have 1: "reaches L w p p1 \<and> (\<exists>ds. p_todo p1 = p_todo p @ ds)" by (rule notify_reaches[OF n(1) assms])
  have 2: "reaches L w p1 p' \<and> (\<exists>ds. p_todo p' = p_todo p1 @ ds)" by (rule Cons.IH[OF n(2)])
  have "reaches L w p p'" using 1 2 by (meson rtranclp_trans)
  then show ?case using 1 2 by auto
qed simp

text \<open>
  A turn of the listening thread that does not change the connection, with what it hands to the
  callback. \<open>C\<close> is what the callback meets, another one each time; no other broadcast is under way.
\<close>

inductive call_step :: "cinet \<Rightarrow> world \<Rightarrow> world \<Rightarrow> bool" for L where
  call: "w_todo w = Owned q \<Longrightarrow> \<not> sys_sending (w_sys w) \<Longrightarrow> e_write C = write_out L \<Longrightarrow>
    monitor_turn split strptime C old t (fritz_of w) (program_of rows backup w) = Some (fritz_of w, p) \<Longrightarrow>
    call_step L w (put_program p w)"

lemma call_step_steps:
  assumes "call_step L w w'"
  shows "(rest_step L)\<^sup>*\<^sup>* w w' \<and> (\<exists>ds. queue_of w' = queue_of w @ ds)"
  using assms
proof (induction rule: call_step.induct)
  case (call w q C split strptime old t rows backup p)
  obtain ls s where "notify_all split strptime C old ls (program_of rows backup w) = Some p"
    using call.hyps(4) by (auto simp: monitor_turn_def c_bind split: prod.splits)
  from notify_all_reaches[OF call.hyps(3,2) this]
  have n: "reaches L w (program_of rows backup w) p" "\<exists>ds. p_todo p = queue_of w @ ds" by (simp_all add: program_of_def)
  have "(rest_step L)\<^sup>*\<^sup>* w (put_program p w)"
    using program_step[OF call.hyps(1), of L rows backup] n(1) by (rule converse_rtranclp_into_rtranclp)
  then show ?case using n(2) by (simp add: queue_of_def)
qed

lemma runs_with_calls:
  "(\<lambda>w w'. world_step L w w' \<or> call_step L w w')\<^sup>*\<^sup>* w w' \<Longrightarrow> (world_step L)\<^sup>*\<^sup>* w w'"
proof (induction rule: rtranclp_induct)
  case (step u v)
  then have "(world_step L)\<^sup>*\<^sup>* u v" using call_step_steps[of L u v] rest_steps[of L u v] by auto
  then show ?case using step.IH by (rule rtranclp_trans[rotated])
qed simp

section \<open>Properties\<close>


text \<open>The program of \<open>Startup\<close> with a telephone that rings.\<close>

lemma sample_call:
  assumes "w_fritz w = sample_link" and "sys_server (w_sys w) = sample_listener" and "sys_db (w_sys w) = new_database"
    and "w_fds w = {0, 1, 2, 3, 4, 5, 6, 7, 8, 9}" and "w_todo w = Owned []" and "\<not> sys_sending (w_sys w)"
  shows "\<exists>w'. call_step sample_cinet w w' \<and> length (cidata (sys_db (w_sys w'))) = 1"
proof -
  let ?strp = "\<lambda>s t. t" and ?p = "program_of [] [] w"
  let ?m = "event_msg ?strp ''01.02.14 12:00:00'' (RingEvent 0 ''030555'' ''80504'')"
  have d: "delivers (sample_turn sample_line) (fritz_of w) sample_line"
    using assms(1) sample_link_fields(1) by (simp add: delivers_def sample_turn_def sample_line_text fritz_of_def)
  have e: "event_ok (RingEvent 0 ''030555'' ''80504'')" "plain ''01.02.14 12:00:00''" "plain ''SIP0''" by (simp_all add: plain_def)
  have a: "text_in 32 (num_array ''030555'')" "text_in 32 (num_array ''80504'')" "cstr (num_array ''80504'') = Some ''80504''"
    using num_array_text[of "''030555''"] num_array_text[of "''80504''"] by (simp_all add: plain_def)
  have m: "msg_ok ?m" "cstr (called_number ?m) = Some ''80504''" using a sample_ring_ok(5) by (simp_all add: msg_ok_def)
  have p: "cs_clients (p_server ?p) = []" "p_db ?p = new_database" "p_cache ?p = []" "p_todo ?p = []"
    using assms sample_fds(3) by (simp_all add: program_of_def sys_of_def with_open_def queue_of_def)
  obtain p' r where h: "handle_ring sample_calls_env ?m ?p = Some p'" "cidata (p_db p') = cidata (p_db ?p) @ [r]"
    using ring_announcements[OF sample_ring_ok(1) m, of ?p]
    by (auto simp: p sample_calls_env_def sample_ring_ok(5) sample_ok sample_insert_env_def new_database_def)
  have f: "handle_fritz_message sample_calls_env (Some ?m) ?p = Some p'" using h(1) by (simp add: handle_fritz_message_def)
  have "monitor_turn semicolon_split ?strp sample_calls_env zero_callmsg (sample_turn sample_line) (fritz_of w) ?p = Some (fritz_of w, p')"
    using monitor_turn_event[OF semicolon_split_splits e, of "sample_turn sample_line" "fritz_of w" "[]" ?strp sample_calls_env zero_callmsg ?p] d f
    by (simp add: sample_line_def)
  from call_step.call[OF assms(5,6) _ this] have "call_step sample_cinet w (put_program p' w)"
    by (simp add: sample_calls_env_def sample_cinet_def)
  then show ?thesis using h(2) p(2) by (intro exI[of _ "put_program p' w"]) (simp add: new_database_def)
qed


end
