(* ===== verification/Spec2Isabelle.thy ===== *)
theory Spec2Isabelle
  imports Transmission Whole
begin

text \<open>
  A verification of fritz2ci (repository directory src/): a daemon that listens to the call
  monitor of a router, announces calls to clients in the local network, looks callers up, and
  records calls in a database.

  \<^bold>\<open>The program.\<close> \<open>fritz.c\<close> keeps a connection to the router and hands every notification to
  \<open>handle_fritz_message\<close> of \<open>main.c\<close>. That fills a data set (\<open>CIData.h\<close>), with the area from
  \<open>ci_areacodes.c\<close>, the name of the own number from \<open>msn_lookup.c\<close> and the caller from
  \<open>lookup.c\<close>, records it with \<open>dbhandler.c\<close> and announces it with \<open>ci-server.c\<close>, whose thread
  also answers requests of the clients. \<open>cidbmessages.c\<close> and \<open>cidbconnection.c\<close> are the protocol
  of an external database server.

  \<^bold>\<open>Conventions.\<close> Memory is the one of theory \<open>CMem\<close>: an array is a list of cells, a pointer
  that may be NULL an option, an access out of bounds, a jump into freed memory or another
  undefined behaviour of C is \<open>None\<close> of the option monad, and so is a call that never returns;
  return codes are values. Integers keep their width where the code depends on it (\<open>byte\<close>, \<open>u16\<close>,
  \<open>u32\<close>, 64-bit words). The results of system calls are arguments of the definitions, and what a
  component does in between other threads is a step of an inductive relation.

  \<^bold>\<open>Theories.\<close>
  \<^item> \<open>CMem\<close>, \<open>CText\<close>: arrays, bounded loops, \<open>strcpy\<close>, \<open>fgets\<close>, streams, and their lemmas.
  \<^item> \<open>WireHeader\<close>, \<open>WireString\<close>, \<open>WireTable\<close>, \<open>WireMessage\<close> (\<open>cidbmessages.c\<close>, \<open>cidbmessages.h\<close>)
    and \<open>Transmission\<close> (\<open>cidbconnection.c\<close>): field accessors, header, strings, tables, the eleven
    commands and their packets. The locales \<open>wire_writer\<close> and \<open>wire_codec\<close> of \<open>WireString\<close> state
    what a writer and a reader of one item promise; strings, cells and tables interpret them, and
    the round trips of arrays and tables are proved once in them.
  \<^item> \<open>CIData\<close> (\<open>CIData.h\<close>): the structures of a call and of a caller, \<open>dataset_ok\<close>.
  \<^item> \<open>Areacodes\<close> (\<open>ci_areacodes.c\<close>): the index by first digit and the search, shown against a file
    that is sorted, and what the search leaves at the end of the file.
  \<^item> \<open>Msn\<close> (\<open>msn_lookup.c\<close>): reading the file refines a map from numbers to names.
  \<^item> \<open>NetUtils\<close> (\<open>netutils.c\<close>): descriptor sets, waiting for an address, link messages.
  \<^item> \<open>Notification\<close>, \<open>FritzLink\<close> (\<open>fritz.c\<close>): the parser of notifications; connecting, the retry
    timer, one turn of the thread, shutdown, and their interleavings \<open>link_step\<close> with the invariant
    \<open>link_ok\<close>.
  \<^item> \<open>Url\<close>, \<open>Lookup\<close> (\<open>lookup.c\<close>): the URL of a query, the in-place removal of escapes, matching of
    an answer, the cache, and the lookup of a call through both.
  \<^item> \<open>Db\<close> (\<open>dbhandler.c\<close>): calls and callers as lists of rows; the locale \<open>directory\<close> states what a
    table of callers promises and gives the refinement of a map under any sequence of requests.
  \<^item> \<open>Clients\<close>, \<open>Requests\<close>, \<open>Server\<close> (\<open>ci-server.c\<close>): versions, the list of clients and messages
    to all of them; the requests of one client; the parts of a turn of the thread between which the
    lock is released, interleaved with broadcasts (\<open>srv_step\<close>) and the rest of the program
    (\<open>env_step\<close>), with the invariant \<open>srv_ok\<close>.
  \<^item> \<open>Calls\<close> (\<open>main.c\<close>): what happens on a call, from the message to the announcements.
  \<^item> \<open>Monitor\<close> (\<open>fritz.c\<close>, \<open>main.c\<close>): the bytes of a \<open>recv\<close>, the parser and the callback composed,
    so that a notification of the router is followed to the clients and to the database.
  \<^item> \<open>Config\<close> (\<open>config.c\<close>, \<open>logging.c\<close>): command line, key file, the strings of the configuration,
    the log. Its type \<open>owned\<close> is a pointer that is NULL, owns something or is left over after the
    release; the clean-up functions of the other parts use it.
  \<^item> \<open>Daemon\<close> (\<open>daemon.c\<close>): the pid file, the test whether its process runs, \<open>fork\<close> and the end.
  \<^item> \<open>Handles\<close> (\<open>dbhandler.c\<close>, \<open>lookup.c\<close>): opening and closing of the two databases.
  \<^item> \<open>Sources\<close> (\<open>lookup.c\<close>): the XML file of the sources, start and end of the reverse lookup; what is
    loaded is shown equal to a reading of the tree by element names.
  \<^item> \<open>World\<close>: all components in one process. The locale \<open>descriptor_owner\<close> states what a component
    promises about a table of descriptors it shares; \<open>FritzLink\<close> and \<open>Server\<close> interpret it, and in
    \<open>two_owners\<close> it is proved that two such components stay apart. \<open>link_phase\<close> is the connection
    beside the server, interpreted before it has a thread and while it runs. \<open>world_step\<close> is the
    interleaving of both with the rest of the program, with the invariants \<open>starting_ok\<close> and \<open>world_ok\<close>.
  \<^item> \<open>Startup\<close> (\<open>main.c\<close>): \<open>main\<close> and \<open>_shutdown\<close>, with every start that fails; the start establishes
    \<open>world_ok\<close>, and from every state the threads can reach the end releases what is held.
  \<^item> \<open>Whole\<close>: the callback inside the running program; it refines the steps of \<open>World\<close>, so what is
    proved of those holds with calls coming in.

  \<^bold>\<open>Parameters.\<close> Code outside the repository is an argument: the character classes and string
  functions of GLib, \<open>strptime\<close> and \<open>strftime\<close>, \<open>mktime\<close>, regular expressions, \<open>g_convert\<close>, curl,
  SQLite's statements as operations on lists of rows with their return codes, the library cinet
  (record \<open>cinet\<close>), and the kernel's answers. What is relied on is a named hypothesis, e.g.
  \<open>sends_ok\<close>: \<open>send\<close> returns -1 or at most the length.

  \<^bold>\<open>Bounds.\<close> Loops over data are structural or have a measure. A loop that may not end
  (\<open>url_loop\<close>, \<open>bind_loop\<close>, \<open>drain\<close>) has no result then, and the properties say when it has one.
  What the other threads do while main starts or waits for a thread is an argument (record
  \<open>joins\<close>) that is any sequence of their steps; a wait may also have no result.

  \<^bold>\<open>Not modelled.\<close> The lines that other files than \<open>main.c\<close> log are left out, for
  they change nothing else. The packed layouts of the structures of \<open>cidbmessages.h\<close> appear as the
  offsets the accessors use. The SQL texts are the operations on rows that they describe, and the
  handlers of signals only end the main loop. The remaining lines of the sources are include
  directives, prototypes, comments and braces.
\<close>

end
